(* ===== verification/Prelude.thy ===== *)
theory Prelude
  imports Main "HOL-Library.Word" "HOL-Library.Monad_Syntax"
begin

text \<open>
  Shared vocabulary of the development: machine integers of the widths the crate uses, the pieces
  of the Rust standard library that the modelled code calls (saturating and checked arithmetic,
  decimal and hexadecimal formatting, strings as byte sequences), and the generic facts about
  words and list slices on which the component theories rest.

  \<^item> \<open>usize\<close> is a 64-bit word: the crate is modelled on a 64-bit target, in the release profile
    (\<open>+\<close> and \<open>*\<close> wrap; \<open>debug_assert!\<close> is not compiled in). Where the code relies on the absence
    of wrap-around, a lemma shows it.
  \<^item> A Rust \<open>&str\<close> or \<open>String\<close> is a \<open>string\<close>, one \<open>char\<close> per UTF-8 byte.
  \<^item> A function that may perform undefined behaviour (a raw-pointer access outside a mapping) or
    panic returns an \<open>option\<close>, with \<open>None\<close> for that outcome; a Rust \<open>Result\<close> is a sum, with
    \<open>Inl\<close> the error.
\<close>

unbundle bit_operations_syntax

section \<open>Collections of simplification rules\<close>

named_theorems protocol_consts \<open>the numeric constants of types.rs\<close>
named_theorems unat_arith_simps \<open>word arithmetic read through unat\<close>
named_theorems slice_simps \<open>reading and overwriting parts of a byte list\<close>
named_theorems mem_simps \<open>raw memory accesses that are in range\<close>
named_theorems frame_simps \<open>what an operation leaves unchanged\<close>

section \<open>Machine integers\<close>

type_synonym u8 = "8 word"
type_synonym u16 = "16 word"
type_synonym u32 = "32 word"
type_synonym u64 = "64 word"
type_synonym usize = "64 word"

abbreviation usize_limit :: nat where
  "usize_limit \<equiv> 2 ^ 64"

text \<open>\<open>usize::saturating_sub\<close>, \<open>usize::checked_add\<close> and \<open>u8::checked_sub\<close>.\<close>

definition saturating_sub :: "usize \<Rightarrow> usize \<Rightarrow> usize" where
  "saturating_sub a b = (if a < b then 0 else a - b)"

definition checked_add :: "usize \<Rightarrow> usize \<Rightarrow> usize option" where
  "checked_add a b = (if unat a + unat b < usize_limit then Some (a + b) else None)"

definition checked_sub_u8 :: "u8 \<Rightarrow> u8 \<Rightarrow> u8 option" where
  "checked_sub_u8 a b = (if b \<le> a then Some (a - b) else None)"

text \<open>
  Lengths of Rust slices are at most \<open>isize::MAX\<close>, so the length of a byte list is read into a
  \<open>usize\<close> without loss as long as the list is a possible slice.
\<close>

definition usize_of :: "nat \<Rightarrow> usize" where
  "usize_of n = word_of_nat n"

definition slice_len_ok :: "'a list \<Rightarrow> bool" where
  "slice_len_ok xs \<longleftrightarrow> length xs < 2 ^ 63"

lemma unat_usize_of [simp]: "n < usize_limit \<Longrightarrow> unat (usize_of n) = n"
  by (simp add: usize_of_def unat_of_nat)

lemma usize_of_unat [simp]: "usize_of (unat w) = w"
  by (simp add: usize_of_def)

lemma unat_usize_of_length [simp]: "slice_len_ok xs \<Longrightarrow> unat (usize_of (length xs)) = length xs"
  by (simp add: slice_len_ok_def)

lemma unat_less_limit [simp]: "unat (w :: usize) < usize_limit"
  using unsigned_less [of w] by simp

lemma unat_saturating_sub [unat_arith_simps]:
  "unat (saturating_sub a b) = unat a - unat b"
  by (auto simp: saturating_sub_def word_less_nat_alt unat_sub_if')

lemma checked_add_eq_Some [unat_arith_simps]:
  "checked_add a b = Some c \<longleftrightarrow> unat c = unat a + unat b"
proof
  assume "checked_add a b = Some c"
  then show "unat c = unat a + unat b"
    by (auto simp: checked_add_def unat_word_ariths split: if_splits)
next
  assume c: "unat c = unat a + unat b"
  then have "unat a + unat b < usize_limit" by (metis unat_less_limit)
  moreover from this c have "a + b = c"
    by (simp add: word_unat_eq_iff unat_word_ariths)
  ultimately show "checked_add a b = Some c" by (simp add: checked_add_def)
qed

lemma checked_add_eq_None [unat_arith_simps]:
  "checked_add a b = None \<longleftrightarrow> usize_limit \<le> unat a + unat b"
  by (auto simp: checked_add_def)

lemma unat_add_exact: "unat a + unat b < 2 ^ LENGTH('a) \<Longrightarrow> unat (a + b) = unat a + unat (b :: 'a::len word)"
  by (rule unat_add_lem [THEN iffD1])

lemma unat_mult_exact: "unat a * unat b < 2 ^ LENGTH('a) \<Longrightarrow> unat (a * b) = unat a * unat (b :: 'a::len word)"
  by (rule unat_mult_lem [THEN iffD1])

lemma word_one_le [simp]: "1 \<le> (n :: 'a::len word) \<longleftrightarrow> n \<noteq> 0"
  by (auto simp: word_le_nat_alt Suc_le_eq unat_gt_0)

text \<open>\<^verbatim>\<open>as usize\<close> on a \<open>u32\<close> loses nothing; \<^verbatim>\<open>as u32\<close> and \<^verbatim>\<open>as u16\<close> keep the low bits.\<close>

lemma unat_widen [simp]:
  "unat (ucast (x :: u32) :: usize) = unat x" "unat (ucast (y :: u16) :: usize) = unat y"
proof -
  have "unat x < 2 ^ 32" and "unat y < 2 ^ 16"
    using unsigned_less [of x] unsigned_less [of y] by simp_all
  then show "unat (ucast x :: usize) = unat x" and "unat (ucast y :: usize) = unat y"
    by (simp_all add: unsigned_ucast_eq take_bit_nat_eq_self)
qed

lemma unat_narrow [unat_arith_simps]:
  "unat (ucast (x :: usize) :: u32) = unat x mod 2 ^ 32"
  "unat (ucast (x :: usize) :: u16) = unat x mod 2 ^ 16"
  by (simp_all add: unsigned_ucast_eq take_bit_eq_mod)

text \<open>Clearing the three low bits (\<open>x & !7\<close>) rounds down to a multiple of eight.\<close>

lemma and_not_mask_eq: "w AND NOT (mask n) = push_bit n (drop_bit n (w :: 'a::len word))"
  by (rule bit_word_eqI) (auto simp: bit_simps)

lemma unat_and_not_7: "unat (w AND NOT 7) = unat (w :: 'a::len word) div 8 * 8"
proof -
  have "(7 :: 'a word) = mask 3" by (simp add: mask_eq_exp_minus_1)
  then have eq: "w AND NOT 7 = push_bit 3 (drop_bit 3 w)" by (simp only: and_not_mask_eq)
  have "unat w div 8 * 8 < 2 ^ LENGTH('a)"
    using unsigned_less [of w] div_times_less_eq_dividend [of "unat w" 8]
    by (meson order_le_less_trans)
  then have "unat (push_bit 3 (drop_bit 3 w)) = unat w div 8 * 8"
    by (simp only: unsigned_push_bit_eq unsigned_drop_bit_eq)
      (simp add: push_bit_eq_mult drop_bit_eq_div take_bit_eq_mod)
  then show ?thesis by (simp only: eq)
qed

lemma unat_and_minus_8 [unat_arith_simps]:
  "unat (w AND - 8) = unat (w :: 'a::len word) div 8 * 8"
  using unat_and_not_7 [of w] by simp

lemma unat_word_of_nat_self: "word_of_nat (unat w) = (w :: 'a::len word)"
  by simp

section \<open>Strings and bytes\<close>

type_synonym bytes = "u8 list"

definition as_bytes :: "string \<Rightarrow> bytes" where
  "as_bytes s = map of_char s"

definition string_of_bytes :: "bytes \<Rightarrow> string" where
  "string_of_bytes bs = map (\<lambda>b. char_of (unat b)) bs"

lemma length_as_bytes [simp]: "length (as_bytes s) = length s"
  by (simp add: as_bytes_def)

lemma of_char_word: "(of_char c :: u8) = word_of_nat (of_char c)"
  by (metis of_nat_of_char)

lemma unat_of_char [simp]: "unat (of_char c :: u8) = of_char c"
proof -
  have "(of_char c :: nat) < 256" by simp
  then show ?thesis by (simp add: of_char_word unat_of_nat)
qed

lemma char_of_unat_of_char [simp]: "char_of (unat (of_char c :: u8)) = c"
  by simp

lemma string_of_as_bytes [simp]: "string_of_bytes (as_bytes s) = s"
  by (induction s) (simp_all add: string_of_bytes_def as_bytes_def)

lemma as_bytes_of_string [simp]: "as_bytes (string_of_bytes bs) = bs"
proof (induction bs)
  case Nil
  then show ?case by (simp add: string_of_bytes_def as_bytes_def)
next
  case (Cons b bs)
  have "unat b < 256" using unsigned_less [of b] by simp
  then have "(of_char (char_of (unat b)) :: nat) = unat b" by simp
  then have "(of_char (char_of (unat b) :: char) :: u8) = b"
    by (metis of_char_word unat_word_of_nat_self)
  with Cons show ?case by (simp add: string_of_bytes_def as_bytes_def)
qed

lemma as_bytes_eq_iff [simp]: "as_bytes s = as_bytes t \<longleftrightarrow> s = t"
  by (metis string_of_as_bytes)

section \<open>Formatting of numbers\<close>

text \<open>\<open>{}\<close> on an unsigned integer: its decimal digits.\<close>

definition digit_char :: "nat \<Rightarrow> char" where
  "digit_char d = (if d < 10 then char_of (48 + d) else char_of (55 + d))"

fun show_nat :: "nat \<Rightarrow> string" where
  "show_nat n = (if n < 10 then [digit_char n] else show_nat (n div 10) @ [digit_char (n mod 10)])"

declare show_nat.simps [simp del]

definition show_u :: "'a::len word \<Rightarrow> string" where
  "show_u w = show_nat (unat w)"

definition is_digit :: "char \<Rightarrow> bool" where
  "is_digit c \<longleftrightarrow> c \<in> set ''0123456789''"

fun nat_of_digits :: "nat \<Rightarrow> string \<Rightarrow> nat" where
  "nat_of_digits acc [] = acc"
| "nat_of_digits acc (c # cs) = nat_of_digits (acc * 10 + (of_char c - 48)) cs"

lemma digit_char_cases: "d < 10 \<Longrightarrow> is_digit (digit_char d) \<and> of_char (digit_char d) = 48 + d"
proof -
  assume "d < 10"
  then have "d \<in> {0, 1, 2, 3, 4, 5, 6, 7, 8, 9}" by auto
  then show ?thesis by (elim insertE emptyE) (simp_all add: digit_char_def is_digit_def, code_simp+)
qed

lemma show_nat_digits: "c \<in> set (show_nat n) \<Longrightarrow> is_digit c"
proof (induction n rule: show_nat.induct)
  case (1 n)
  then show ?case
    by (subst (asm) show_nat.simps) (auto simp: digit_char_cases split: if_splits)
qed

lemma show_nat_nonempty [simp]: "show_nat n \<noteq> []"
  by (subst show_nat.simps) simp

lemma nat_of_digits_append:
  "nat_of_digits acc (s @ t) = nat_of_digits (nat_of_digits acc s) t"
  by (induction s arbitrary: acc) auto

lemma nat_of_digits_show: "nat_of_digits 0 (show_nat n) = n"
proof (induction n rule: show_nat.induct)
  case (1 n)
  show ?case
  proof (cases "n < 10")
    case True
    then show ?thesis by (subst show_nat.simps) (simp add: digit_char_cases)
  next
    case False
    with 1 have "nat_of_digits 0 (show_nat (n div 10)) = n div 10" by simp
    with False show ?thesis
      by (subst show_nat.simps) (simp add: nat_of_digits_append digit_char_cases)
  qed
qed

lemma show_nat_inject [simp]: "show_nat m = show_nat n \<longleftrightarrow> m = n"
  by (metis nat_of_digits_show)

lemma show_u_inject [simp]: "show_u v = show_u w \<longleftrightarrow> v = w"
  by (simp add: show_u_def word_unat_eq_iff)

lemma show_u_digits: "c \<in> set (show_u w) \<Longrightarrow> is_digit c"
  by (auto simp: show_u_def dest: show_nat_digits)

text \<open>\<open>0x{:08X}\<close> on a \<open>u32\<close>, and \<open>{:p}\<close> on an address.\<close>

definition show_hex_upper8 :: "u32 \<Rightarrow> string" where
  "show_hex_upper8 w = map (\<lambda>i. digit_char (unat w div 16 ^ i mod 16)) [7, 6, 5, 4, 3, 2, 1, 0]"

definition lower_hex_digit :: "nat \<Rightarrow> char" where
  "lower_hex_digit d = (if d < 10 then char_of (48 + d) else char_of (87 + d))"

fun show_hex :: "nat \<Rightarrow> string" where
  "show_hex n = (if n < 16 then [lower_hex_digit n] else show_hex (n div 16) @ [lower_hex_digit (n mod 16)])"

declare show_hex.simps [simp del]

definition show_pointer :: "usize \<Rightarrow> string" where
  "show_pointer a = ''0x'' @ show_hex (unat a)"

section \<open>Slices of byte lists\<close>

definition slice :: "nat \<Rightarrow> nat \<Rightarrow> 'a list \<Rightarrow> 'a list" where
  "slice off n xs = take n (drop off xs)"

definition splice :: "nat \<Rightarrow> 'a list \<Rightarrow> 'a list \<Rightarrow> 'a list" where
  "splice off ys xs = take off xs @ ys @ drop (off + length ys) xs"

lemma length_splice [slice_simps]:
  "off + length ys \<le> length xs \<Longrightarrow> length (splice off ys xs) = length xs"
  by (simp add: splice_def)

lemma length_slice [slice_simps]:
  "off + n \<le> length xs \<Longrightarrow> length (slice off n xs) = n"
  by (simp add: slice_def)

lemma slice_zero [simp]: "slice off 0 xs = []"
  by (simp add: slice_def)

lemma slice_all: "slice 0 (length xs) xs = xs"
  by (simp add: slice_def)

lemma nth_splice:
  "off + length ys \<le> length xs \<Longrightarrow> k < length xs \<Longrightarrow>
   splice off ys xs ! k = (if off \<le> k \<and> k < off + length ys then ys ! (k - off) else xs ! k)"
  by (auto simp: splice_def nth_append min_def)

lemma nth_slice:
  "off + n \<le> length xs \<Longrightarrow> k < n \<Longrightarrow> slice off n xs ! k = xs ! (off + k)"
  by (simp add: slice_def)

lemma slice_splice_same [slice_simps]:
  "off + length ys \<le> length xs \<Longrightarrow> n = length ys \<Longrightarrow> slice off n (splice off ys xs) = ys"
  by (simp add: slice_def splice_def)

lemma slice_splice_disjoint [slice_simps]:
  assumes "off + length ys \<le> length xs" and "p + n \<le> off \<or> off + length ys \<le> p"
    and "p + n \<le> length xs"
  shows "slice p n (splice off ys xs) = slice p n xs"
  using assms
  by (intro nth_equalityI) (auto simp: length_slice length_splice nth_slice nth_splice)

lemma slice_splice_inside:
  assumes "off + length ys \<le> length xs" and "off \<le> p" and "p + n \<le> off + length ys"
  shows "slice p n (splice off ys xs) = slice (p - off) n ys"
  using assms
  by (intro nth_equalityI) (auto simp: length_slice length_splice nth_slice nth_splice)

lemma slice_slice:
  "p + n \<le> m \<Longrightarrow> slice p n (slice off m xs) = slice (off + p) n xs"
  by (simp add: slice_def drop_take add.commute)

lemma slice_eq_sub:
  assumes "slice off m xs = slice off m ys" and "off \<le> p" and "p + n \<le> off + m"
  shows "slice p n xs = slice p n ys"
  using assms slice_slice [of "p - off" n m off xs] slice_slice [of "p - off" n m off ys] by simp

lemma slice_full_splice: "length ys = length xs \<Longrightarrow> splice 0 ys xs = ys"
  by (simp add: splice_def)

lemma slice_append_left: "n \<le> length ys \<Longrightarrow> slice 0 n (ys @ zs) = take n ys"
  by (simp add: slice_def)

end
