(* ===== verification/World.thy ===== *)
theory World
  imports Prelude
begin

text \<open>
  The state the crate runs against. A process sees shared memory through raw pointers into mapped
  segments; several handles (a hub and a worker, or two workers) map the same segment and so alias
  the same bytes. The store \<open>mem\<close> therefore maps a segment number to its bytes, and a pointer is a
  segment and an offset. A raw access is \<open>None\<close> (undefined behaviour, the access violation the
  crate defends against) when it leaves the segment, or when a typed access is misaligned (a
  segment starts on a page boundary). Multi-byte fields are little-endian.

  The field \<open>ext\<close> is the state of everything outside the crate (the shared-memory name space, named
  events, the file system), of an arbitrary type; only the external operations given as parameters
  read or change it.
\<close>

section \<open>The world\<close>

record 'os world =
  mem :: "nat \<Rightarrow> bytes"
  ext :: 'os

section \<open>Raw bytes\<close>

definition mem_read :: "nat \<Rightarrow> nat \<Rightarrow> nat \<Rightarrow> 'os world \<Rightarrow> bytes option" where
  "mem_read seg off n w =
     (if off + n \<le> length (mem w seg) then Some (slice off n (mem w seg)) else None)"

definition mem_write :: "nat \<Rightarrow> nat \<Rightarrow> bytes \<Rightarrow> 'os world \<Rightarrow> 'os world option" where
  "mem_write seg off bs w =
     (if off + length bs \<le> length (mem w seg)
      then Some (w\<lparr>mem := (mem w)(seg := splice off bs (mem w seg))\<rparr>) else None)"

definition seg_len :: "nat \<Rightarrow> 'os world \<Rightarrow> nat" where
  "seg_len seg w = length (mem w seg)"

text \<open>The interface of a flat byte store, and what a client may conclude from it.\<close>

locale byte_store =
  fixes rd :: "nat \<Rightarrow> nat \<Rightarrow> 'm \<Rightarrow> bytes option"
    and wr :: "nat \<Rightarrow> bytes \<Rightarrow> 'm \<Rightarrow> 'm option"
    and size_of :: "'m \<Rightarrow> nat"
  assumes rd_defined: "rd off n m \<noteq> None \<longleftrightarrow> off + n \<le> size_of m"
    and rd_length: "rd off n m = Some bs \<Longrightarrow> length bs = n"
    and wr_defined: "wr off bs m \<noteq> None \<longleftrightarrow> off + length bs \<le> size_of m"
    and wr_size: "wr off bs m = Some m' \<Longrightarrow> size_of m' = size_of m"
    and rd_wr_same: "wr off bs m = Some m' \<Longrightarrow> rd off (length bs) m' = Some bs"
    and rd_wr_other: "wr off bs m = Some m' \<Longrightarrow> p + n \<le> off \<or> off + length bs \<le> p \<Longrightarrow>
      rd p n m' = rd p n m"
begin

lemma wr_total: "off + length bs \<le> size_of m \<Longrightarrow> \<exists>m'. wr off bs m = Some m'"
  using wr_defined [of off bs m] by auto

lemma wr_bound: "wr off bs m = Some m' \<Longrightarrow> off + length bs \<le> size_of m"
  using wr_defined [of off bs m] by auto

lemma rd_total: "off + n \<le> size_of m \<Longrightarrow> \<exists>bs. rd off n m = Some bs"
  using rd_defined [of off n m] by auto

lemma wr_twice:
  assumes "wr off bs m = Some m1" and "wr p cs m1 = Some m2"
    and "p + length cs \<le> off \<or> off + length bs \<le> p"
  shows "rd off (length bs) m2 = Some bs"
  using rd_wr_other [OF assms(2), of off "length bs"] rd_wr_same [OF assms(1)] assms(3) by auto

end

lemma seg_store_rd_defined: "mem_read seg off n w \<noteq> None \<longleftrightarrow> off + n \<le> seg_len seg w"
  by (simp add: mem_read_def seg_len_def)

lemma mem_write_Some:
  "mem_write seg off bs w = Some w' \<longleftrightarrow>
     off + length bs \<le> length (mem w seg) \<and>
     w' = w\<lparr>mem := (mem w)(seg := splice off bs (mem w seg))\<rparr>"
  by (auto simp: mem_write_def)

lemma mem_read_Some:
  "mem_read seg off n w = Some bs \<longleftrightarrow>
     off + n \<le> length (mem w seg) \<and> bs = slice off n (mem w seg)"
  by (auto simp: mem_read_def)

interpretation seg_store: byte_store "mem_read seg" "mem_write seg" "seg_len seg" for seg :: nat
proof
  fix off n p :: nat and bs cs :: bytes and w w' :: "'a world"
  show "mem_read seg off n w \<noteq> None \<longleftrightarrow> off + n \<le> seg_len seg w"
    by (rule seg_store_rd_defined)
  show "length bs = n" if "mem_read seg off n w = Some bs"
    using that by (auto simp: mem_read_Some length_slice)
  show "mem_write seg off bs w \<noteq> None \<longleftrightarrow> off + length bs \<le> seg_len seg w"
    by (simp add: mem_write_def seg_len_def)
  show "seg_len seg w' = seg_len seg w" if "mem_write seg off bs w = Some w'"
    using that by (auto simp: mem_write_Some seg_len_def length_splice)
  show "mem_read seg off (length bs) w' = Some bs" if "mem_write seg off bs w = Some w'"
    using that by (auto simp: mem_write_Some mem_read_def slice_simps)
  show "mem_read seg p n w' = mem_read seg p n w"
    if "mem_write seg off bs w = Some w'" "p + n \<le> off \<or> off + length bs \<le> p"
    using that by (auto simp: mem_write_Some mem_read_def slice_simps)
qed

section \<open>Little-endian fields\<close>

primrec to_le :: "nat \<Rightarrow> nat \<Rightarrow> bytes" where
  "to_le 0 x = []"
| "to_le (Suc n) x = word_of_nat x # to_le n (x div 256)"

fun from_le :: "bytes \<Rightarrow> nat" where
  "from_le [] = 0"
| "from_le (b # bs) = unat b + 256 * from_le bs"

lemma length_to_le [simp]: "length (to_le n x) = n"
  by (induction n arbitrary: x) auto

lemma from_to_le: "from_le (to_le n x) = x mod 256 ^ n"
proof (induction n arbitrary: x)
  case (Suc n)
  have "x mod (256 * 256 ^ n) = x mod 256 + 256 * (x div 256 mod 256 ^ n)"
    by (simp add: mod_mult2_eq mult.commute)
  then show ?case using Suc by (simp add: unat_of_nat mult.commute)
qed simp

lemma from_le_bound: "from_le bs < 256 ^ length bs"
proof (induction bs)
  case (Cons b bs)
  have "unat b < 256" using unsigned_less [of b] by simp
  with Cons show ?case by simp
qed simp

definition le16 :: "u16 \<Rightarrow> bytes" where "le16 x = to_le 2 (unat x)"
definition le32 :: "u32 \<Rightarrow> bytes" where "le32 x = to_le 4 (unat x)"
definition of_le16 :: "bytes \<Rightarrow> u16" where "of_le16 bs = word_of_nat (from_le bs)"
definition of_le32 :: "bytes \<Rightarrow> u32" where "of_le32 bs = word_of_nat (from_le bs)"

lemma length_le [simp]: "length (le16 x) = 2" "length (le32 y) = 4"
  by (simp_all add: le16_def le32_def)

lemma of_le16_le16 [simp]: "of_le16 (le16 x) = x"
proof -
  have "unat x < 65536" using unsigned_less [of x] by simp
  then show ?thesis by (simp add: of_le16_def le16_def from_to_le)
qed

lemma of_le32_le32 [simp]: "of_le32 (le32 x) = x"
proof -
  have "unat x < 4294967296" using unsigned_less [of x] by simp
  then show ?thesis by (simp add: of_le32_def le32_def from_to_le)
qed

text \<open>\<^verbatim>\<open>*mut u8\<close>, \<^verbatim>\<open>*mut u16\<close> and \<^verbatim>\<open>*mut u32\<close> reads and writes at a byte offset.\<close>

definition read_u8 :: "nat \<Rightarrow> nat \<Rightarrow> 'os world \<Rightarrow> u8 option" where
  "read_u8 seg off w = do { bs \<leftarrow> mem_read seg off 1 w; Some (hd bs) }"

definition read_u16 :: "nat \<Rightarrow> nat \<Rightarrow> 'os world \<Rightarrow> u16 option" where
  "read_u16 seg off w =
     (if off mod 2 = 0 then do { bs \<leftarrow> mem_read seg off 2 w; Some (of_le16 bs) } else None)"

definition read_u32 :: "nat \<Rightarrow> nat \<Rightarrow> 'os world \<Rightarrow> u32 option" where
  "read_u32 seg off w =
     (if off mod 4 = 0 then do { bs \<leftarrow> mem_read seg off 4 w; Some (of_le32 bs) } else None)"

definition write_u8 :: "nat \<Rightarrow> nat \<Rightarrow> u8 \<Rightarrow> 'os world \<Rightarrow> 'os world option" where
  "write_u8 seg off x w = mem_write seg off [x] w"

definition write_u16 :: "nat \<Rightarrow> nat \<Rightarrow> u16 \<Rightarrow> 'os world \<Rightarrow> 'os world option" where
  "write_u16 seg off x w = (if off mod 2 = 0 then mem_write seg off (le16 x) w else None)"

definition write_u32 :: "nat \<Rightarrow> nat \<Rightarrow> u32 \<Rightarrow> 'os world \<Rightarrow> 'os world option" where
  "write_u32 seg off x w = (if off mod 4 = 0 then mem_write seg off (le32 x) w else None)"

section \<open>Atomics\<close>

text \<open>
  \<^verbatim>\<open>AtomicU32\<close> operations, under sequential consistency: \<open>load\<close>, \<open>store\<close> and
  \<open>compare_exchange\<close>, whose result is \<open>Inr\<close> the old value on success and \<open>Inl\<close> the value found
  on failure.
\<close>

definition atomic_load :: "nat \<Rightarrow> nat \<Rightarrow> 'os world \<Rightarrow> u32 option" where
  "atomic_load seg off w = read_u32 seg off w"

definition atomic_store :: "nat \<Rightarrow> nat \<Rightarrow> u32 \<Rightarrow> 'os world \<Rightarrow> 'os world option" where
  "atomic_store seg off x w = write_u32 seg off x w"

definition compare_exchange ::
  "nat \<Rightarrow> nat \<Rightarrow> u32 \<Rightarrow> u32 \<Rightarrow> 'os world \<Rightarrow> ((u32 + u32) \<times> 'os world) option" where
  "compare_exchange seg off current new w =
     do { v \<leftarrow> atomic_load seg off w;
          if v = current
          then do { w' \<leftarrow> atomic_store seg off new w; Some (Inr v, w') }
          else Some (Inl v, w) }"

section \<open>Views of a world's bytes\<close>

text \<open>
  The reasoning is about the bytes of one segment: an access in range is a slice or a splice, so
  a chain of writes followed by reads is decided by the disjointness of offsets.
\<close>

definition get_u8 :: "nat \<Rightarrow> bytes \<Rightarrow> u8" where "get_u8 off bs = hd (slice off 1 bs)"
definition get_u16 :: "nat \<Rightarrow> bytes \<Rightarrow> u16" where "get_u16 off bs = of_le16 (slice off 2 bs)"
definition get_u32 :: "nat \<Rightarrow> bytes \<Rightarrow> u32" where "get_u32 off bs = of_le32 (slice off 4 bs)"

definition put :: "nat \<Rightarrow> nat \<Rightarrow> bytes \<Rightarrow> 'os world \<Rightarrow> 'os world" where
  "put seg off bs w = w\<lparr>mem := (mem w)(seg := splice off bs (mem w seg))\<rparr>"

lemma mem_read_in [mem_simps]:
  "off + n \<le> length (mem w seg) \<Longrightarrow> mem_read seg off n w = Some (slice off n (mem w seg))"
  by (simp add: mem_read_def)

lemma mem_write_in [mem_simps]:
  "off + length bs \<le> length (mem w seg) \<Longrightarrow> mem_write seg off bs w = Some (put seg off bs w)"
  by (simp add: mem_write_def put_def)

lemma read_u8_in [mem_simps]:
  "off + 1 \<le> length (mem w seg) \<Longrightarrow> read_u8 seg off w = Some (get_u8 off (mem w seg))"
  by (simp add: read_u8_def mem_read_in get_u8_def)

lemma read_u16_in [mem_simps]:
  "off mod 2 = 0 \<Longrightarrow> off + 2 \<le> length (mem w seg) \<Longrightarrow>
   read_u16 seg off w = Some (get_u16 off (mem w seg))"
  by (simp add: read_u16_def mem_read_in get_u16_def)

lemma read_u32_in [mem_simps]:
  "off mod 4 = 0 \<Longrightarrow> off + 4 \<le> length (mem w seg) \<Longrightarrow>
   read_u32 seg off w = Some (get_u32 off (mem w seg))"
  by (simp add: read_u32_def mem_read_in get_u32_def)

lemma write_u8_in [mem_simps]:
  "off + 1 \<le> length (mem w seg) \<Longrightarrow> write_u8 seg off x w = Some (put seg off [x] w)"
  by (simp add: write_u8_def mem_write_in)

lemma write_u16_in [mem_simps]:
  "off mod 2 = 0 \<Longrightarrow> off + 2 \<le> length (mem w seg) \<Longrightarrow>
   write_u16 seg off x w = Some (put seg off (le16 x) w)"
  by (simp add: write_u16_def mem_write_in)

lemma write_u32_in [mem_simps]:
  "off mod 4 = 0 \<Longrightarrow> off + 4 \<le> length (mem w seg) \<Longrightarrow>
   write_u32 seg off x w = Some (put seg off (le32 x) w)"
  by (simp add: write_u32_def mem_write_in)

lemma atomic_load_in [mem_simps]:
  "off mod 4 = 0 \<Longrightarrow> off + 4 \<le> length (mem w seg) \<Longrightarrow>
   atomic_load seg off w = Some (get_u32 off (mem w seg))"
  by (simp add: atomic_load_def read_u32_in)

lemma atomic_store_in [mem_simps]:
  "off mod 4 = 0 \<Longrightarrow> off + 4 \<le> length (mem w seg) \<Longrightarrow>
   atomic_store seg off x w = Some (put seg off (le32 x) w)"
  by (simp add: atomic_store_def write_u32_in)

lemma compare_exchange_in [mem_simps]:
  "off mod 4 = 0 \<Longrightarrow> off + 4 \<le> length (mem w seg) \<Longrightarrow>
   compare_exchange seg off cur new w =
     (if get_u32 off (mem w seg) = cur then Some (Inr cur, put seg off (le32 new) w)
      else Some (Inl (get_u32 off (mem w seg)), w))"
  by (simp add: compare_exchange_def mem_simps)

lemma mem_put: "mem (put seg off bs w) s = (if s = seg then splice off bs (mem w seg) else mem w s)"
  by (simp add: put_def)

lemma mem_put_same [simp]: "mem (put seg off bs w) seg = splice off bs (mem w seg)"
  by (simp add: put_def)

lemma mem_put_other [simp]: "s \<noteq> seg \<Longrightarrow> mem (put seg off bs w) s = mem w s"
  by (simp add: put_def)

lemma ext_put [simp]: "ext (put seg off bs w) = ext w"
  by (simp add: put_def)

text \<open>Typed reads after a write: the value written, or what was there before.\<close>

lemma get_put_same [slice_simps]:
  "off + 1 \<le> length xs \<Longrightarrow> get_u8 off (splice off [x] xs) = x"
  "off + 2 \<le> length xs \<Longrightarrow> get_u16 off (splice off (le16 y) xs) = y"
  "off + 4 \<le> length xs \<Longrightarrow> get_u32 off (splice off (le32 z) xs) = z"
  by (simp_all add: get_u8_def get_u16_def get_u32_def slice_splice_same)

lemma get_put_other [slice_simps]:
  "off + length ys \<le> length xs \<Longrightarrow> p + 1 \<le> off \<or> off + length ys \<le> p \<Longrightarrow> p + 1 \<le> length xs \<Longrightarrow>
     get_u8 p (splice off ys xs) = get_u8 p xs"
  "off + length ys \<le> length xs \<Longrightarrow> p + 2 \<le> off \<or> off + length ys \<le> p \<Longrightarrow> p + 2 \<le> length xs \<Longrightarrow>
     get_u16 p (splice off ys xs) = get_u16 p xs"
  "off + length ys \<le> length xs \<Longrightarrow> p + 4 \<le> off \<or> off + length ys \<le> p \<Longrightarrow> p + 4 \<le> length xs \<Longrightarrow>
     get_u32 p (splice off ys xs) = get_u32 p xs"
  by (simp_all add: get_u8_def get_u16_def get_u32_def slice_splice_disjoint)

lemma get_eq_sub:
  assumes "slice off m xs = slice off m ys" and "off \<le> p"
  shows "p + 1 \<le> off + m \<Longrightarrow> get_u8 p xs = get_u8 p ys"
    and "p + 2 \<le> off + m \<Longrightarrow> get_u16 p xs = get_u16 p ys"
    and "p + 4 \<le> off + m \<Longrightarrow> get_u32 p xs = get_u32 p ys"
  using slice_eq_sub [OF assms] by (simp_all add: get_u8_def get_u16_def get_u32_def)

section \<open>What a write leaves unchanged\<close>

text \<open>\<open>unchanged_except S b b'\<close>: the bytes outside the offsets \<open>S\<close> are the same. Writes compose along it.\<close>

definition unchanged_except :: "nat set \<Rightarrow> bytes \<Rightarrow> bytes \<Rightarrow> bool" where
  "unchanged_except S b b' \<longleftrightarrow> length b' = length b \<and> (\<forall>k < length b. k \<notin> S \<longrightarrow> b' ! k = b ! k)"

lemma unchanged_refl [simp]: "unchanged_except S b b"
  by (simp add: unchanged_except_def)

lemma unchanged_length: "unchanged_except S b b' \<Longrightarrow> length b' = length b"
  by (simp add: unchanged_except_def)

lemma unchanged_trans: "unchanged_except S a b \<Longrightarrow> unchanged_except S b c \<Longrightarrow> unchanged_except S a c"
  by (simp add: unchanged_except_def)

lemma unchanged_mono: "unchanged_except S a b \<Longrightarrow> S \<subseteq> T \<Longrightarrow> unchanged_except T a b"
  by (auto simp: unchanged_except_def)

lemma unchanged_splice:
  "off + length ys \<le> length b \<Longrightarrow> {off ..< off + length ys} \<subseteq> S \<Longrightarrow>
   unchanged_except S b (splice off ys b)"
  by (auto simp: unchanged_except_def length_splice nth_splice)

lemma unchanged_slice:
  assumes "unchanged_except S b b'" and "{p ..< p + n} \<inter> S = {}" and "p + n \<le> length b"
  shows "slice p n b' = slice p n b"
proof (rule nth_equalityI)
  show "length (slice p n b') = length (slice p n b)"
    using assms by (simp add: length_slice unchanged_length)
  show "slice p n b' ! k = slice p n b ! k" if "k < length (slice p n b')" for k
  proof -
    have k: "k < n" using that assms by (simp add: length_slice unchanged_length)
    then have "p + k \<in> {p ..< p + n}" by simp
    with assms(2) have "p + k \<notin> S" by blast
    with assms k show ?thesis by (simp add: nth_slice unchanged_length) (simp add: unchanged_except_def)
  qed
qed

lemma unchanged_get:
  assumes "unchanged_except S b b'"
  shows "{p ..< p + 1} \<inter> S = {} \<Longrightarrow> p + 1 \<le> length b \<Longrightarrow> get_u8 p b' = get_u8 p b"
    and "{p ..< p + 2} \<inter> S = {} \<Longrightarrow> p + 2 \<le> length b \<Longrightarrow> get_u16 p b' = get_u16 p b"
    and "{p ..< p + 4} \<inter> S = {} \<Longrightarrow> p + 4 \<le> length b \<Longrightarrow> get_u32 p b' = get_u32 p b"
  using unchanged_slice [OF assms] by (simp_all add: get_u8_def get_u16_def get_u32_def)

end
