(* ===== verification/Errors.thy ===== *)
theory Errors
  imports Prelude
begin

text \<open>
  The error type of the crate (\<^verbatim>\<open>slotbus/src/error.rs\<close>): the enum, the messages its
  \<^verbatim>\<open>#[error(...)]\<close> attributes format, and the conversion from a serialisation error. A Rust
  \<^verbatim>\<open>Result<T, SlotBusError>\<close> is a value of \<open>slot_bus_error + 'a\<close>.
\<close>

datatype slot_bus_error =
    SharedMemory string
  | EventError string
  | InvalidRegion string
  | NoFreeSlots usize
  | Serialization string
  | Timeout u32
  | BadSlotState u32 u32
  | CasFailed usize u32 u32
  | ReceiveLoopStopped

type_synonym 'a result = "slot_bus_error + 'a"

fun display_error :: "slot_bus_error \<Rightarrow> string" where
  "display_error (SharedMemory s) = ''shared memory error: '' @ s"
| "display_error (EventError s) = ''event error: '' @ s"
| "display_error (InvalidRegion s) = ''invalid control region: '' @ s"
| "display_error (NoFreeSlots n) = ''no free slots available (all '' @ show_u n @ '' slots in use)''"
| "display_error (Serialization s) = ''serialization error: '' @ s"
| "display_error (Timeout ms) = ''request timed out after '' @ show_u ms @ ''ms''"
| "display_error (BadSlotState expected found) =
     ''unexpected slot state: expected '' @ show_u expected @ '', found '' @ show_u found"
| "display_error (CasFailed slot expected found) =
     ''CAS failed on slot '' @ show_u slot @ '': expected '' @ show_u expected
       @ '', found '' @ show_u found"
| "display_error ReceiveLoopStopped = ''receive loop stopped''"

text \<open>\<^verbatim>\<open>impl From<postcard::Error>\<close>: a postcard error is known by the text it displays.\<close>

type_synonym postcard_error = string

definition from_postcard_error :: "postcard_error \<Rightarrow> slot_bus_error" where
  "from_postcard_error e = Serialization e"

text \<open>\<^verbatim>\<open>e?\<close> on a serialisation result.\<close>

definition lift_postcard :: "postcard_error + 'a \<Rightarrow> 'a result" where
  "lift_postcard r = (case r of Inl e \<Rightarrow> Inl (from_postcard_error e) | Inr x \<Rightarrow> Inr x)"

text \<open>
  \<^verbatim>\<open>m?\<close> followed by the rest of a function, for an operation on a state that may also fail wildly
  (\<open>None\<close>): an error ends the function in the state reached so far.
\<close>

definition and_then ::
  "('a result \<times> 'w) option \<Rightarrow> ('a \<Rightarrow> 'w \<Rightarrow> ('b result \<times> 'w) option) \<Rightarrow> ('b result \<times> 'w) option" where
  "and_then m f = do { (res, w) \<leftarrow> m; case res of Inl e \<Rightarrow> Some (Inl e, w) | Inr x \<Rightarrow> f x w }"

lemma and_then_simps [simp]:
  "and_then None f = None"
  "and_then (Some (Inl e, w)) f = Some (Inl e, w)"
  "and_then (Some (Inr x, w)) f = f x w"
  by (simp_all add: and_then_def)

lemma lift_postcard_simps [simp]:
  "lift_postcard (Inl e) = Inl (Serialization e)"
  "lift_postcard (Inr x) = Inr x"
  by (simp_all add: lift_postcard_def from_postcard_error_def)

end
