(* ===== verification/Types.thy ===== *)
theory Types
  imports Prelude "HOL-Library.Product_Lexorder"
begin

text \<open>
  The shared-memory layout types (\<^verbatim>\<open>slotbus/src/types.rs\<close>): the protocol constants, the method
  and overflow-marker encodings, the layout and arena arithmetic (on 64-bit \<open>usize\<close> words, as the
  code computes it), and the two \<^verbatim>\<open>#[repr(C)]\<close> structs, whose field offsets are computed by the C
  layout rule from the declared field list. The lemmas read each computation through \<open>unat\<close> and
  show that no step wraps around; the arena properties follow from the interface
  \<open>arena_geometry\<close>, which the code's \<open>slot_arenas\<close> interprets.
\<close>

section \<open>Constants\<close>

definition SHM_MAGIC :: u32 where [protocol_consts]: "SHM_MAGIC = 0x534C4231"
definition SHM_VERSION :: u32 where [protocol_consts]: "SHM_VERSION = 2"
definition SLOT_META_SIZE :: usize where [protocol_consts]: "SLOT_META_SIZE = 128"
definition SHM_HEADER_SIZE :: usize where [protocol_consts]: "SHM_HEADER_SIZE = 64"

definition SLOT_FREE :: u32 where [protocol_consts]: "SLOT_FREE = 0"
definition SLOT_READY :: u32 where [protocol_consts]: "SLOT_READY = 1"
definition SLOT_CLAIMED :: u32 where [protocol_consts]: "SLOT_CLAIMED = 2"
definition SLOT_DONE :: u32 where [protocol_consts]: "SLOT_DONE = 3"
definition SLOT_WRITING :: u32 where [protocol_consts]: "SLOT_WRITING = 4"

definition OVERFLOW_INLINE :: u8 where [protocol_consts]: "OVERFLOW_INLINE = 0"
definition MAX_OVERFLOW_GENERATION :: u8 where [protocol_consts]: "MAX_OVERFLOW_GENERATION = 254"

definition overflow_generation :: "u8 \<Rightarrow> u8 option" where
  "overflow_generation marker = checked_sub_u8 marker 1"

section \<open>Method encoding\<close>

definition METHOD_GET :: u8 where [protocol_consts]: "METHOD_GET = 0"
definition METHOD_POST :: u8 where [protocol_consts]: "METHOD_POST = 1"
definition METHOD_PUT :: u8 where [protocol_consts]: "METHOD_PUT = 2"
definition METHOD_DELETE :: u8 where [protocol_consts]: "METHOD_DELETE = 3"
definition METHOD_PATCH :: u8 where [protocol_consts]: "METHOD_PATCH = 4"
definition METHOD_HEAD :: u8 where [protocol_consts]: "METHOD_HEAD = 5"
definition METHOD_OPTIONS :: u8 where [protocol_consts]: "METHOD_OPTIONS = 6"

definition method_to_u8 :: "string \<Rightarrow> u8" where
  "method_to_u8 m =
     (if m = ''GET'' then METHOD_GET
      else if m = ''POST'' then METHOD_POST
      else if m = ''PUT'' then METHOD_PUT
      else if m = ''DELETE'' then METHOD_DELETE
      else if m = ''PATCH'' then METHOD_PATCH
      else if m = ''HEAD'' then METHOD_HEAD
      else if m = ''OPTIONS'' then METHOD_OPTIONS
      else METHOD_GET)"

definition u8_to_method :: "u8 \<Rightarrow> string" where
  "u8_to_method m =
     (if m = METHOD_GET then ''GET''
      else if m = METHOD_POST then ''POST''
      else if m = METHOD_PUT then ''PUT''
      else if m = METHOD_DELETE then ''DELETE''
      else if m = METHOD_PATCH then ''PATCH''
      else if m = METHOD_HEAD then ''HEAD''
      else if m = METHOD_OPTIONS then ''OPTIONS''
      else ''GET'')"

definition known_methods :: "string list" where
  "known_methods = [''GET'', ''POST'', ''PUT'', ''DELETE'', ''PATCH'', ''HEAD'', ''OPTIONS'']"

section \<open>Layout arithmetic\<close>

definition compute_layout :: "usize \<Rightarrow> usize \<Rightarrow> usize \<times> usize" where
  "compute_layout num_slots region_size =
     (let heap_offset = SHM_HEADER_SIZE + num_slots * SLOT_META_SIZE;
          heap_size = saturating_sub region_size heap_offset
      in (heap_offset, heap_size))"

definition arena_size :: "usize \<Rightarrow> usize \<Rightarrow> usize" where
  "arena_size num_slots heap_size =
     (if num_slots = 0 then 0 else (heap_size div num_slots) AND NOT 7)"

definition slot_arenas :: "usize \<Rightarrow> usize \<Rightarrow> usize \<Rightarrow> (usize \<times> usize) \<times> (usize \<times> usize)" where
  "slot_arenas slot_index num_slots heap_size =
     (let arena = arena_size num_slots heap_size;
          base = slot_index * arena;
          half = (arena div 2) AND NOT 7
      in ((base, half), (base + half, arena - half)))"

definition align8 :: "usize \<Rightarrow> usize" where
  "align8 n = (n + 7) AND NOT 7"

section \<open>The repr(C) structs\<close>

text \<open>
  The fields of \<^verbatim>\<open>ShmHeader\<close> and \<^verbatim>\<open>SlotMeta\<close> in declaration order, each with the size and
  alignment of its type. \<open>c_offset\<close> is the C layout rule: each field starts at the next multiple
  of its alignment after the field before it; the size is rounded up to the largest alignment.
\<close>

datatype header_field = HMagic | HVersion | HNumSlots | HHeapOffset | HHeapSize | HAllocHead | HReserved

datatype slot_field =
    FStatus | FReqId | FMethod | FPad0
  | FMetaOffset | FMetaLen | FPad1 | FBodyOffset | FBodyLen | FBodyOverflow | FPad2
  | FRespStatus | FPad3 | FRespMetaOffset | FRespMetaLen | FPad4
  | FRespBodyOffset | FRespBodyLen | FRespBodyOverflow | FPad5
  | FReserved

type_synonym 'f c_struct = "('f \<times> nat \<times> nat) list"

definition shm_header_struct :: "header_field c_struct" where
  "shm_header_struct =
     [(HMagic, 4, 4), (HVersion, 4, 4), (HNumSlots, 4, 4), (HHeapOffset, 4, 4),
      (HHeapSize, 4, 4), (HAllocHead, 4, 4), (HReserved, 40, 1)]"

definition slot_meta_struct :: "slot_field c_struct" where
  "slot_meta_struct =
     [(FStatus, 4, 4), (FReqId, 36, 1), (FMethod, 1, 1), (FPad0, 3, 1),
      (FMetaOffset, 4, 4), (FMetaLen, 2, 2), (FPad1, 2, 2), (FBodyOffset, 4, 4),
      (FBodyLen, 4, 4), (FBodyOverflow, 1, 1), (FPad2, 3, 1),
      (FRespStatus, 2, 2), (FPad3, 2, 2), (FRespMetaOffset, 4, 4), (FRespMetaLen, 2, 2),
      (FPad4, 2, 2), (FRespBodyOffset, 4, 4), (FRespBodyLen, 4, 4), (FRespBodyOverflow, 1, 1),
      (FPad5, 3, 1), (FReserved, 40, 1)]"

definition align_up :: "nat \<Rightarrow> nat \<Rightarrow> nat" where
  "align_up off al = (off + al - 1) div al * al"

fun c_offset :: "nat \<Rightarrow> 'f c_struct \<Rightarrow> 'f \<Rightarrow> nat" where
  "c_offset off [] f = off"
| "c_offset off ((g, sz, al) # gs) f =
     (if g = f then align_up off al else c_offset (align_up off al + sz) gs f)"

fun c_end :: "nat \<Rightarrow> 'f c_struct \<Rightarrow> nat" where
  "c_end off [] = off"
| "c_end off ((g, sz, al) # gs) = c_end (align_up off al + sz) gs"

definition c_align :: "'f c_struct \<Rightarrow> nat" where
  "c_align s = foldr (\<lambda>(f, sz, al) m. max al m) s 1"

definition c_sizeof :: "'f c_struct \<Rightarrow> nat" where
  "c_sizeof s = align_up (c_end 0 s) (c_align s)"

definition slot_offset :: "slot_field \<Rightarrow> nat" where
  "slot_offset f = c_offset 0 slot_meta_struct f"

definition header_offset :: "header_field \<Rightarrow> nat" where
  "header_offset f = c_offset 0 shm_header_struct f"

text \<open>The metadata serialised next to each request and response.\<close>

record request_meta =
  path :: string
  route_pattern :: string
  path_params :: "(string \<times> string) list"
  query :: "string option"
  req_headers :: "(string \<times> string) list"

record response_meta =
  content_type :: string
  resp_headers :: "(string \<times> string) list"

section \<open>Lemmas: encodings\<close>

lemma overflow_generation_eq: "overflow_generation m = (if m = 0 then None else Some (m - 1))"
  by (simp add: overflow_generation_def checked_sub_u8_def)

lemma overflow_generation_plus1:
  assumes "g \<le> MAX_OVERFLOW_GENERATION"
  shows "overflow_generation (g + 1) = Some g"
proof -
  have "unat g \<le> 254" using assms by (simp add: protocol_consts word_le_nat_alt)
  then have "unat (g + 1) = unat g + 1" by (simp add: unat_word_ariths)
  then have "g + 1 \<noteq> 0" by (metis unat_0 add_is_0 one_neq_zero)
  then show ?thesis by (simp add: overflow_generation_eq)
qed

lemmas method_defs = method_to_u8_def u8_to_method_def known_methods_def

section \<open>Lemmas: struct layout\<close>

lemmas struct_defs = slot_offset_def header_offset_def slot_meta_struct_def shm_header_struct_def
  align_up_def

lemma slot_offset_simps [simp]:
  "slot_offset FStatus = 0" "slot_offset FReqId = 4" "slot_offset FMethod = 40"
  "slot_offset FMetaOffset = 44" "slot_offset FMetaLen = 48" "slot_offset FBodyOffset = 52"
  "slot_offset FBodyLen = 56" "slot_offset FBodyOverflow = 60"
  "slot_offset FRespStatus = 64" "slot_offset FRespMetaOffset = 68"
  "slot_offset FRespMetaLen = 72" "slot_offset FRespBodyOffset = 76"
  "slot_offset FRespBodyLen = 80" "slot_offset FRespBodyOverflow = 84"
  by (simp_all add: struct_defs)

lemma header_offset_simps [simp]:
  "header_offset HMagic = 0" "header_offset HVersion = 4" "header_offset HNumSlots = 8"
  "header_offset HHeapOffset = 12" "header_offset HHeapSize = 16" "header_offset HAllocHead = 20"
  by (simp_all add: struct_defs)

lemma struct_sizes:
  "c_sizeof slot_meta_struct = unat SLOT_META_SIZE"
  "c_sizeof shm_header_struct = unat SHM_HEADER_SIZE"
  by (simp_all add: c_sizeof_def c_align_def slot_meta_struct_def shm_header_struct_def align_up_def
      protocol_consts)

section \<open>Lemmas: layout arithmetic without wrap-around\<close>

lemma unat_align8:
  assumes "unat n + 7 < usize_limit"
  shows "unat (align8 n) = (unat n + 7) div 8 * 8"
  using assms by (simp add: align8_def unat_and_minus_8 unat_add_exact)

lemma unat_arena_size: "unat (arena_size n h) = (if n = 0 then 0 else unat h div unat n div 8 * 8)"
  by (simp add: arena_size_def unat_and_minus_8 unat_div_distrib)

lemma arena_total: "unat n * unat (arena_size n h) \<le> unat h"
proof (cases "n = 0")
  case False
  have "unat n * (unat h div unat n div 8 * 8) \<le> unat n * (unat h div unat n)"
    by (intro mult_le_mono) simp_all
  also have "\<dots> \<le> unat h" by simp
  finally show ?thesis using False by (simp add: unat_arena_size)
qed simp

lemma arena_base_bound:
  assumes "unat i < unat n"
  shows "unat i * unat (arena_size n h) + unat (arena_size n h) \<le> unat h"
proof -
  have "Suc (unat i) * unat (arena_size n h) \<le> unat n * unat (arena_size n h)"
    using assms by (intro mult_le_mono) simp_all
  also have "\<dots> \<le> unat h" by (rule arena_total)
  finally show ?thesis by simp
qed

definition arena_half :: "usize \<Rightarrow> usize \<Rightarrow> nat" where
  "arena_half n h = unat (arena_size n h) div 2 div 8 * 8"

lemma arena_half_le: "arena_half n h \<le> unat (arena_size n h)"
  unfolding arena_half_def by (meson div_le_dividend div_times_less_eq_dividend le_trans)

text \<open>The four components of \<open>slot_arenas\<close>, as natural numbers, for an index in range.\<close>

lemma slot_arenas_nat:
  assumes "unat i < unat n" and "slot_arenas i n h = ((rb, rl), (sb, sl))"
  shows "unat rb = unat i * unat (arena_size n h)"
    and "unat rl = arena_half n h"
    and "unat sb = unat i * unat (arena_size n h) + arena_half n h"
    and "unat sl = unat (arena_size n h) - arena_half n h"
proof -
  let ?a = "arena_size n h"
  have fits: "unat i * unat ?a + unat ?a \<le> unat h" using assms(1) by (rule arena_base_bound)
  then have base: "unat (i * ?a) = unat i * unat ?a"
    by (intro unat_mult_exact) (use unat_less_limit [of h] in simp)
  have half: "unat ((?a div 2) AND - 8) = arena_half n h"
    by (simp add: unat_and_minus_8 unat_div_distrib arena_half_def)
  have le: "arena_half n h \<le> unat ?a" by (rule arena_half_le)
  have parts: "rb = i * ?a" "rl = (?a div 2) AND - 8"
      "sb = i * ?a + ((?a div 2) AND - 8)" "sl = ?a - ((?a div 2) AND - 8)"
    using assms(2) by (auto simp: slot_arenas_def Let_def)
  show "unat rb = unat i * unat ?a" and "unat rl = arena_half n h"
    using parts base half by simp_all
  show "unat sb = unat i * unat ?a + arena_half n h"
    unfolding parts using base half fits le unat_less_limit [of h]
    by (subst unat_add_exact) simp_all
  show "unat sl = unat ?a - arena_half n h"
    unfolding parts using half le by (simp add: unat_sub_if')
qed

lemma compute_layout_exact:
  assumes "64 + 128 * unat n < usize_limit"
    and "compute_layout n rs = (off, sz)"
  shows "unat off = 64 + 128 * unat n"
    and "unat sz = unat rs - (64 + 128 * unat n)"
proof -
  have m: "unat (n * 128) = unat n * 128"
    using assms(1) by (subst unat_mult_exact) simp_all
  have o: "unat (64 + n * 128) = 64 + 128 * unat n"
    using assms(1) m by (subst unat_add_exact) simp_all
  show "unat off = 64 + 128 * unat n"
    using assms(2) o by (simp add: compute_layout_def protocol_consts Let_def)
  with assms(2) show "unat sz = unat rs - (64 + 128 * unat n)"
    by (auto simp: compute_layout_def protocol_consts Let_def unat_saturating_sub)
qed

section \<open>Arenas as disjoint intervals\<close>

text \<open>
  What the placement code relies on: each slot has a request half and a response half, inside the
  heap, and no two halves overlap. The interface fixes the halves as intervals of natural numbers;
  disjointness of any two is derived once from the order in which they tile the heap.
\<close>

datatype side = Req | Resp

text \<open>The request half comes first; slots and halves are then ordered lexicographically, as in the heap.\<close>

instantiation side :: linorder
begin

definition less_eq_side :: "side \<Rightarrow> side \<Rightarrow> bool" where
  "less_eq_side s t \<longleftrightarrow> s = Req \<or> t = Resp"

definition less_side :: "side \<Rightarrow> side \<Rightarrow> bool" where
  "less_side s t \<longleftrightarrow> s = Req \<and> t = Resp"

instance
proof
  fix s t u :: side
  show "s < t \<longleftrightarrow> s \<le> t \<and> \<not> t \<le> s" by (cases s; cases t) (simp_all add: less_eq_side_def less_side_def)
  show "s \<le> s" by (cases s) (simp_all add: less_eq_side_def)
  show "s \<le> u" if "s \<le> t" "t \<le> u" using that by (cases t) (auto simp: less_eq_side_def)
  show "s = t" if "s \<le> t" "t \<le> s" using that by (cases s; cases t) (simp_all add: less_eq_side_def)
  show "s \<le> t \<or> t \<le> s" by (cases s) (simp_all add: less_eq_side_def)
qed

end

definition disjoint_ranges :: "nat \<times> nat \<Rightarrow> nat \<times> nat \<Rightarrow> bool" where
  "disjoint_ranges a b \<longleftrightarrow> fst a + snd a \<le> fst b \<or> fst b + snd b \<le> fst a"

lemma disjoint_ranges_sym: "disjoint_ranges a b \<longleftrightarrow> disjoint_ranges b a"
  by (auto simp: disjoint_ranges_def)

lemma disjoint_ranges_sub:
  assumes "disjoint_ranges a b" and "fst a \<le> p" and "p + n \<le> fst a + snd a"
    and "fst b \<le> q" and "q + m \<le> fst b + snd b"
  shows "disjoint_ranges (p, n) (q, m)"
  using assms by (auto simp: disjoint_ranges_def)

locale arena_geometry =
  fixes half :: "side \<Rightarrow> nat \<Rightarrow> nat \<times> nat"
    and slots :: nat
    and heap :: nat
  assumes half_in_heap: "i < slots \<Longrightarrow> fst (half s i) + snd (half s i) \<le> heap"
    and req_then_resp: "i < slots \<Longrightarrow> fst (half Req i) + snd (half Req i) \<le> fst (half Resp i)"
    and resp_then_next: "i < j \<Longrightarrow> j < slots \<Longrightarrow>
      fst (half Resp i) + snd (half Resp i) \<le> fst (half Req j)"
begin

text \<open>The heap holds the halves in the lexicographic order of slot and side.\<close>

lemma halves_in_order:
  assumes "(i, s) < (j, t)" and "j < slots"
  shows "fst (half s i) + snd (half s i) \<le> fst (half t j)"
proof (cases "i = j")
  case True
  then show ?thesis using assms req_then_resp [of j] by (auto simp: less_side_def)
next
  case False
  then have ij: "i < j" using assms(1) by auto
  have "fst (half s i) + snd (half s i) \<le> fst (half Resp i) + snd (half Resp i)"
    using req_then_resp [of i] ij assms(2) by (cases s) auto
  also have "\<dots> \<le> fst (half Req j)" using ij assms(2) by (rule resp_then_next)
  also have "\<dots> \<le> fst (half t j)" using req_then_resp [of j] assms(2) by (cases t) auto
  finally show ?thesis .
qed

lemma halves_disjoint:
  assumes "i < slots" and "j < slots" and "(s, i) \<noteq> (t, j)"
  shows "disjoint_ranges (half s i) (half t j)"
proof -
  consider "(i, s) < (j, t)" | "(j, t) < (i, s)" using assms(3) by (metis Pair_inject neqE)
  then show ?thesis using halves_in_order assms(1,2) by cases (auto simp: disjoint_ranges_def)
qed

lemma half_bounds: "i < slots \<Longrightarrow> half s i = (b, l) \<Longrightarrow> b + l \<le> heap"
  using half_in_heap [of i s] by simp

end

definition arena_half_of :: "usize \<Rightarrow> usize \<Rightarrow> side \<Rightarrow> nat \<Rightarrow> nat \<times> nat" where
  "arena_half_of n h s i =
     (let ((rb, rl), (sb, sl)) = slot_arenas (usize_of i) n h
      in case s of Req \<Rightarrow> (unat rb, unat rl) | Resp \<Rightarrow> (unat sb, unat sl))"

lemma arena_half_of_eq:
  assumes "i < unat n"
  shows "arena_half_of n h Req i = (i * unat (arena_size n h), arena_half n h)"
    and "arena_half_of n h Resp i =
      (i * unat (arena_size n h) + arena_half n h, unat (arena_size n h) - arena_half n h)"
proof -
  have i: "unat (usize_of i) = i"
    using assms unat_less_limit [of n] by simp
  obtain rb rl sb sl where a: "slot_arenas (usize_of i) n h = ((rb, rl), (sb, sl))"
    by (metis surj_pair)
  have "unat (usize_of i) < unat n" using assms i by simp
  note n = slot_arenas_nat [OF this a, unfolded i]
  show "arena_half_of n h Req i = (i * unat (arena_size n h), arena_half n h)"
    and "arena_half_of n h Resp i =
      (i * unat (arena_size n h) + arena_half n h, unat (arena_size n h) - arena_half n h)"
    by (simp_all add: arena_half_of_def a n)
qed

interpretation arenas: arena_geometry "arena_half_of n h" "unat n" "unat h" for n h :: usize
proof
  let ?a = "unat (arena_size n h)"
  note le = arena_half_le [of n h]
  show "fst (arena_half_of n h s i) + snd (arena_half_of n h s i) \<le> unat h"
    if "i < unat n" for s i
  proof -
    have "unat (usize_of i) = i" using that unat_less_limit [of n] by simp
    then have "i * ?a + ?a \<le> unat h" using arena_base_bound [of "usize_of i" n h] that by simp
    with le that show ?thesis by (cases s) (simp_all add: arena_half_of_eq)
  qed
  show "fst (arena_half_of n h Req i) + snd (arena_half_of n h Req i) \<le> fst (arena_half_of n h Resp i)"
    if "i < unat n" for i
    using that by (simp add: arena_half_of_eq)
  show "fst (arena_half_of n h Resp i) + snd (arena_half_of n h Resp i) \<le> fst (arena_half_of n h Req j)"
    if "i < j" and "j < unat n" for i j
  proof -
    have "Suc i * ?a \<le> j * ?a" using that by (intro mult_le_mono) simp_all
    with that le show ?thesis by (simp add: arena_half_of_eq)
  qed
qed

section \<open>Properties\<close>

text \<open>
  C31: the arenas tile the heap. Every slot's request half is followed directly by its response half,
  both start on an 8-byte boundary and end inside the heap, and the halves of different slots never
  overlap, for every number of slots and every heap size.
\<close>

theorem slot_arenas_tile:
  assumes "unat i < unat n" and "unat j < unat n"
    and "slot_arenas i n h = ((rb, rl), (sb, sl))" and "slot_arenas j n h = ((rb', rl'), (sb', sl'))"
  shows "unat rb + unat rl = unat sb \<and> unat sb + unat sl \<le> unat h \<and> 8 dvd unat rb \<and> 8 dvd unat sb
    \<and> (i \<noteq> j \<longrightarrow> (\<forall>a \<in> {(rb, rl), (sb, sl)}. \<forall>b \<in> {(rb', rl'), (sb', sl')}.
          unat (fst a) + unat (snd a) \<le> unat (fst b) \<or> unat (fst b) + unat (snd b) \<le> unat (fst a)))"
proof -
  note A = slot_arenas_nat [OF assms(1,3)] and B = slot_arenas_nat [OF assms(2,4)]
  let ?a = "arena_size n h"
  have d: "8 dvd unat ?a" by (simp add: unat_arena_size)
  have "8 dvd arena_half n h" by (simp add: arena_half_def)
  then have al: "8 dvd unat rb" "8 dvd unat sb" using A d by simp_all
  have inside: "unat sb + unat sl \<le> unat h"
    using A arena_half_le [of n h] arena_base_bound [OF assms(1), of h] by simp
  have h: "arena_half_of n h Req (unat i) = (unat rb, unat rl)" "arena_half_of n h Resp (unat i) = (unat sb, unat sl)"
    "arena_half_of n h Req (unat j) = (unat rb', unat rl')" "arena_half_of n h Resp (unat j) = (unat sb', unat sl')"
    using assms(3,4) by (simp_all add: arena_half_of_def)
  have "disjoint_ranges (arena_half_of n h s (unat i)) (arena_half_of n h t (unat j))" if "i \<noteq> j" for s t
    using assms(1,2) that by (intro arenas.halves_disjoint) (simp_all add: word_unat_eq_iff)
  from this [of Req Req] this [of Req Resp] this [of Resp Req] this [of Resp Resp]
  show ?thesis using A al inside by (auto simp: h disjoint_ranges_def)
qed

theorem slot_arenas_tile_witness:
  "slot_arenas 0 2 100 = ((0, 24), (24, 24)) \<and> slot_arenas 1 2 100 = ((48, 24), (72, 24))
   \<and> (0 :: nat) + 24 \<le> 48"
proof -
  have "slot_arenas 0 2 100 = ((0, 24), (24, 24))" "slot_arenas 1 2 100 = ((48, 24), (72, 24))"
    by (simp_all add: slot_arenas_def arena_size_def)
  with slot_arenas_tile [of 0 2 1 100 0 24 24 24 48 24 72 24] show ?thesis by simp
qed

text \<open>
  A method survives its encoding exactly when the protocol knows it; every other method silently
  becomes GET.
\<close>

theorem method_round_trip:
  "u8_to_method (method_to_u8 m) = (if m \<in> set known_methods then m else ''GET'')"
  by (simp add: method_defs protocol_consts)

text \<open>
  The overflow marker written for a generation is never the inline marker and decodes to that
  generation, for every generation the walk can use; one generation further the marker would wrap to
  the inline one.
\<close>

theorem overflow_marker_round_trip:
  assumes "g \<le> MAX_OVERFLOW_GENERATION"
  shows "overflow_generation (g + 1) = Some g \<and> g + 1 \<noteq> OVERFLOW_INLINE
    \<and> overflow_generation OVERFLOW_INLINE = None
    \<and> (MAX_OVERFLOW_GENERATION + 1) + 1 = OVERFLOW_INLINE"
proof -
  have "overflow_generation (g + 1) = Some g" by (rule overflow_generation_plus1 [OF assms])
  moreover from this have "g + 1 \<noteq> 0" by (auto simp: overflow_generation_eq)
  ultimately show ?thesis by (simp add: overflow_generation_eq protocol_consts)
qed

theorem overflow_marker_round_trip_witness: "overflow_generation 255 = Some 254"
  using overflow_marker_round_trip [of 254] by (simp add: protocol_consts)

text \<open>
  The C layout of the two shared structs has exactly the sizes the layout arithmetic uses, no
  field is padded implicitly, and the fields lie at the raw offsets the writers use.
\<close>

theorem struct_layout_matches:
  "c_sizeof slot_meta_struct = unat SLOT_META_SIZE \<and> c_sizeof shm_header_struct = unat SHM_HEADER_SIZE
   \<and> sum_list (map (\<lambda>(f, sz, al). sz) slot_meta_struct) = c_sizeof slot_meta_struct
   \<and> sum_list (map (\<lambda>(f, sz, al). sz) shm_header_struct) = c_sizeof shm_header_struct
   \<and> map slot_offset [FStatus, FReqId, FMethod, FMetaOffset, FMetaLen, FBodyOffset, FBodyLen, FBodyOverflow]
       = [0, 4, 40, 44, 48, 52, 56, 60]
   \<and> map slot_offset [FRespStatus, FRespMetaOffset, FRespMetaLen, FRespBodyOffset, FRespBodyLen,
        FRespBodyOverflow] = [64, 68, 72, 76, 80, 84]
   \<and> map header_offset [HMagic, HVersion, HNumSlots, HHeapOffset, HHeapSize, HAllocHead] = [0, 4, 8, 12, 16, 20]"
  using struct_sizes by (simp add: slot_meta_struct_def shm_header_struct_def protocol_consts)

end
