(* ===== verification/Externals.thy ===== *)
theory Externals
  imports World Errors Types
begin

text \<open>
  What the crate calls and does not implement: the \<^verbatim>\<open>shared_memory\<close> crate (creating, opening and
  dropping named mappings), \<^verbatim>\<open>postcard\<close> (serialising the metadata), and the file system calls of
  the Windows reclaim path. They are the fields of a record that every definition using them takes
  as an argument. What the crate relies on is stated as predicates over the record
  (\<open>shmem_documented\<close>, \<open>postcard_documented\<close>), which theorems take as hypotheses; \<open>ref_externals\<close>
  is one implementation that satisfies them, used only to show that the hypotheses can hold.
\<close>

section \<open>The external operations\<close>

text \<open>
  A \<^verbatim>\<open>Shmem\<close> handle: the mapped segment, \<^verbatim>\<open>as_ptr\<close> as an address, \<^verbatim>\<open>len\<close>, and whether the handle
  owns the mapping (\<^verbatim>\<open>is_owner\<close>: its creator does, and dropping it deletes the name). The crate tells
  only \<^verbatim>\<open>MappingIdExists\<close> from the other errors, which it prints.
\<close>

record shmem =
  shm_seg :: nat
  shm_addr :: usize
  shm_len :: usize
  shm_owner :: bool

datatype shmem_error = MappingIdExists | OtherShmemError string

type_synonym file_path = "string list"

record 'os externals =
  shmem_create :: "string \<Rightarrow> usize \<Rightarrow> 'os world \<Rightarrow> (shmem_error + shmem) \<times> 'os world"
  shmem_open :: "string \<Rightarrow> 'os world \<Rightarrow> (shmem_error + shmem) \<times> 'os world"
  shmem_drop :: "shmem \<Rightarrow> 'os world \<Rightarrow> 'os world"
  show_shmem_error :: "shmem_error \<Rightarrow> string"
  temp_dir :: "'os world \<Rightarrow> file_path"
  canonicalize :: "file_path \<Rightarrow> 'os world \<Rightarrow> file_path option"
  delete_if_unshared :: "file_path \<Rightarrow> 'os world \<Rightarrow> bool \<times> 'os world"
  request_to_vec :: "request_meta \<Rightarrow> postcard_error + bytes"
  request_from_bytes :: "bytes \<Rightarrow> postcard_error + request_meta"
  response_to_vec :: "response_meta \<Rightarrow> postcard_error + bytes"
  response_from_bytes :: "bytes \<Rightarrow> postcard_error + response_meta"

section \<open>Documented behaviour\<close>

text \<open>
  The name space is observed through \<open>bound\<close> (the segment a name opens) and \<open>handles\<close> (how many open
  handles a segment has, in all processes). Writing bytes changes neither.
\<close>

record 'os shm_view =
  bound :: "'os world \<Rightarrow> string \<Rightarrow> nat option"
  handles :: "'os world \<Rightarrow> nat \<Rightarrow> nat"

text \<open>
  Creating succeeds only under an unused name, with a new segment of at least the requested size,
  and touches no segment anyone holds; it fails with \<open>MappingIdExists\<close> exactly when the name is taken.
\<close>

definition create_documented :: "'os externals \<Rightarrow> 'os shm_view \<Rightarrow> bool" where
  "create_documented X V \<longleftrightarrow>
     (\<forall>name sz w h w'. shmem_create X name sz w = (Inr h, w') \<longrightarrow>
        bound V w name = None \<and> handles V w (shm_seg h) = 0 \<and> shm_seg h \<notin> ran (bound V w)
        \<and> shm_owner h \<and> bound V w' = (bound V w)(name \<mapsto> shm_seg h)
        \<and> handles V w' = (handles V w)(shm_seg h := 1)
        \<and> sz \<le> shm_len h \<and> length (mem w' (shm_seg h)) = unat (shm_len h)
        \<and> (\<forall>s. s \<noteq> shm_seg h \<longrightarrow> mem w' s = mem w s))
   \<and> (\<forall>name sz w e w'. shmem_create X name sz w = (Inl e, w') \<longrightarrow>
        w' = w \<and> (e = MappingIdExists \<longleftrightarrow> bound V w name \<noteq> None))"

text \<open>Opening maps the segment its name is bound to, at that segment's own size.\<close>

definition open_documented :: "'os externals \<Rightarrow> 'os shm_view \<Rightarrow> bool" where
  "open_documented X V \<longleftrightarrow>
     (\<forall>name w h w'. shmem_open X name w = (Inr h, w') \<longrightarrow>
        bound V w name = Some (shm_seg h) \<and> \<not> shm_owner h
        \<and> unat (shm_len h) = length (mem w (shm_seg h)) \<and> mem w' = mem w \<and> bound V w' = bound V w
        \<and> handles V w' = (handles V w)(shm_seg h := Suc (handles V w (shm_seg h))))
   \<and> (\<forall>name w e w'. shmem_open X name w = (Inl e, w') \<longrightarrow>
        w' = w \<and> (\<forall>s. bound V w name = Some s \<longrightarrow> usize_limit \<le> length (mem w s)))"

text \<open>
  Dropping a handle releases it. It touches no other segment and no other segment's name; while
  someone else holds the segment its bytes stay, and only the owner's drop deletes its name.
\<close>

definition drop_documented :: "'os externals \<Rightarrow> 'os shm_view \<Rightarrow> bool" where
  "drop_documented X V \<longleftrightarrow>
     (\<forall>h w s. s \<noteq> shm_seg h \<or> 1 < handles V w s \<longrightarrow> mem (shmem_drop X h w) s = mem w s)
   \<and> (\<forall>h w name s. s \<noteq> shm_seg h \<or> \<not> shm_owner h \<longrightarrow>
        (bound V (shmem_drop X h w) name = Some s \<longleftrightarrow> bound V w name = Some s))
   \<and> (\<forall>h w. handles V (shmem_drop X h w) = (handles V w)(shm_seg h := handles V w (shm_seg h) - 1))"

text \<open>
  Opening a backing file for deletion with no sharing has no effect on a segment that anyone holds:
  every holder keeps the file open.
\<close>

definition delete_documented :: "'os externals \<Rightarrow> 'os shm_view \<Rightarrow> bool" where
  "delete_documented X V \<longleftrightarrow>
     (\<forall>p w b w'. delete_if_unshared X p w = (b, w') \<longrightarrow>
        handles V w' = handles V w
        \<and> (\<forall>s. 0 < handles V w s \<longrightarrow> mem w' s = mem w s
              \<and> (\<forall>name. bound V w' name = Some s \<longleftrightarrow> bound V w name = Some s)))"

definition view_ignores_bytes :: "'os shm_view \<Rightarrow> bool" where
  "view_ignores_bytes V \<longleftrightarrow>
     (\<forall>w m. bound V (w\<lparr>mem := m\<rparr>) = bound V w \<and> handles V (w\<lparr>mem := m\<rparr>) = handles V w)"

definition shmem_documented :: "'os externals \<Rightarrow> 'os shm_view \<Rightarrow> bool" where
  "shmem_documented X V \<longleftrightarrow>
     create_documented X V \<and> open_documented X V \<and> drop_documented X V \<and> delete_documented X V
     \<and> view_ignores_bytes V"

definition postcard_documented :: "'os externals \<Rightarrow> bool" where
  "postcard_documented X \<longleftrightarrow>
     (\<forall>m bs. request_to_vec X m = Inr bs \<longrightarrow> request_from_bytes X bs = Inr m)
   \<and> (\<forall>m bs. response_to_vec X m = Inr bs \<longrightarrow> response_from_bytes X bs = Inr m)"

lemma create_ok:
  assumes "shmem_documented X V" and "shmem_create X name sz w = (Inr h, w')"
  shows "bound V w name = None" and "handles V w (shm_seg h) = 0" and "shm_seg h \<notin> ran (bound V w)"
    and "shm_owner h" and "bound V w' = (bound V w)(name \<mapsto> shm_seg h)"
    and "handles V w' = (handles V w)(shm_seg h := 1)"
    and "sz \<le> shm_len h" and "length (mem w' (shm_seg h)) = unat (shm_len h)"
    and "s \<noteq> shm_seg h \<Longrightarrow> mem w' s = mem w s"
  using assms unfolding shmem_documented_def create_documented_def by blast+

lemma create_err:
  assumes "shmem_documented X V" and "shmem_create X name sz w = (Inl e, w')"
  shows "w' = w" and "e = MappingIdExists \<longleftrightarrow> bound V w name \<noteq> None"
  using assms unfolding shmem_documented_def create_documented_def by blast+

lemma open_ok:
  assumes "shmem_documented X V" and "shmem_open X name w = (Inr h, w')"
  shows "bound V w name = Some (shm_seg h)" and "unat (shm_len h) = length (mem w (shm_seg h))"
    and "\<not> shm_owner h" and "mem w' = mem w" and "bound V w' = bound V w"
    and "handles V w' = (handles V w)(shm_seg h := Suc (handles V w (shm_seg h)))"
  using assms unfolding shmem_documented_def open_documented_def by blast+

lemma open_err:
  assumes "shmem_documented X V" and "shmem_open X name w = (Inl e, w')"
  shows "w' = w" and "bound V w name = Some s \<Longrightarrow> usize_limit \<le> length (mem w s)"
  using assms unfolding shmem_documented_def open_documented_def by blast+

lemma open_bound:
  assumes "shmem_documented X V" and "bound V w name = Some s" and "length (mem w s) < usize_limit"
  obtains h w' where "shmem_open X name w = (Inr h, w')" and "shm_seg h = s"
proof (cases "shmem_open X name w")
  case (Pair r w')
  then show ?thesis
  proof (cases r)
    case (Inl e)
    with open_err(2) [OF assms(1) _ assms(2)] Pair assms(3) show ?thesis by fastforce
  next
    case (Inr h)
    with open_ok(1) [OF assms(1)] Pair assms(2) that [of h w'] show ?thesis by fastforce
  qed
qed

lemma drop_mem:
  "shmem_documented X V \<Longrightarrow> s \<noteq> shm_seg h \<or> 1 < handles V w s \<Longrightarrow>
   mem (shmem_drop X h w) s = mem w s"
  unfolding shmem_documented_def drop_documented_def by blast

lemma drop_bound:
  "shmem_documented X V \<Longrightarrow> s \<noteq> shm_seg h \<or> \<not> shm_owner h \<Longrightarrow>
   bound V (shmem_drop X h w) name = Some s \<longleftrightarrow> bound V w name = Some s"
  unfolding shmem_documented_def drop_documented_def by blast

lemma drop_handles:
  "shmem_documented X V \<Longrightarrow>
   handles V (shmem_drop X h w) = (handles V w)(shm_seg h := handles V w (shm_seg h) - 1)"
  unfolding shmem_documented_def drop_documented_def by blast

lemma delete_kept:
  assumes "shmem_documented X V" and "delete_if_unshared X p w = (b, w')"
  shows "handles V w' = handles V w"
    and "0 < handles V w s \<Longrightarrow> mem w' s = mem w s"
    and "0 < handles V w s \<Longrightarrow> bound V w' name = Some s \<longleftrightarrow> bound V w name = Some s"
  using assms unfolding shmem_documented_def delete_documented_def by blast+

lemma view_put [simp]:
  assumes "shmem_documented X V"
  shows "bound V (put seg off bs w) = bound V w" and "handles V (put seg off bs w) = handles V w"
  using assms by (simp_all add: shmem_documented_def view_ignores_bytes_def put_def)

section \<open>What a call leaves to the holders of other segments\<close>

text \<open>
  \<open>kept V S w w'\<close>: every segment in \<open>S\<close> that someone held before is still held, with the same bytes
  and the same names. Calls compose along it.
\<close>

definition kept :: "'os shm_view \<Rightarrow> nat set \<Rightarrow> 'os world \<Rightarrow> 'os world \<Rightarrow> bool" where
  "kept V S w w' \<longleftrightarrow>
     (\<forall>s \<in> S. 0 < handles V w s \<longrightarrow> 0 < handles V w' s \<and> mem w' s = mem w s
        \<and> (\<forall>name. bound V w' name = Some s \<longleftrightarrow> bound V w name = Some s))"

lemma kept_refl [simp]: "kept V S w w"
  by (simp add: kept_def)

lemma kept_trans: "kept V S w1 w2 \<Longrightarrow> kept V S w2 w3 \<Longrightarrow> kept V S w1 w3"
  by (simp add: kept_def)

lemma kept_mono: "kept V S w w' \<Longrightarrow> T \<subseteq> S \<Longrightarrow> kept V T w w'"
  by (auto simp: kept_def)

lemma keptD:
  assumes "kept V S w w'" and "s \<in> S" and "0 < handles V w s"
  shows "mem w' s = mem w s" and "0 < handles V w' s"
    and "bound V w' name = Some s \<longleftrightarrow> bound V w name = Some s"
  using assms by (simp_all add: kept_def)

lemma kept_unheld:
  assumes "kept V (- {seg}) w w'" and "handles V w seg = 0"
  shows "kept V UNIV w w'"
  unfolding kept_def
proof (intro ballI impI)
  fix s
  assume s: "0 < handles V w s"
  with assms(2) have "s \<in> - {seg}" by auto
  with assms(1) s show "0 < handles V w' s \<and> mem w' s = mem w s
      \<and> (\<forall>name. (bound V w' name = Some s) = (bound V w name = Some s))"
    unfolding kept_def by blast
qed

lemma kept_create:
  assumes "shmem_documented X V" and "shmem_create X name sz w = (r, w')"
  shows "kept V UNIV w w'"
proof (cases r)
  case (Inl e)
  then show ?thesis using create_err(1) [OF assms(1)] assms(2) by fastforce
next
  case (Inr h)
  note c = create_ok [OF assms(1) assms(2) [unfolded Inr]]
  have "bound V w' n = Some s \<longleftrightarrow> bound V w n = Some s" if "0 < handles V w s" for s n
    using c(1,2,5) that by auto
  then show ?thesis using c(2,6,9) unfolding kept_def by (metis fun_upd_apply less_irrefl zero_less_one)
qed

lemma kept_open:
  assumes "shmem_documented X V" and "shmem_open X name w = (r, w')"
  shows "kept V UNIV w w'"
proof (cases r)
  case (Inl e)
  then show ?thesis using open_err(1) [OF assms(1)] assms(2) by fastforce
next
  case (Inr h)
  note c = open_ok [OF assms(1) assms(2) [unfolded Inr]]
  then show ?thesis by (simp add: kept_def)
qed

lemma kept_drop:
  assumes "shmem_documented X V"
  shows "kept V (- {shm_seg h}) w (shmem_drop X h w)"
  using assms by (simp add: kept_def drop_mem drop_bound drop_handles)

lemma kept_delete:
  assumes "shmem_documented X V" and "delete_if_unshared X p w = (b, w')"
  shows "kept V UNIV w w'"
  using delete_kept [OF assms] by (simp add: kept_def)

lemma kept_put: "shmem_documented X V \<Longrightarrow> kept V (- {seg}) w (put seg off bs w)"
  by (simp add: kept_def)

text \<open>Opening a segment someone else holds and dropping the handle again changes nothing.\<close>

lemma open_then_drop:
  assumes "shmem_documented X V" and "shmem_open X name w = (Inr h, w')"
    and "0 < handles V w (shm_seg h)"
  shows "mem (shmem_drop X h w') = mem w" and "handles V (shmem_drop X h w') = handles V w"
    and "bound V (shmem_drop X h w') n = Some s \<longleftrightarrow> bound V w n = Some s"
proof -
  note o = open_ok [OF assms(1,2)]
  have "mem (shmem_drop X h w') s = mem w s" for s
    using assms(3) o by (cases "s = shm_seg h") (simp_all add: drop_mem [OF assms(1)])
  then show "mem (shmem_drop X h w') = mem w" by auto
  show "handles V (shmem_drop X h w') = handles V w"
    using o by (simp add: drop_handles [OF assms(1)])
  show "bound V (shmem_drop X h w') n = Some s \<longleftrightarrow> bound V w n = Some s"
    using o by (simp add: drop_bound [OF assms(1)])
qed

text \<open>
  \<open>touches V seg S w w'\<close>: of the held segments only \<open>seg\<close> changes, and only at the offsets in \<open>S\<close>.
  Every operation on a control region is of this kind.
\<close>

definition touches :: "'os shm_view \<Rightarrow> nat \<Rightarrow> nat set \<Rightarrow> 'os world \<Rightarrow> 'os world \<Rightarrow> bool" where
  "touches V seg S w w' \<longleftrightarrow>
     unchanged_except S (mem w seg) (mem w' seg) \<and> kept V (- {seg}) w w' \<and> 0 < handles V w' seg
     \<and> (\<forall>name. bound V w' name = Some seg \<longleftrightarrow> bound V w name = Some seg)"

lemma touches_refl [simp]: "0 < handles V w seg \<Longrightarrow> touches V seg S w w"
  by (simp add: touches_def)

lemma touches_trans: "touches V seg S w1 w2 \<Longrightarrow> touches V seg S w2 w3 \<Longrightarrow> touches V seg S w1 w3"
  by (auto simp: touches_def intro: unchanged_trans kept_trans)

lemma touches_mono: "touches V seg S w w' \<Longrightarrow> S \<subseteq> T \<Longrightarrow> touches V seg T w w'"
  by (auto simp: touches_def intro: unchanged_mono)

lemma touches_put:
  assumes "shmem_documented X V" and "0 < handles V w seg"
    and "off + length bs \<le> length (mem w seg)" and "{off ..< off + length bs} \<subseteq> S"
  shows "touches V seg S w (put seg off bs w)"
  using assms by (simp add: touches_def unchanged_splice kept_put)

lemma touches_kept: "kept V UNIV w w' \<Longrightarrow> 0 < handles V w seg \<Longrightarrow> touches V seg S w w'"
  by (simp add: touches_def kept_def)

lemma touches_held: "touches V seg S w w' \<Longrightarrow> 0 < handles V w' seg"
  by (simp add: touches_def)

lemma touches_bytes: "touches V seg S w w' \<Longrightarrow> unchanged_except S (mem w seg) (mem w' seg)"
  by (simp add: touches_def)

lemma touches_length: "touches V seg S w w' \<Longrightarrow> length (mem w' seg) = length (mem w seg)"
  using unchanged_length [OF touches_bytes] .

section \<open>One implementation of the externals\<close>

text \<open>
  An in-memory name space: the names with their segments, and the next unused segment. A name
  disappears when its owner is dropped. Request metadata is written as its path (the other fields
  must be empty) and response metadata as its content type. It exists to witness that the
  hypotheses above can hold together, on concrete runs of the code.
\<close>

record ref_os =
  ref_names :: "string \<Rightarrow> nat option"
  ref_counts :: "nat \<Rightarrow> nat"
  ref_next :: nat

definition ref_bound :: "ref_os world \<Rightarrow> string \<Rightarrow> nat option" where
  "ref_bound w name =
     (case ref_names (ext w) name of
        Some s \<Rightarrow> if s < ref_next (ext w) then Some s else None
      | None \<Rightarrow> None)"

definition ref_handles :: "ref_os world \<Rightarrow> nat \<Rightarrow> nat" where
  "ref_handles w s = (if s < ref_next (ext w) then ref_counts (ext w) s else 0)"

definition ref_view :: "ref_os shm_view" where
  "ref_view = \<lparr>bound = ref_bound, handles = ref_handles\<rparr>"

definition ref_create :: "string \<Rightarrow> usize \<Rightarrow> ref_os world \<Rightarrow> (shmem_error + shmem) \<times> ref_os world" where
  "ref_create name sz w =
     (let os = ext w; seg = ref_next os in
      case ref_bound w name of
        Some _ \<Rightarrow> (Inl MappingIdExists, w)
      | None \<Rightarrow>
          (Inr \<lparr>shm_seg = seg, shm_addr = word_of_nat seg * 65536, shm_len = sz, shm_owner = True\<rparr>,
           \<lparr>mem = (mem w)(seg := replicate (unat sz) 0),
            ext = \<lparr>ref_names = (ref_bound w)(name \<mapsto> seg),
                   ref_counts = (ref_handles w)(seg := 1), ref_next = Suc seg\<rparr>\<rparr>))"

definition ref_open :: "string \<Rightarrow> ref_os world \<Rightarrow> (shmem_error + shmem) \<times> ref_os world" where
  "ref_open name w =
     (case ref_bound w name of
        Some s \<Rightarrow>
          if length (mem w s) < usize_limit
          then (Inr \<lparr>shm_seg = s, shm_addr = word_of_nat s * 65536,
                     shm_len = usize_of (length (mem w s)), shm_owner = False\<rparr>,
                w\<lparr>ext := (ext w)\<lparr>ref_counts := (ref_handles w)(s := Suc (ref_handles w s))\<rparr>\<rparr>)
          else (Inl (OtherShmemError ''mapping too large''), w)
      | None \<Rightarrow> (Inl (OtherShmemError ''no such mapping''), w))"

definition ref_drop :: "shmem \<Rightarrow> ref_os world \<Rightarrow> ref_os world" where
  "ref_drop h w =
     w\<lparr>ext := (ext w)\<lparr>ref_counts := (ref_handles w)(shm_seg h := ref_handles w (shm_seg h) - 1),
         ref_names := (if shm_owner h
                       then (\<lambda>n. if ref_bound w n = Some (shm_seg h) then None else ref_bound w n)
                       else ref_names (ext w))\<rparr>\<rparr>"

definition ref_request_to_vec :: "request_meta \<Rightarrow> postcard_error + bytes" where
  "ref_request_to_vec m =
     (if route_pattern m = [] \<and> path_params m = [] \<and> query m = None \<and> req_headers m = []
      then Inr (as_bytes (path m)) else Inl ''unsupported'')"

definition ref_request_from_bytes :: "bytes \<Rightarrow> postcard_error + request_meta" where
  "ref_request_from_bytes bs =
     Inr \<lparr>path = string_of_bytes bs, route_pattern = [], path_params = [], query = None, req_headers = []\<rparr>"

definition ref_response_to_vec :: "response_meta \<Rightarrow> postcard_error + bytes" where
  "ref_response_to_vec m =
     (if resp_headers m = [] then Inr (as_bytes (content_type m)) else Inl ''unsupported'')"

definition ref_response_from_bytes :: "bytes \<Rightarrow> postcard_error + response_meta" where
  "ref_response_from_bytes bs = Inr \<lparr>content_type = string_of_bytes bs, resp_headers = []\<rparr>"

definition ref_externals :: "ref_os externals" where
  "ref_externals =
     \<lparr>shmem_create = ref_create, shmem_open = ref_open, shmem_drop = ref_drop,
      show_shmem_error = (\<lambda>e. case e of MappingIdExists \<Rightarrow> ''mapping exists'' | OtherShmemError s \<Rightarrow> s),
      temp_dir = (\<lambda>w. [''tmp'']), canonicalize = (\<lambda>p w. None),
      delete_if_unshared = (\<lambda>p w. (False, w)),
      request_to_vec = ref_request_to_vec, request_from_bytes = ref_request_from_bytes,
      response_to_vec = ref_response_to_vec, response_from_bytes = ref_response_from_bytes\<rparr>"

definition ref_world :: "ref_os world" where
  "ref_world = \<lparr>mem = (\<lambda>_. []), ext = \<lparr>ref_names = (\<lambda>_. None), ref_counts = (\<lambda>_. 0), ref_next = 1\<rparr>\<rparr>"

lemmas ref_defs = ref_externals_def ref_view_def ref_create_def ref_open_def ref_drop_def
  ref_bound_def ref_handles_def

lemma ref_create_documented: "create_documented ref_externals ref_view"
  by (auto simp: create_documented_def ref_defs Let_def fun_eq_iff ran_def split: option.splits if_splits)

lemma ref_open_cases:
  "ref_open name w = (Inr h, w') \<Longrightarrow> \<exists>s. ref_bound w name = Some s \<and> length (mem w s) < usize_limit
     \<and> h = \<lparr>shm_seg = s, shm_addr = word_of_nat s * 65536,
            shm_len = usize_of (length (mem w s)), shm_owner = False\<rparr>
     \<and> w' = w\<lparr>ext := (ext w)\<lparr>ref_counts := (ref_handles w)(s := Suc (ref_handles w s))\<rparr>\<rparr>"
  by (auto simp: ref_open_def split: option.splits if_splits)

lemma ref_bound_next: "ref_bound w name = Some s \<Longrightarrow> s < ref_next (ext w)"
  by (auto simp: ref_bound_def split: option.splits if_splits)

lemma ref_open_documented: "open_documented ref_externals ref_view"
proof -
  have "ref_bound w name = Some (shm_seg h) \<and> \<not> shm_owner h
      \<and> unat (shm_len h) = length (mem w (shm_seg h)) \<and> mem w' = mem w \<and> ref_bound w' = ref_bound w
      \<and> ref_handles w' = (ref_handles w)(shm_seg h := Suc (ref_handles w (shm_seg h)))"
    if "ref_open name w = (Inr h, w')" for name w h w'
    using ref_open_cases [OF that]
    by (auto simp: ref_handles_def fun_eq_iff dest: ref_bound_next)
      (auto simp: ref_bound_def split: option.splits)
  moreover have "w' = w \<and> (\<forall>s. ref_bound w name = Some s \<longrightarrow> usize_limit \<le> length (mem w s))"
    if "ref_open name w = (Inl e, w')" for name w e w'
    using that by (auto simp: ref_open_def split: option.splits if_splits)
  ultimately show ?thesis by (simp add: open_documented_def ref_externals_def ref_view_def)
qed

lemma ref_drop_documented: "drop_documented ref_externals ref_view"
  by (auto simp: drop_documented_def ref_defs fun_eq_iff split: option.splits if_splits)

lemma ref_delete_documented: "delete_documented ref_externals ref_view"
  by (simp add: delete_documented_def ref_externals_def)

lemma ref_view_ignores_bytes: "view_ignores_bytes ref_view"
  by (auto simp: view_ignores_bytes_def ref_defs fun_eq_iff split: option.splits if_splits)

lemma ref_shmem_documented: "shmem_documented ref_externals ref_view"
  by (simp add: shmem_documented_def ref_create_documented ref_open_documented ref_drop_documented
      ref_delete_documented ref_view_ignores_bytes)

lemma ref_postcard_documented: "postcard_documented ref_externals"
  by (auto simp: postcard_documented_def ref_externals_def ref_request_to_vec_def
      ref_request_from_bytes_def ref_response_to_vec_def ref_response_from_bytes_def split: if_splits)

end
