(* ===== verification/Config.thy ===== *)
theory Config
  imports Prelude
begin

text \<open>
  The configuration and the OS names derived from it (\<^verbatim>\<open>slotbus/src/config.rs\<close>): the record, its
  builder, and the region, event and overflow names. The crate is compiled per platform
  (\<^verbatim>\<open>#[cfg(target_os)]\<close>), so a \<open>platform\<close> argument chooses between the two versions of
  \<open>sanitize_os_name\<close>; the macOS one slices a string and may panic, which is \<open>None\<close>.
\<close>

datatype platform = Windows | Linux | MacOS

section \<open>Name sanitisation\<close>

definition MAX_NAME :: nat where "MAX_NAME = 29"

text \<open>FNV-1a, 64 bits, and its eleven base-62 digits, least significant first.\<close>

definition fnv_step :: "u64 \<Rightarrow> u8 \<Rightarrow> u64" where
  "fnv_step hash byte = (hash XOR ucast byte) * 0x100000001b3"

definition fnv1a :: "bytes \<Rightarrow> u64" where
  "fnv1a bs = foldl fnv_step 0xcbf29ce484222325 bs"

definition CHARS :: string where
  "CHARS = ''0123456789ABCDEFGHIJKLMNOPQRSTUVWXYZabcdefghijklmnopqrstuvwxyz''"

fun encode62 :: "nat \<Rightarrow> u64 \<Rightarrow> string" where
  "encode62 0 h = []"
| "encode62 (Suc n) h = CHARS ! unat (h mod 62) # encode62 n (h div 62)"

text \<open>
  \<^verbatim>\<open>&name[start..]\<close> panics unless \<open>start\<close> is a character boundary: the ends of the string, or
  a byte that is not a UTF-8 continuation byte (\<^verbatim>\<open>0x80..=0xBF\<close>).
\<close>

definition is_char_boundary :: "string \<Rightarrow> nat \<Rightarrow> bool" where
  "is_char_boundary s i \<longleftrightarrow>
     i = 0 \<or> i = length s \<or> (i < length s \<and> (of_char (s ! i) < (128 :: nat) \<or> 192 \<le> (of_char (s ! i) :: nat)))"

definition str_from :: "string \<Rightarrow> nat \<Rightarrow> string option" where
  "str_from s start = (if is_char_boundary s start then Some (drop start s) else None)"

definition sanitize_os_name_macos :: "string \<Rightarrow> string option" where
  "sanitize_os_name_macos name =
     (if length name \<le> MAX_NAME then Some name
      else let encoded = encode62 11 (fnv1a (as_bytes name));
               max_suffix = MAX_NAME - 14;
               suffix_len = min max_suffix (length name)
           in do { suffix \<leftarrow> str_from name (length name - suffix_len);
                   let result = ''sb-'' @ encoded @ suffix;
                   Some (if length result > MAX_NAME then ''sb-'' @ encoded else result) })"

definition sanitize_os_name :: "platform \<Rightarrow> string \<Rightarrow> string option" where
  "sanitize_os_name pl name =
     (case pl of MacOS \<Rightarrow> sanitize_os_name_macos name | _ \<Rightarrow> Some name)"

section \<open>The configuration and its names\<close>

definition overflow_name :: "string \<Rightarrow> string \<Rightarrow> string \<Rightarrow> usize \<Rightarrow> u8 \<Rightarrow> string" where
  "overflow_name prefix name kind slot generation =
     (if generation = 0
      then prefix @ ''-'' @ name @ ''-'' @ kind @ ''-'' @ show_u slot
      else prefix @ ''-'' @ name @ ''-'' @ kind @ ''-'' @ show_u slot @ ''-g'' @ show_u generation)"

record config =
  cfg_name :: string
  cfg_prefix :: string
  cfg_num_slots :: usize
  cfg_region_size :: usize
  cfg_wait_timeout_ms :: u32
  cfg_instrumentation :: bool

definition default_config :: config where
  "default_config =
     \<lparr>cfg_name = [], cfg_prefix = ''slotbus'', cfg_num_slots = 32, cfg_region_size = 1048576,
      cfg_wait_timeout_ms = 5000, cfg_instrumentation = False\<rparr>"

definition region_name :: "platform \<Rightarrow> config \<Rightarrow> string option" where
  "region_name pl c = sanitize_os_name pl (cfg_prefix c @ ''-'' @ cfg_name c)"

definition request_event_name :: "platform \<Rightarrow> config \<Rightarrow> string option" where
  "request_event_name pl c = sanitize_os_name pl (cfg_prefix c @ ''-'' @ cfg_name c @ ''-req'')"

definition response_event_name :: "platform \<Rightarrow> config \<Rightarrow> string option" where
  "response_event_name pl c = sanitize_os_name pl (cfg_prefix c @ ''-'' @ cfg_name c @ ''-rsp'')"

definition request_overflow_name_gen :: "platform \<Rightarrow> config \<Rightarrow> usize \<Rightarrow> u8 \<Rightarrow> string option" where
  "request_overflow_name_gen pl c slot generation =
     sanitize_os_name pl (overflow_name (cfg_prefix c) (cfg_name c) ''req'' slot generation)"

definition response_overflow_name_gen :: "platform \<Rightarrow> config \<Rightarrow> usize \<Rightarrow> u8 \<Rightarrow> string option" where
  "response_overflow_name_gen pl c slot generation =
     sanitize_os_name pl (overflow_name (cfg_prefix c) (cfg_name c) ''rsp'' slot generation)"

definition request_overflow_name :: "platform \<Rightarrow> config \<Rightarrow> usize \<Rightarrow> string option" where
  "request_overflow_name pl c slot = request_overflow_name_gen pl c slot 0"

definition response_overflow_name :: "platform \<Rightarrow> config \<Rightarrow> usize \<Rightarrow> string option" where
  "response_overflow_name pl c slot = response_overflow_name_gen pl c slot 0"

section \<open>The builder\<close>

text \<open>A \<^verbatim>\<open>SlotBusConfigBuilder\<close> holds the configuration built so far.\<close>

type_synonym config_builder = config

definition config_builder :: config_builder where
  "config_builder = default_config"

definition builder_name :: "string \<Rightarrow> config_builder \<Rightarrow> config_builder" where
  "builder_name n b = b\<lparr>cfg_name := n\<rparr>"

definition builder_prefix :: "string \<Rightarrow> config_builder \<Rightarrow> config_builder" where
  "builder_prefix p b = b\<lparr>cfg_prefix := p\<rparr>"

definition builder_num_slots :: "usize \<Rightarrow> config_builder \<Rightarrow> config_builder" where
  "builder_num_slots n b = b\<lparr>cfg_num_slots := (if n < 1 then 1 else if 256 < n then 256 else n)\<rparr>"

definition builder_region_size :: "usize \<Rightarrow> config_builder \<Rightarrow> config_builder" where
  "builder_region_size sz b = b\<lparr>cfg_region_size := sz\<rparr>"

definition builder_wait_timeout_ms :: "u32 \<Rightarrow> config_builder \<Rightarrow> config_builder" where
  "builder_wait_timeout_ms ms b = b\<lparr>cfg_wait_timeout_ms := ms\<rparr>"

definition builder_instrumentation :: "bool \<Rightarrow> config_builder \<Rightarrow> config_builder" where
  "builder_instrumentation enabled b = b\<lparr>cfg_instrumentation := enabled\<rparr>"

definition builder_build :: "config_builder \<Rightarrow> config option" where
  "builder_build b = (if cfg_name b = [] then None else Some b)"

lemmas builder_defs = config_builder_def builder_name_def builder_prefix_def builder_num_slots_def
  builder_region_size_def builder_wait_timeout_ms_def builder_instrumentation_def builder_build_def
  default_config_def

text \<open>Every configuration a chain of builder calls can produce.\<close>

inductive buildable :: "config_builder \<Rightarrow> bool" where
  start: "buildable config_builder"
| set_name: "buildable b \<Longrightarrow> buildable (builder_name n b)"
| set_prefix: "buildable b \<Longrightarrow> buildable (builder_prefix p b)"
| set_slots: "buildable b \<Longrightarrow> buildable (builder_num_slots k b)"
| set_size: "buildable b \<Longrightarrow> buildable (builder_region_size s b)"
| set_wait: "buildable b \<Longrightarrow> buildable (builder_wait_timeout_ms ms b)"
| set_instr: "buildable b \<Longrightarrow> buildable (builder_instrumentation e b)"

section \<open>Lemmas\<close>

lemma sanitize_other [simp]: "pl \<noteq> MacOS \<Longrightarrow> sanitize_os_name pl s = Some s"
  by (cases pl) (auto simp: sanitize_os_name_def)

lemmas name_defs = region_name_def request_event_name_def response_event_name_def
  request_overflow_name_gen_def response_overflow_name_gen_def request_overflow_name_def
  response_overflow_name_def

lemma length_encode62 [simp]: "length (encode62 n h) = n"
  by (induction n arbitrary: h) auto

lemma sanitize_macos_shape:
  assumes "sanitize_os_name_macos s = Some t" and "MAX_NAME < length s"
  shows "t = ''sb-'' @ encode62 11 (fnv1a (as_bytes s)) @ drop (length s - 15) s"
  using assms
  by (auto simp: sanitize_os_name_macos_def Let_def str_from_def MAX_NAME_def min_def
      split: if_splits)

lemma sanitize_macos_length: "sanitize_os_name_macos s = Some t \<Longrightarrow> length t \<le> MAX_NAME"
  using sanitize_macos_shape [of s t]
  by (cases "length s \<le> MAX_NAME") (auto simp: sanitize_os_name_macos_def MAX_NAME_def)

lemma digits_then_rest:
  assumes "\<And>c. c \<in> set ds \<Longrightarrow> is_digit c" and "rest = [] \<or> \<not> is_digit (hd rest)"
  shows "takeWhile is_digit (ds @ rest) = ds" and "dropWhile is_digit (ds @ rest) = rest"
  using assms by (cases rest; simp add: takeWhile_append2 dropWhile_append2)+

text \<open>A slot number and an optional generation, as an overflow name ends, can be read back.\<close>

definition name_tail :: "usize \<Rightarrow> u8 \<Rightarrow> string" where
  "name_tail slot g = show_u slot @ (if g = 0 then [] else ''-g'' @ show_u g)"

lemma overflow_name_tail:
  "overflow_name p n k s g = p @ ''-'' @ n @ ''-'' @ k @ ''-'' @ name_tail s g"
  by (simp add: overflow_name_def name_tail_def)

lemma name_tail_inject: "name_tail s g = name_tail s' g' \<Longrightarrow> s = s' \<and> g = g'"
proof -
  assume eq: "name_tail s g = name_tail s' g'"
  have rest: "(if h = 0 then [] else ''-g'' @ show_u h) = [] \<or>
      \<not> is_digit (hd (if h = 0 then [] else ''-g'' @ show_u h))" for h :: u8
    by (simp add: is_digit_def)
  have slot: "takeWhile is_digit (name_tail t h) = show_u t" for t h
    unfolding name_tail_def by (rule digits_then_rest(1) [OF show_u_digits rest])
  have gen: "dropWhile is_digit (name_tail t h) = (if h = 0 then [] else ''-g'' @ show_u h)" for t h
    unfolding name_tail_def by (rule digits_then_rest(2) [OF show_u_digits rest])
  have "show_u s = show_u s'"
    and "(if g = 0 then [] else ''-g'' @ show_u g) = (if g' = 0 then [] else ''-g'' @ show_u g')"
    using eq slot [of s g] slot [of s' g'] gen [of s g] gen [of s' g'] by simp_all
  then show ?thesis by (auto split: if_splits)
qed

lemma overflow_name_inject:
  assumes "overflow_name p n k s g = overflow_name p n k' s' g'" and "length k = length k'"
  shows "k = k' \<and> s = s' \<and> g = g'"
proof -
  have "k @ ''-'' @ name_tail s g = k' @ ''-'' @ name_tail s' g'"
    using assms(1) by (simp add: overflow_name_tail)
  with assms(2) have "k = k'" and "name_tail s g = name_tail s' g'" by simp_all
  then show ?thesis using name_tail_inject by blast
qed

text \<open>
  The end of an overflow name, \<open>-req-<slot>\<close> or \<open>-rsp-<slot>-g<generation>\<close>: no such end is a proper suffix of another, and
  for a slot below 256 it is within the last fifteen bytes, which sanitising keeps.
\<close>

definition name_end :: "string \<Rightarrow> usize \<Rightarrow> u8 \<Rightarrow> string" where
  "name_end k s g = ''-'' @ k @ ''-'' @ name_tail s g"

lemma overflow_name_end: "overflow_name p n k s g = (p @ ''-'' @ n) @ name_end k s g"
  by (simp add: overflow_name_tail name_end_def)

lemma name_tail_no_r: "CHR ''r'' \<notin> set (name_tail s g)"
proof -
  have "\<not> is_digit CHR ''r''" by (simp add: is_digit_def)
  then have "CHR ''r'' \<notin> set (show_u s)" "CHR ''r'' \<notin> set (show_u g)" using show_u_digits by blast+
  then show ?thesis by (simp add: name_tail_def)
qed

lemma name_end_suffix:
  assumes "x @ name_end k s g = name_end k' s' g'" and "k \<in> {''req'', ''rsp''}" and "k' \<in> {''req'', ''rsp''}"
  shows "x = []"
proof (rule ccontr)
  assume "x \<noteq> []"
  then obtain c y where x: "x = c # y" by (cases x) auto
  obtain v v' where e: "name_end k s g = CHR ''-'' # CHR ''r'' # v" "name_end k' s' g' = CHR ''-'' # CHR ''r'' # v'"
    and r: "CHR ''r'' \<notin> set v'" using assms(2,3) name_tail_no_r [of s' g'] by (auto simp: name_end_def)
  then have "y @ CHR ''-'' # CHR ''r'' # v = CHR ''r'' # v'" using assms(1) x by simp
  then show False using r by (cases y) auto
qed

lemma show_nat_short: "n < 1000 \<Longrightarrow> length (show_nat n) \<le> 3"
proof -
  have 1: "length (show_nat m) = 1" if "m < 10" for m using that by (subst show_nat.simps) simp
  have 2: "length (show_nat m) \<le> 2" if "m < 100" for m
    using that 1 [of "m div 10"] by (subst show_nat.simps) auto
  show "n < 1000 \<Longrightarrow> length (show_nat n) \<le> 3" using 2 [of "n div 10"] by (subst show_nat.simps) auto
qed

lemma name_end_short:
  assumes "s < 256" and "length k = 3"
  shows "length (name_end k s g) \<le> 15"
proof -
  have "unat s < 256" "unat g < 256" using assms(1) unsigned_less [of g] by (simp_all add: word_less_nat_alt)
  then have "length (show_u s) \<le> 3" "length (show_u g) \<le> 3" using show_nat_short by (simp_all add: show_u_def)
  then show ?thesis using assms(2) by (simp add: name_end_def name_tail_def)
qed

lemma macos_keeps_end:
  assumes "sanitize_os_name_macos (q @ e) = Some t" and "length e \<le> 15"
  obtains p where "t = p @ e" and "length (q @ e) \<le> 29 \<Longrightarrow> t = q @ e"
proof (cases "length (q @ e) \<le> 29")
  case True
  then have "t = q @ e" using assms(1) by (simp add: sanitize_os_name_macos_def MAX_NAME_def)
  then show ?thesis using that by blast
next
  case False
  then have "drop (length (q @ e) - 15) (q @ e) = drop (length (q @ e) - 15) q @ e" using assms(2) by simp
  then show ?thesis using that sanitize_macos_shape [OF assms(1)] False unfolding MAX_NAME_def append_assoc [symmetric] by auto
qed

lemma sanitized_inject:
  assumes "sanitize_os_name pl (overflow_name p n k s g) = Some t" and "sanitize_os_name pl (overflow_name p n k' s' g') = Some t"
    and "k \<in> {''req'', ''rsp''}" and "k' \<in> {''req'', ''rsp''}" and "pl = MacOS \<longrightarrow> s < 256 \<and> s' < 256"
  shows "k = k' \<and> s = s' \<and> g = g'"
proof (rule overflow_name_inject)
  show "length k = length k'" using assms(3,4) by auto
  show "overflow_name p n k s g = overflow_name p n k' s' g'"
  proof (cases "pl = MacOS")
    case False
    then show ?thesis using assms(1,2) by simp
  next
    case True
    let ?e = "name_end k s g" and ?e' = "name_end k' s' g'"
    have "length ?e \<le> 15" "length ?e' \<le> 15" using assms(3-5) True by (auto intro!: name_end_short)
    then obtain x y where "t = x @ ?e" "t = y @ ?e'"
      using assms(1,2) True macos_keeps_end unfolding sanitize_os_name_def overflow_name_end by (metis platform.simps)
    then have "x @ ?e = y @ ?e'" by simp
    then obtain z where "z @ ?e = ?e' \<or> z @ ?e' = ?e" by (metis append_eq_append_conv2)
    then have "?e = ?e'" using name_end_suffix assms(3,4) by (metis append_Nil)
    then show ?thesis by (simp add: overflow_name_end)
  qed
qed

lemma clamp_range: "1 \<le> (if n < 1 then 1 else if 256 < n then 256 else n :: usize) \<and>
    (if n < 1 then 1 else if 256 < n then 256 else n) \<le> (256 :: usize)"
  by auto

section \<open>Properties\<close>

text \<open>
  On macOS, every name the crate passes to the OS fits \<open>sem_open\<close> and \<open>shm_open\<close>: the
  sanitised name has at most 29 bytes, so with the leading slash at most 30; a short name is kept,
  a longer one keeps its last fifteen bytes.
\<close>

theorem sanitized_name_fits:
  assumes "sanitize_os_name MacOS name = Some t"
  shows "length (''/'' @ t) \<le> 30
    \<and> (length name \<le> 29 \<longrightarrow> t = name)
    \<and> (29 < length name \<longrightarrow> drop 14 t = drop (length name - 15) name)"
proof -
  have s: "sanitize_os_name_macos name = Some t" using assms by (simp add: sanitize_os_name_def)
  then have "length t \<le> 29" using sanitize_macos_length by (simp add: MAX_NAME_def)
  moreover have "length name \<le> 29 \<longrightarrow> t = name"
    using s by (auto simp: sanitize_os_name_macos_def MAX_NAME_def)
  moreover have "29 < length name \<longrightarrow> drop 14 t = drop (length name - 15) name"
    using sanitize_macos_shape [OF s] by (simp add: MAX_NAME_def)
  ultimately show ?thesis by simp
qed

theorem sanitized_name_fits_witness:
  "\<exists>t. sanitize_os_name MacOS (replicate 40 CHR ''a'') = Some t \<and> length (''/'' @ t) \<le> 30"
proof -
  have "sanitize_os_name MacOS (replicate 40 CHR ''a'') \<noteq> None"
    by (simp add: sanitize_os_name_def sanitize_os_name_macos_def MAX_NAME_def str_from_def
        is_char_boundary_def Let_def)
  then obtain t where t: "sanitize_os_name MacOS (replicate 40 CHR ''a'') = Some t" by auto
  from sanitized_name_fits [OF t] t show ?thesis by blast
qed

text \<open>
  C32: the overflow regions of one configuration never share a name: a request or response overflow name determines
  its slot and its generation, and no request name is a response name. On macOS, where a long name is replaced
  by a hash and its last fifteen bytes, this holds for the slots a configuration can have (below 256) whose names can be
  formed (cutting a name inside a UTF-8 character panics): the kept bytes tell the names apart.
\<close>

theorem overflow_names_distinct:
  assumes "pl = MacOS \<longrightarrow> s < 256 \<and> s' < 256
    \<and> request_overflow_name_gen pl c s g \<noteq> None \<and> response_overflow_name_gen pl c s g \<noteq> None"
  shows "(request_overflow_name_gen pl c s g = request_overflow_name_gen pl c s' g' \<longleftrightarrow> s = s' \<and> g = g')
    \<and> (response_overflow_name_gen pl c s g = response_overflow_name_gen pl c s' g' \<longleftrightarrow> s = s' \<and> g = g')
    \<and> request_overflow_name_gen pl c s g \<noteq> response_overflow_name_gen pl c s' g'"
proof -
  note inj = sanitized_inject [of pl "cfg_prefix c" "cfg_name c" _ s g]
  have "request_overflow_name_gen pl c s g \<noteq> None" "response_overflow_name_gen pl c s g \<noteq> None"
    using assms by (cases "pl = MacOS"; simp add: name_defs)+
  then obtain t u where t: "request_overflow_name_gen pl c s g = Some t" "response_overflow_name_gen pl c s g = Some u" by blast
  show ?thesis
    using assms t inj [of "''req''" t "''req''" s' g'] inj [of "''rsp''" u "''rsp''" s' g'] inj [of "''req''" t "''rsp''" s' g']
    unfolding request_overflow_name_gen_def response_overflow_name_gen_def by auto
qed

theorem overflow_names_distinct_witness:
  "request_overflow_name_gen Linux default_config 3 0 \<noteq> request_overflow_name_gen Linux default_config 3 1
   \<and> request_overflow_name_gen MacOS (default_config\<lparr>cfg_name := replicate 20 CHR ''a''\<rparr>) 3 0
       \<noteq> request_overflow_name_gen MacOS (default_config\<lparr>cfg_name := replicate 20 CHR ''a''\<rparr>) 255 1"
proof -
  let ?c = "default_config\<lparr>cfg_name := replicate 20 CHR ''a''\<rparr>"
  have "request_overflow_name_gen MacOS ?c 3 0 \<noteq> None" "response_overflow_name_gen MacOS ?c 3 0 \<noteq> None"
    by (simp_all add: name_defs overflow_name_def default_config_def sanitize_os_name_def sanitize_os_name_macos_def MAX_NAME_def
        str_from_def is_char_boundary_def Let_def show_u_def show_nat.simps digit_char_def nth_append)
  then show ?thesis
    using overflow_names_distinct [of Linux 3 3 default_config 0 1] overflow_names_distinct [of MacOS 3 255 ?c 0 1] by simp
qed

text \<open>
  Every configuration the builder can produce has a name and between 1 and 256 slots; building
  without a name panics.
\<close>

theorem builder_config_valid:
  assumes "buildable b"
  shows "(cfg_name b = [] \<longrightarrow> builder_build b = None)
    \<and> (\<forall>c. builder_build b = Some c \<longrightarrow>
         c = b \<and> cfg_name c \<noteq> [] \<and> 1 \<le> unat (cfg_num_slots c) \<and> unat (cfg_num_slots c) \<le> 256)"
proof -
  have "1 \<le> cfg_num_slots b \<and> cfg_num_slots b \<le> 256" using assms
  proof (induction rule: buildable.induct)
    case (set_slots b k)
    then show ?case using clamp_range [of k] by (simp add: builder_num_slots_def)
  qed (simp_all add: builder_defs)
  then have "1 \<le> unat (cfg_num_slots b) \<and> unat (cfg_num_slots b) \<le> 256"
    by (simp add: word_le_nat_alt)
  then show ?thesis by (simp add: builder_build_def)
qed

theorem builder_config_valid_witness:
  "builder_build (builder_num_slots 1000 (builder_name ''w'' config_builder))
     = Some (default_config\<lparr>cfg_name := ''w'', cfg_num_slots := 256\<rparr>)
   \<and> unat (cfg_num_slots (builder_num_slots 1000 (builder_name ''w'' config_builder))) \<le> 256"
proof -
  have b: "buildable (builder_num_slots 1000 (builder_name ''w'' config_builder))"
    by (intro buildable.intros)
  have "builder_build (builder_num_slots 1000 (builder_name ''w'' config_builder))
     = Some (default_config\<lparr>cfg_name := ''w'', cfg_num_slots := 256\<rparr>)"
    by (simp add: builder_defs)
  with builder_config_valid [OF b] show ?thesis by (simp add: builder_defs)
qed

end
