(* ===== verification/Region.thy ===== *)
theory Region
  imports Externals Config
begin

text \<open>
  The control region (\<^verbatim>\<open>slotbus/src/region.rs\<close>, \<^verbatim>\<open>ShmRegion\<close> up to the overflow helpers): opening
  a mapping, the header and slot accessors, the bounds-checked heap accesses, the retired bump
  allocator, and the initialisation and validation of the header. Reads take a world; writes return
  the new one; \<open>None\<close> is an access outside the mapping. The lemmas give each operation's effect on
  the bytes and show that, on a well-formed region, no operation leaves the mapping.
\<close>

section \<open>The handle\<close>

record shm_region =
  r_shmem :: shmem
  r_ptr :: nat
  r_len :: usize
  r_name :: string
  r_num_slots :: usize
  r_heap_offset :: usize
  r_heap_size :: usize

definition quote :: "string \<Rightarrow> string" where
  "quote s = CHR 0x27 # s @ [CHR 0x27]"

text \<open>\<open>ptr\<close> is \<^verbatim>\<open>shmem.as_ptr()\<close>, the start of the segment; the three layout fields start at 0.\<close>

definition region_of_shmem :: "string \<Rightarrow> shmem \<Rightarrow> shm_region" where
  "region_of_shmem name shmem =
     \<lparr>r_shmem = shmem, r_ptr = shm_seg shmem, r_len = shm_len shmem, r_name = name,
      r_num_slots = 0, r_heap_offset = 0, r_heap_size = 0\<rparr>"

definition region_create ::
  "'os externals \<Rightarrow> string \<Rightarrow> usize \<Rightarrow> 'os world \<Rightarrow> shm_region result \<times> 'os world" where
  "region_create X name sz w =
     (case shmem_create X name sz w of
        (Inl e, w') \<Rightarrow>
          (Inl (SharedMemory (''create '' @ quote name @ '': '' @ show_shmem_error X e)), w')
      | (Inr shmem, w') \<Rightarrow> (Inr (region_of_shmem name shmem), w'))"

definition region_open ::
  "'os externals \<Rightarrow> string \<Rightarrow> 'os world \<Rightarrow> shm_region result \<times> 'os world" where
  "region_open X name w =
     (case shmem_open X name w of
        (Inl e, w') \<Rightarrow>
          (Inl (SharedMemory (''open '' @ quote name @ '': '' @ show_shmem_error X e)), w')
      | (Inr shmem, w') \<Rightarrow> (Inr (region_of_shmem name shmem), w'))"

text \<open>Dropping a \<^verbatim>\<open>ShmRegion\<close> drops its \<^verbatim>\<open>Shmem\<close>.\<close>

definition region_drop :: "'os externals \<Rightarrow> shm_region \<Rightarrow> 'os world \<Rightarrow> 'os world" where
  "region_drop X r w = shmem_drop X (r_shmem r) w"

definition region_is_empty :: "shm_region \<Rightarrow> bool" where
  "region_is_empty r \<longleftrightarrow> r_len r = 0"

section \<open>Header, slots and heap\<close>

text \<open>
  \<^verbatim>\<open>slot(index)\<close> is a reference at a byte offset computed in \<open>usize\<close>; \<open>slot_base\<close> is that offset.
  Fields of the referenced struct are read at their \<open>repr(C)\<close> offsets.
\<close>

definition slot_base :: "usize \<Rightarrow> nat" where
  "slot_base index = unat (SHM_HEADER_SIZE + index * SLOT_META_SIZE)"

text \<open>\<^verbatim>\<open>header()\<close> is a reference to the first 64 bytes, \<^verbatim>\<open>heap_ptr()\<close> a place in the mapping.\<close>

record header =
  h_magic :: u32
  h_version :: u32
  h_num_slots :: u32
  h_heap_offset :: u32
  h_heap_size :: u32
  h_alloc_head :: u32

definition region_header :: "shm_region \<Rightarrow> 'os world \<Rightarrow> header option" where
  "region_header r w = do {
     magic \<leftarrow> read_u32 (r_ptr r) (header_offset HMagic) w;
     version \<leftarrow> read_u32 (r_ptr r) (header_offset HVersion) w;
     num_slots \<leftarrow> read_u32 (r_ptr r) (header_offset HNumSlots) w;
     heap_offset \<leftarrow> read_u32 (r_ptr r) (header_offset HHeapOffset) w;
     heap_size \<leftarrow> read_u32 (r_ptr r) (header_offset HHeapSize) w;
     alloc_head \<leftarrow> atomic_load (r_ptr r) (header_offset HAllocHead) w;
     Some \<lparr>h_magic = magic, h_version = version, h_num_slots = num_slots, h_heap_offset = heap_offset,
           h_heap_size = heap_size, h_alloc_head = alloc_head\<rparr> }"

definition heap_ptr :: "shm_region \<Rightarrow> nat \<times> nat" where
  "heap_ptr r = (r_ptr r, unat (r_heap_offset r))"

definition slot_status :: "shm_region \<Rightarrow> usize \<Rightarrow> 'os world \<Rightarrow> u32 option" where
  "slot_status r index w = atomic_load (r_ptr r) (slot_base index + slot_offset FStatus) w"

definition store_status :: "shm_region \<Rightarrow> usize \<Rightarrow> u32 \<Rightarrow> 'os world \<Rightarrow> 'os world option" where
  "store_status r index v w = atomic_store (r_ptr r) (slot_base index + slot_offset FStatus) v w"

definition cas_status ::
  "shm_region \<Rightarrow> usize \<Rightarrow> u32 \<Rightarrow> u32 \<Rightarrow> 'os world \<Rightarrow> ((u32 + u32) \<times> 'os world) option" where
  "cas_status r index current new w =
     compare_exchange (r_ptr r) (slot_base index + slot_offset FStatus) current new w"

definition heap_read :: "shm_region \<Rightarrow> u32 \<Rightarrow> usize \<Rightarrow> 'os world \<Rightarrow> bytes option" where
  "heap_read r offset len w = mem_read (r_ptr r) (unat (r_heap_offset r) + unat offset) (unat len) w"

definition heap_read_checked :: "shm_region \<Rightarrow> u32 \<Rightarrow> usize \<Rightarrow> 'os world \<Rightarrow> bytes result option" where
  "heap_read_checked r offset len w =
     (let out_of_bounds = Some (Inl (InvalidRegion
            (''heap read out of bounds: offset='' @ show_u offset @ '' len='' @ show_u len
               @ '' heap_size='' @ show_u (r_heap_size r))))
      in case checked_add (ucast offset) len of
           Some end_ \<Rightarrow>
             if end_ \<le> r_heap_size r
             then do { bs \<leftarrow> heap_read r offset len w; Some (Inr bs) }
             else out_of_bounds
         | None \<Rightarrow> out_of_bounds)"

definition heap_write :: "shm_region \<Rightarrow> u32 \<Rightarrow> bytes \<Rightarrow> 'os world \<Rightarrow> 'os world option" where
  "heap_write r offset data w = mem_write (r_ptr r) (unat (r_heap_offset r) + unat offset) data w"

definition heap_write_checked ::
  "shm_region \<Rightarrow> u32 \<Rightarrow> bytes \<Rightarrow> 'os world \<Rightarrow> (unit result \<times> 'os world) option" where
  "heap_write_checked r offset data w =
     (let out_of_bounds = Some (Inl (InvalidRegion
            (''heap write out of bounds: offset='' @ show_u offset
               @ '' len='' @ show_nat (length data)
               @ '' heap_size='' @ show_u (r_heap_size r)
               @ '' base='' @ show_pointer (shm_addr (r_shmem r)))), w)
      in case checked_add (ucast offset) (usize_of (length data)) of
           Some end_ \<Rightarrow>
             if end_ \<le> r_heap_size r
             then do { w' \<leftarrow> heap_write r offset data w; Some (Inr (), w') }
             else out_of_bounds
         | None \<Rightarrow> out_of_bounds)"

definition region_slot_arenas :: "shm_region \<Rightarrow> usize \<Rightarrow> (usize \<times> usize) \<times> (usize \<times> usize)" where
  "region_slot_arenas r slot_index = slot_arenas slot_index (r_num_slots r) (r_heap_size r)"

definition inline_body_capacity :: "shm_region \<Rightarrow> usize \<Rightarrow> usize" where
  "inline_body_capacity r meta_len =
     (let ((_, req), (_, resp)) = region_slot_arenas r 0
      in saturating_sub (min req resp) (align8 meta_len))"

section \<open>The retired bump allocator\<close>

text \<open>
  One turn of the loop in \<open>alloc_heap\<close>: load the head, give up if the heap is full, and try to
  advance it. Between the load and the compare-exchange other processes may act: \<open>others k\<close> is what
  they do in turn \<open>k\<close>. The loop repeats while the compare-exchange fails; a run that never ends is
  \<open>None\<close>.
\<close>

definition align_mask8 :: "usize \<Rightarrow> usize" where
  "align_mask8 n = (n + 7) AND NOT 7"

partial_function (option) alloc_heap_loop ::
  "(nat \<Rightarrow> 'os world \<Rightarrow> 'os world) \<Rightarrow> nat \<Rightarrow> shm_region \<Rightarrow> usize \<Rightarrow> 'os world \<Rightarrow>
   (u32 option \<times> 'os world) option" where
  "alloc_heap_loop others k r aligned w =
     do { head \<leftarrow> atomic_load (r_ptr r) (header_offset HAllocHead) w;
          let new_head = ucast head + aligned;
          if new_head > r_heap_size r then Some (None, w)
          else do { (res, w') \<leftarrow> compare_exchange (r_ptr r) (header_offset HAllocHead) head
                                   (ucast new_head) (others k w);
                    case res of
                      Inr _ \<Rightarrow> Some (Some head, w')
                    | Inl _ \<Rightarrow> alloc_heap_loop others (Suc k) r aligned w' } }"

definition alloc_heap ::
  "(nat \<Rightarrow> 'os world \<Rightarrow> 'os world) \<Rightarrow> shm_region \<Rightarrow> usize \<Rightarrow> 'os world \<Rightarrow>
   (u32 option \<times> 'os world) option" where
  "alloc_heap others r sz w = alloc_heap_loop others 0 r (align_mask8 sz) w"

definition reset_heap :: "shm_region \<Rightarrow> 'os world \<Rightarrow> 'os world option" where
  "reset_heap r w = atomic_store (r_ptr r) (header_offset HAllocHead) 0 w"

text \<open>The indices \<open>0..num_slots\<close>, in order.\<close>

definition slot_indices :: "shm_region \<Rightarrow> usize list" where
  "slot_indices r = map usize_of [0 ..< unat (r_num_slots r)]"

fun any_inflight :: "shm_region \<Rightarrow> usize list \<Rightarrow> 'os world \<Rightarrow> bool option" where
  "any_inflight r [] w = Some False"
| "any_inflight r (i # is) w =
     do { s \<leftarrow> slot_status r i w;
          if s \<noteq> SLOT_FREE then Some True else any_inflight r is w }"

definition has_inflight_slots :: "shm_region \<Rightarrow> 'os world \<Rightarrow> bool option" where
  "has_inflight_slots r w = any_inflight r (slot_indices r) w"

definition try_reset_heap :: "shm_region \<Rightarrow> 'os world \<Rightarrow> 'os world option" where
  "try_reset_heap r w =
     do { inflight \<leftarrow> has_inflight_slots r w;
          if \<not> inflight then reset_heap r w else Some w }"

section \<open>Initialisation and validation\<close>

definition init_control ::
  "config \<Rightarrow> shm_region \<Rightarrow> 'os world \<Rightarrow> (unit result \<times> shm_region \<times> 'os world) option" where
  "init_control c r w =
     (let (heap_offset, heap_size) = compute_layout (cfg_num_slots c) (cfg_region_size c);
          needed = heap_offset + heap_size
      in if needed > r_len r
         then Some (Inl (InvalidRegion
                (''region '' @ quote (r_name r) @ '' maps '' @ show_u (r_len r)
                   @ '' bytes but the requested layout needs '' @ show_u needed
                   @ '' (num_slots='' @ show_u (cfg_num_slots c)
                   @ '', region_size='' @ show_u (cfg_region_size c)
                   @ ''); an existing smaller mapping was adopted ''
                   @ string_of_bytes [0xE2, 0x80, 0x94]
                   @ '' stop every peer and remove the stale region before retrying'')), r, w)
         else
           let r = r\<lparr>r_num_slots := cfg_num_slots c, r_heap_offset := heap_offset,
                     r_heap_size := heap_size\<rparr>;
               h = r_ptr r
           in do { w \<leftarrow> mem_write h 0 (replicate (unat (r_len r)) 0) w;
                   w \<leftarrow> write_u32 h 0 SHM_MAGIC w;
                   w \<leftarrow> write_u32 h 4 SHM_VERSION w;
                   w \<leftarrow> write_u32 h 8 (ucast (cfg_num_slots c)) w;
                   w \<leftarrow> write_u32 h 12 (ucast heap_offset) w;
                   w \<leftarrow> write_u32 h 16 (ucast heap_size) w;
                   w \<leftarrow> atomic_store h (header_offset HAllocHead) 0 w;
                   Some (Inr (), r, w) })"

definition validate_control :: "shm_region \<Rightarrow> 'os world \<Rightarrow> (unit result \<times> shm_region) option" where
  "validate_control r w =
     do { magic \<leftarrow> read_u32 (r_ptr r) 0 w;
          version \<leftarrow> read_u32 (r_ptr r) 4 w;
          num_slots \<leftarrow> read_u32 (r_ptr r) 8 w;
          heap_offset \<leftarrow> read_u32 (r_ptr r) 12 w;
          heap_size \<leftarrow> read_u32 (r_ptr r) 16 w;
          let num_slots = (ucast num_slots :: usize);
          let heap_offset = (ucast heap_offset :: usize);
          let heap_size = (ucast heap_size :: usize);
          if magic \<noteq> SHM_MAGIC
          then Some (Inl (InvalidRegion (''bad magic: expected 0x'' @ show_hex_upper8 SHM_MAGIC
                 @ '', got 0x'' @ show_hex_upper8 magic)), r)
          else if version \<noteq> SHM_VERSION
          then Some (Inl (InvalidRegion (''bad version: expected '' @ show_u SHM_VERSION
                 @ '', got '' @ show_u version)), r)
          else if heap_offset + heap_size > r_len r
          then Some (Inl (InvalidRegion
                 (''region '' @ quote (r_name r) @ '' maps '' @ show_u (r_len r)
                    @ '' bytes but its header describes a layout ending at ''
                    @ show_u (heap_offset + heap_size)
                    @ '' (heap_offset='' @ show_u heap_offset @ '', heap_size='' @ show_u heap_size
                    @ ''); the region was created against a larger region_size'')), r)
          else Some (Inr (), r\<lparr>r_num_slots := num_slots, r_heap_offset := heap_offset,
                               r_heap_size := heap_size\<rparr>) }"

section \<open>Reserving a slot\<close>

fun claim_first :: "shm_region \<Rightarrow> usize list \<Rightarrow> 'os world \<Rightarrow> (usize option \<times> 'os world) option" where
  "claim_first r [] w = Some (None, w)"
| "claim_first r (i # is) w =
     do { (res, w') \<leftarrow> cas_status r i SLOT_FREE SLOT_WRITING w;
          case res of
            Inr _ \<Rightarrow> Some (Some i, w')
          | Inl _ \<Rightarrow> claim_first r is w' }"

definition claim_free_slot :: "shm_region \<Rightarrow> 'os world \<Rightarrow> (usize option \<times> 'os world) option" where
  "claim_free_slot r w = claim_first r (slot_indices r) w"

fun find_first_free :: "shm_region \<Rightarrow> usize list \<Rightarrow> 'os world \<Rightarrow> usize option option" where
  "find_first_free r [] w = Some None"
| "find_first_free r (i # is) w =
     do { s \<leftarrow> slot_status r i w;
          if s = SLOT_FREE then Some (Some i) else find_first_free r is w }"

definition find_free_slot :: "shm_region \<Rightarrow> 'os world \<Rightarrow> usize option option" where
  "find_free_slot r w = find_first_free r (slot_indices r) w"

section \<open>Well-formed control regions\<close>

text \<open>
  What \<open>init_control\<close> establishes and every later access relies on: the handle describes its
  mapping, the slot table sits between the header and the heap, and the heap ends inside the
  mapping. \<open>heap_addressable\<close> says that heap offsets fit the \<open>u32\<close> fields of a slot.
\<close>

definition control_region :: "shm_region \<Rightarrow> 'os world \<Rightarrow> bool" where
  "control_region r w \<longleftrightarrow>
     length (mem w (r_ptr r)) = unat (r_len r)
     \<and> unat (r_heap_offset r) = 64 + 128 * unat (r_num_slots r)
     \<and> unat (r_heap_offset r) + unat (r_heap_size r) \<le> unat (r_len r)"

definition heap_addressable :: "shm_region \<Rightarrow> bool" where
  "heap_addressable r \<longleftrightarrow> unat (r_heap_size r) \<le> 2 ^ 32"

definition slot_start :: "usize \<Rightarrow> nat" where
  "slot_start i = 64 + 128 * unat i"

lemma control_regionD:
  assumes "control_region r w"
  shows "length (mem w (r_ptr r)) = unat (r_len r)"
    and "unat (r_heap_offset r) = 64 + 128 * unat (r_num_slots r)"
    and "64 + 128 * unat (r_num_slots r) + unat (r_heap_size r) \<le> length (mem w (r_ptr r))"
    and "64 + 128 * unat (r_num_slots r) + unat (r_heap_size r) < usize_limit"
  using assms unat_less_limit [of "r_len r"] by (simp_all add: control_region_def)

lemma control_region_put [frame_simps]:
  "off + length bs \<le> length (mem w (r_ptr r)) \<Longrightarrow> s = r_ptr r \<Longrightarrow>
   control_region r (put s off bs w) \<longleftrightarrow> control_region r w"
  by (simp add: control_region_def length_splice)

lemma control_region_bytes:
  "length (mem w' (r_ptr r)) = length (mem w (r_ptr r)) \<Longrightarrow> control_region r w \<Longrightarrow> control_region r w'"
  by (simp add: control_region_def)

lemma slot_base_eq:
  assumes "control_region r w" and "unat i < unat (r_num_slots r)"
  shows "slot_base i = slot_start i"
    and "slot_start i + 128 \<le> 64 + 128 * unat (r_num_slots r)"
    and "slot_start i + 128 \<le> length (mem w (r_ptr r))"
proof -
  note D = control_regionD [OF assms(1)]
  have "128 * unat i + 128 \<le> 128 * unat (r_num_slots r)" using assms(2) by simp
  then show ends: "slot_start i + 128 \<le> 64 + 128 * unat (r_num_slots r)"
    by (simp add: slot_start_def)
  with D(3) show "slot_start i + 128 \<le> length (mem w (r_ptr r))" by simp
  have m: "unat (i * 128) = unat i * 128"
    using D(4) ends by (subst unat_mult_exact) (simp_all add: slot_start_def)
  show "slot_base i = slot_start i"
    using D(4) ends m
    by (simp add: slot_base_def protocol_consts slot_start_def unat_add_exact)
qed

lemma slot_start_mod4 [simp]: "slot_start i mod 4 = 0" "(slot_start i + 4 * k) mod 4 = 0"
  by (simp_all add: slot_start_def)

lemma status_ops:
  assumes "control_region r w" and "unat i < unat (r_num_slots r)"
  shows "slot_status r i w = Some (get_u32 (slot_start i) (mem w (r_ptr r)))"
    and "store_status r i v w = Some (put (r_ptr r) (slot_start i) (le32 v) w)"
    and "cas_status r i cur new w =
      (if get_u32 (slot_start i) (mem w (r_ptr r)) = cur
       then Some (Inr cur, put (r_ptr r) (slot_start i) (le32 new) w)
       else Some (Inl (get_u32 (slot_start i) (mem w (r_ptr r))), w))"
  using slot_base_eq [OF assms]
  by (simp_all add: slot_status_def store_status_def cas_status_def mem_simps)

abbreviation status_at :: "shm_region \<Rightarrow> usize \<Rightarrow> 'os world \<Rightarrow> u32" where
  "status_at r i w \<equiv> get_u32 (slot_start i) (mem w (r_ptr r))"

section \<open>Lemmas: heap accesses\<close>

lemma checked_end:
  "(case checked_add (ucast (offset :: u32)) (len :: usize) of Some e \<Rightarrow> if e \<le> lim then a else b | None \<Rightarrow> b)
   = (if unat offset + unat len \<le> unat lim then a else b)"
proof -
  show ?thesis
  proof (cases "checked_add (ucast offset) len")
    case None
    then have "usize_limit \<le> unat offset + unat len" by (simp add: checked_add_eq_None)
    then have "\<not> unat offset + unat len \<le> unat lim" using unat_less_limit [of lim] by linarith
    with None show ?thesis by simp
  next
    case (Some e)
    then have "unat e = unat offset + unat len" by (simp add: checked_add_eq_Some)
    with Some show ?thesis by (simp add: word_le_nat_alt)
  qed
qed

definition heap_end_ok :: "shm_region \<Rightarrow> 'os world \<Rightarrow> bool" where
  "heap_end_ok r w \<longleftrightarrow> unat (r_heap_offset r) + unat (r_heap_size r) \<le> length (mem w (r_ptr r))"

lemma control_heap_end: "control_region r w \<Longrightarrow> heap_end_ok r w"
  by (simp add: control_region_def heap_end_ok_def)

lemma heap_read_checked_in:
  assumes "heap_end_ok r w" and "unat offset + unat len \<le> unat (r_heap_size r)"
  shows "heap_read_checked r offset len w =
    Some (Inr (slice (unat (r_heap_offset r) + unat offset) (unat len) (mem w (r_ptr r))))"
  using assms
  by (simp add: heap_read_checked_def checked_end heap_read_def mem_read_in heap_end_ok_def Let_def)

lemma heap_read_checked_out:
  "\<not> unat offset + unat len \<le> unat (r_heap_size r) \<Longrightarrow>
   \<exists>msg. heap_read_checked r offset len w = Some (Inl (InvalidRegion msg))"
  by (simp add: heap_read_checked_def checked_end Let_def)

lemma heap_write_checked_in:
  assumes "heap_end_ok r w" and "slice_len_ok data" and "unat offset + length data \<le> unat (r_heap_size r)"
  shows "heap_write_checked r offset data w =
    Some (Inr (), put (r_ptr r) (unat (r_heap_offset r) + unat offset) data w)"
  using assms
  by (simp add: heap_write_checked_def checked_end heap_write_def mem_write_in heap_end_ok_def Let_def)

lemma heap_write_checked_out:
  "slice_len_ok data \<Longrightarrow> \<not> unat offset + length data \<le> unat (r_heap_size r) \<Longrightarrow>
   \<exists>msg. heap_write_checked r offset data w = Some (Inl (InvalidRegion msg), w)"
  by (simp add: heap_write_checked_def checked_end Let_def)

section \<open>Lemmas: scanning the slots\<close>

lemma slot_indices_set: "i \<in> set (slot_indices r) \<longleftrightarrow> unat i < unat (r_num_slots r)"
proof
  assume "i \<in> set (slot_indices r)"
  then obtain k where "k < unat (r_num_slots r)" "i = usize_of k" by (auto simp: slot_indices_def)
  then show "unat i < unat (r_num_slots r)"
    using unat_less_limit [of "r_num_slots r"] by simp
next
  assume "unat i < unat (r_num_slots r)"
  then have "usize_of (unat i) \<in> usize_of ` {0 ..< unat (r_num_slots r)}" by (intro imageI) simp
  then show "i \<in> set (slot_indices r)" by (simp add: slot_indices_def)
qed

lemma slot_start_inject [simp]: "slot_start i = slot_start j \<longleftrightarrow> i = j"
  by (simp add: slot_start_def word_unat_eq_iff)

lemma slot_starts_apart:
  "i \<noteq> j \<Longrightarrow> slot_start i + 128 \<le> slot_start j \<or> slot_start j + 128 \<le> slot_start i"
proof -
  assume "i \<noteq> j"
  then have "unat i < unat j \<or> unat j < unat i" by (metis linorder_neqE_nat word_unat_eq_iff)
  then show ?thesis by (auto simp: slot_start_def)
qed

text \<open>The scan of \<open>claim_free_slot\<close> over any list of indices takes the first free one.\<close>

lemma claim_first_eq:
  assumes "control_region r w" and "\<And>i. i \<in> set is \<Longrightarrow> unat i < unat (r_num_slots r)"
  shows "claim_first r is w =
    (case find (\<lambda>i. status_at r i w = SLOT_FREE) is of
       None \<Rightarrow> Some (None, w)
     | Some i \<Rightarrow> Some (Some i, put (r_ptr r) (slot_start i) (le32 SLOT_WRITING) w))"
  using assms(2)
proof (induction "is")
  case (Cons i "is")
  then have "unat i < unat (r_num_slots r)" by simp
  note ops = status_ops [OF assms(1) this]
  show ?case using Cons by (simp add: ops)
qed simp

lemma find_first_free_eq:
  assumes "control_region r w" and "\<And>i. i \<in> set is \<Longrightarrow> unat i < unat (r_num_slots r)"
  shows "find_first_free r is w = Some (find (\<lambda>i. status_at r i w = SLOT_FREE) is)"
  using assms(2)
proof (induction "is")
  case (Cons i "is")
  then have "unat i < unat (r_num_slots r)" by simp
  note ops = status_ops [OF assms(1) this]
  show ?case using Cons by (simp add: ops)
qed simp

lemma any_inflight_eq:
  assumes "control_region r w" and "\<And>i. i \<in> set is \<Longrightarrow> unat i < unat (r_num_slots r)"
  shows "any_inflight r is w = Some (\<exists>i \<in> set is. status_at r i w \<noteq> SLOT_FREE)"
  using assms(2)
proof (induction "is")
  case (Cons i "is")
  then have "unat i < unat (r_num_slots r)" by simp
  note ops = status_ops [OF assms(1) this]
  show ?case using Cons by (simp add: ops)
qed simp

lemma has_inflight_eq:
  "control_region r w \<Longrightarrow>
   has_inflight_slots r w = Some (\<exists>i. unat i < unat (r_num_slots r) \<and> status_at r i w \<noteq> SLOT_FREE)"
  unfolding has_inflight_slots_def
  by (subst any_inflight_eq) (auto simp: slot_indices_set)

text \<open>The index found is the least one that satisfies the predicate.\<close>

lemma find_upt_least:
  "find P (map f [0 ..< n]) = Some x \<longleftrightarrow> (\<exists>k < n. x = f k \<and> P (f k) \<and> (\<forall>j < k. \<not> P (f j)))"
  by (auto simp: find_Some_iff)

lemma find_indices_least:
  assumes "find P (slot_indices r) = Some i"
  shows "unat i < unat (r_num_slots r)" and "P i"
    and "\<And>j. unat j < unat i \<Longrightarrow> \<not> P j"
proof -
  obtain k where k: "k < unat (r_num_slots r)" "i = usize_of k" "P i" "\<forall>j < k. \<not> P (usize_of j)"
    using assms by (auto simp: slot_indices_def find_upt_least)
  have "unat i = k" using k(1,2) unat_less_limit [of "r_num_slots r"] by simp
  with k show "unat i < unat (r_num_slots r)" and "P i" by simp_all
  show "\<not> P j" if "unat j < unat i" for j
    using k(4) that \<open>unat i = k\<close> by (metis usize_of_unat)
qed

lemma find_indices_None:
  "find P (slot_indices r) = None \<longleftrightarrow> (\<forall>i. unat i < unat (r_num_slots r) \<longrightarrow> \<not> P i)"
  by (auto simp: find_None_iff slot_indices_set)

end
