(* ===== verification/Control.thy ===== *)
theory Control
  imports Region
begin

text \<open>
  Properties of the control region: \<open>init_control\<close> refuses a layout its mapping cannot hold and
  otherwise produces a well-formed region whose header a peer's \<open>validate_control\<close> reads back;
  the checked heap accesses never leave the mapping; reserving a slot takes the first free one; and
  the retired bump allocator hands out disjoint ranges.
\<close>

section \<open>Initialisation\<close>

definition init_region :: "config \<Rightarrow> shm_region \<Rightarrow> shm_region" where
  "init_region c r =
     (let (heap_offset, heap_size) = compute_layout (cfg_num_slots c) (cfg_region_size c)
      in r\<lparr>r_num_slots := cfg_num_slots c, r_heap_offset := heap_offset, r_heap_size := heap_size\<rparr>)"

definition layout_needs :: "config \<Rightarrow> nat" where
  "layout_needs c = max (64 + 128 * unat (cfg_num_slots c)) (unat (cfg_region_size c))"

definition slots_fit :: "config \<Rightarrow> bool" where
  "slots_fit c \<longleftrightarrow> 64 + 128 * unat (cfg_num_slots c) < usize_limit"

definition header_bytes :: "shm_region \<Rightarrow> bytes" where
  "header_bytes r =
     splice 20 (le32 0) (splice 16 (le32 (ucast (r_heap_size r)))
       (splice 12 (le32 (ucast (r_heap_offset r))) (splice 8 (le32 (ucast (r_num_slots r)))
         (splice 4 (le32 SHM_VERSION) (splice 0 (le32 SHM_MAGIC) (replicate (unat (r_len r)) 0))))))"

lemma layout_sum:
  assumes "slots_fit c" and "compute_layout (cfg_num_slots c) (cfg_region_size c) = (off, sz)"
  shows "unat (off + sz) = layout_needs c" and "unat off + unat sz = layout_needs c"
proof -
  note e = compute_layout_exact [OF assms(1) [unfolded slots_fit_def] assms(2)]
  have "unat off + unat sz = layout_needs c" using e by (simp add: layout_needs_def)
  moreover have "layout_needs c < usize_limit"
    using assms(1) unat_less_limit [of "cfg_region_size c"] by (simp add: layout_needs_def slots_fit_def)
  ultimately show "unat (off + sz) = layout_needs c" and "unat off + unat sz = layout_needs c"
    by (simp_all add: unat_add_exact)
qed

lemma init_control_too_small:
  assumes "slots_fit c" and "unat (r_len r) < layout_needs c"
  shows "\<exists>msg. init_control c r w = Some (Inl (InvalidRegion msg), r, w)"
proof -
  obtain off sz where l: "compute_layout (cfg_num_slots c) (cfg_region_size c) = (off, sz)"
    by fastforce
  have "off + sz > r_len r" using layout_sum(1) [OF assms(1) l] assms(2) by (simp add: word_less_nat_alt)
  then show ?thesis by (simp add: init_control_def l Let_def)
qed

lemma init_control_fits:
  assumes fit: "slots_fit c" and len: "length (mem w (r_ptr r)) = unat (r_len r)"
    and big: "layout_needs c \<le> unat (r_len r)"
  shows "init_control c r w =
    Some (Inr (), init_region c r,
          w\<lparr>mem := (mem w)(r_ptr r := header_bytes (init_region c r))\<rparr>)"
proof -
  obtain off sz where l: "compute_layout (cfg_num_slots c) (cfg_region_size c) = (off, sz)"
    by fastforce
  have no: "\<not> off + sz > r_len r"
    using layout_sum(1) [OF fit l] big by (simp add: word_less_nat_alt)
  have "64 \<le> unat (r_len r)" using big by (simp add: layout_needs_def)
  then show ?thesis
    using no len
    by (simp add: init_control_def init_region_def header_bytes_def l Let_def mem_simps slice_simps
        slice_full_splice put_def)
qed

lemma length_header_bytes: "64 \<le> unat (r_len r) \<Longrightarrow> length (header_bytes r) = unat (r_len r)"
  by (simp add: header_bytes_def slice_simps)

lemma header_bytes_get:
  assumes "64 \<le> unat (r_len r)"
  shows "get_u32 0 (header_bytes r) = SHM_MAGIC" "get_u32 4 (header_bytes r) = SHM_VERSION"
    "get_u32 8 (header_bytes r) = ucast (r_num_slots r)"
    "get_u32 12 (header_bytes r) = ucast (r_heap_offset r)"
    "get_u32 16 (header_bytes r) = ucast (r_heap_size r)"
    "get_u32 20 (header_bytes r) = 0"
  using assms by (simp_all add: header_bytes_def slice_simps)

lemma slice_replicate: "off + n \<le> m \<Longrightarrow> slice off n (replicate m x) = replicate n x"
  by (simp add: slice_def min_def)

lemma of_le32_zeros: "of_le32 (replicate 4 0) = 0"
  by (simp add: of_le32_def numeral_eq_Suc)

lemma header_bytes_zero:
  assumes "64 \<le> p" and "p + 4 \<le> unat (r_len r)"
  shows "get_u32 p (header_bytes r) = 0"
  using assms
  by (simp add: header_bytes_def slice_simps) (simp add: get_u32_def slice_replicate of_le32_zeros)

lemma init_region_layout:
  assumes "slots_fit c"
  shows "unat (r_heap_offset (init_region c r)) = 64 + 128 * unat (cfg_num_slots c)"
    and "unat (r_heap_offset (init_region c r)) + unat (r_heap_size (init_region c r)) = layout_needs c"
    and "r_num_slots (init_region c r) = cfg_num_slots c"
    and "r_ptr (init_region c r) = r_ptr r" and "r_len (init_region c r) = r_len r"
    and "r_name (init_region c r) = r_name r" and "r_shmem (init_region c r) = r_shmem r"
proof -
  obtain off sz where l: "compute_layout (cfg_num_slots c) (cfg_region_size c) = (off, sz)"
    by fastforce
  note e = compute_layout_exact [OF assms(1) [unfolded slots_fit_def] l] layout_sum(2) [OF assms l]
  show "unat (r_heap_offset (init_region c r)) = 64 + 128 * unat (cfg_num_slots c)"
    and "unat (r_heap_offset (init_region c r)) + unat (r_heap_size (init_region c r)) = layout_needs c"
    using e by (simp_all add: init_region_def l)
qed (simp_all add: init_region_def split_beta)

text \<open>The typed view of the header agrees with the bytes \<open>init_control\<close> has written one by one.\<close>

lemma header_initialised:
  assumes "slots_fit c" and "length (mem w (r_ptr r)) = unat (r_len r)" and "layout_needs c \<le> unat (r_len r)"
    and "init_control c r w = Some (Inr (), r', w')"
  shows "region_header r' w' = Some \<lparr>h_magic = SHM_MAGIC, h_version = SHM_VERSION, h_num_slots = ucast (r_num_slots r'),
    h_heap_offset = ucast (r_heap_offset r'), h_heap_size = ucast (r_heap_size r'), h_alloc_head = 0\<rparr>"
proof -
  have e: "r' = init_region c r" "w' = w\<lparr>mem := (mem w)(r_ptr r := header_bytes r')\<rparr>"
    using init_control_fits [OF assms(1-3)] assms(4) by simp_all
  have l: "64 \<le> unat (r_len r')" "r_ptr r' = r_ptr r"
    using assms(3) init_region_layout(4,5) [OF assms(1), of r] e(1) by (simp_all add: layout_needs_def)
  have "mem w' (r_ptr r') = header_bytes r'" "length (mem w' (r_ptr r')) = unat (r_len r')"
    using e(2) l length_header_bytes by simp_all
  then show ?thesis using header_bytes_get [OF l(1)] l(1) by (simp add: region_header_def mem_simps)
qed

section \<open>A small concrete region\<close>

text \<open>
  One slot and a 64-byte heap in a 256-byte mapping, before and after initialisation: the concrete
  input at which the theorems of this and the following theories are instantiated.
\<close>

definition demo_config :: config where
  "demo_config = default_config\<lparr>cfg_name := ''demo'', cfg_num_slots := 1, cfg_region_size := 256\<rparr>"

definition demo_handle :: "bool \<Rightarrow> shm_region" where
  "demo_handle owner = region_of_shmem ''slotbus-demo''
     \<lparr>shm_seg = 0, shm_addr = 65536, shm_len = 256, shm_owner = owner\<rparr>"

definition demo_blank :: "ref_os world" where
  "demo_blank =
     \<lparr>mem = (\<lambda>_. [])(0 := replicate 256 0),
      ext = \<lparr>ref_names = [''slotbus-demo'' \<mapsto> 0], ref_counts = (\<lambda>_. 0)(0 := 1), ref_next = 1\<rparr>\<rparr>"

definition demo_region :: shm_region where
  "demo_region = init_region demo_config (demo_handle True)"

definition demo_world :: "ref_os world" where
  "demo_world = demo_blank\<lparr>mem := (mem demo_blank)(0 := header_bytes demo_region)\<rparr>"

lemma demo_hyps:
  "slots_fit demo_config" "length (mem demo_blank (r_ptr (demo_handle o1))) = unat (r_len (demo_handle o1))"
  "layout_needs demo_config = 256" "unat (r_len (demo_handle o1)) = 256"
  "r_ptr (demo_handle o1) = 0" "r_len (demo_handle o1) = 256"
  by (simp_all add: slots_fit_def demo_config_def default_config_def demo_blank_def demo_handle_def
      region_of_shmem_def layout_needs_def)

lemma demo_region_fields [simp]:
  "r_num_slots demo_region = 1" "r_heap_offset demo_region = 192" "r_heap_size demo_region = 64"
  "r_ptr demo_region = 0" "r_len demo_region = 256"
  by (simp_all add: demo_region_def init_region_def demo_config_def default_config_def demo_handle_def
      region_of_shmem_def compute_layout_def protocol_consts saturating_sub_def)

lemma demo_init: "init_control demo_config (demo_handle True) demo_blank = Some (Inr (), demo_region, demo_world)"
  using init_control_fits [OF demo_hyps(1,2), of True] demo_hyps
  by (simp add: demo_region_def [symmetric] demo_world_def)

lemma demo_control [simp]: "control_region demo_region demo_world"
  by (simp add: control_region_def demo_world_def length_header_bytes)

lemma init_control_outcome:
  assumes "slots_fit c" and "length (mem w (r_ptr r)) = unat (r_len r)"
  shows "if unat (r_len r) < layout_needs c
    then \<exists>msg. init_control c r w = Some (Inl (InvalidRegion msg), r, w)
    else \<exists>r' w'. init_control c r w = Some (Inr (), r', w')
      \<and> control_region r' w' \<and> r_num_slots r' = cfg_num_slots c
      \<and> unat (r_heap_offset r') + unat (r_heap_size r') = layout_needs c
      \<and> (\<forall>i. unat i < unat (cfg_num_slots c) \<longrightarrow> slot_status r' i w' = Some SLOT_FREE)
      \<and> (\<forall>s. s \<noteq> r_ptr r \<longrightarrow> mem w' s = mem w s) \<and> ext w' = ext w"
proof (cases "unat (r_len r) < layout_needs c")
  case True
  then show ?thesis using init_control_too_small [OF assms(1)] by simp
next
  case False
  let ?r = "init_region c r"
  let ?w = "w\<lparr>mem := (mem w)(r_ptr r := header_bytes ?r)\<rparr>"
  note L = init_region_layout [OF assms(1), of r]
  have len64: "64 \<le> unat (r_len ?r)" using False L by (simp add: layout_needs_def)
  have cr: "control_region ?r ?w"
    using L False len64 by (simp add: control_region_def length_header_bytes)
  have "slot_status ?r i ?w = Some SLOT_FREE" if "unat i < unat (cfg_num_slots c)" for i
  proof -
    have i: "unat i < unat (r_num_slots ?r)" using that L by simp
    have "slot_start i + 4 \<le> unat (r_len ?r)"
      using slot_base_eq(3) [OF cr i] L len64 by (simp add: length_header_bytes)
    then have "get_u32 (slot_start i) (header_bytes ?r) = 0"
      by (intro header_bytes_zero) (simp_all add: slot_start_def)
    then show ?thesis using status_ops(1) [OF cr i] L by (simp add: protocol_consts)
  qed
  then show ?thesis
    using False cr L init_control_fits [OF assms] by simp
qed

text \<open>
  C25: initialising a control region either refuses, with \<open>InvalidRegion\<close> and no effect, exactly when
  the requested layout is larger than the mapping, or succeeds and leaves a well-formed region with
  every slot free and the other segments untouched. (A mapping adopted at a smaller size is never
  given a header that describes more than it holds.)
\<close>

theorem init_control_correct:
  assumes "slots_fit c" and "length (mem w (r_ptr r)) = unat (r_len r)"
  shows "if unat (r_len r) < layout_needs c
    then \<exists>msg. init_control c r w = Some (Inl (InvalidRegion msg), r, w)
    else \<exists>r' w'. init_control c r w = Some (Inr (), r', w')
      \<and> control_region r' w' \<and> r_num_slots r' = cfg_num_slots c
      \<and> unat (r_heap_offset r') + unat (r_heap_size r') = layout_needs c
      \<and> (\<forall>i. unat i < unat (cfg_num_slots c) \<longrightarrow> slot_status r' i w' = Some SLOT_FREE)
      \<and> (\<forall>s. s \<noteq> r_ptr r \<longrightarrow> mem w' s = mem w s) \<and> ext w' = ext w"
  by (rule init_control_outcome [OF assms])

theorem init_control_correct_witness:
  "\<exists>r' w'. init_control demo_config (demo_handle True) demo_blank = Some (Inr (), r', w')
     \<and> control_region r' w'"
  using init_control_correct [OF demo_hyps(1,2), of True] demo_hyps by auto

section \<open>Validation\<close>

definition header_valid :: "bytes \<Rightarrow> nat \<Rightarrow> bool" where
  "header_valid b len \<longleftrightarrow>
     get_u32 0 b = SHM_MAGIC \<and> get_u32 4 b = SHM_VERSION
     \<and> unat (get_u32 12 b) + unat (get_u32 16 b) \<le> len"

lemma header_sum_le:
  "(ucast x + ucast y :: usize) > len \<longleftrightarrow> unat len < unat x + unat y" for x y :: u32
proof -
  have "unat x < 2 ^ 32" "unat y < 2 ^ 32"
    using unsigned_less [of x] unsigned_less [of y] by simp_all
  then have "unat (ucast x + ucast y :: usize) = unat x + unat y" by (subst unat_add_exact) simp_all
  then show ?thesis by (simp add: word_less_nat_alt)
qed

lemma validate_control_ok:
  assumes "20 \<le> length (mem w (r_ptr r))" and "header_valid (mem w (r_ptr r)) (unat (r_len r))"
  shows "validate_control r w = Some (Inr (),
    r\<lparr>r_num_slots := ucast (get_u32 8 (mem w (r_ptr r))),
      r_heap_offset := ucast (get_u32 12 (mem w (r_ptr r))),
      r_heap_size := ucast (get_u32 16 (mem w (r_ptr r)))\<rparr>)"
  using assms by (simp add: validate_control_def mem_simps header_sum_le header_valid_def)

lemma validate_control_reject:
  assumes "20 \<le> length (mem w (r_ptr r))" and "\<not> header_valid (mem w (r_ptr r)) (unat (r_len r))"
  shows "\<exists>msg. validate_control r w = Some (Inl (InvalidRegion msg), r)"
  using assms by (auto simp: validate_control_def mem_simps header_sum_le header_valid_def Let_def)

lemma validate_initialised:
  assumes "slots_fit c" and "length (mem w (r_ptr r)) = unat (r_len r)"
    and "init_control c r w = Some (Inr (), r', w')"
    and "unat (r_len r) < 2 ^ 32"
    and "r_ptr p = r_ptr r" and "r_len p = r_len r"
  shows "\<exists>p'. validate_control p w' = Some (Inr (), p') \<and> control_region p' w'
    \<and> r_num_slots p' = r_num_slots r' \<and> r_heap_offset p' = r_heap_offset r'
    \<and> r_heap_size p' = r_heap_size r'"
proof -
  have big: "layout_needs c \<le> unat (r_len r)"
  proof (rule ccontr)
    assume "\<not> ?thesis"
    then obtain msg where "init_control c r w = Some (Inl (InvalidRegion msg), r, w)"
      using init_control_too_small [OF assms(1), of r w] by auto
    with assms(3) show False by simp
  qed
  have r': "r' = init_region c r" and w': "w' = w\<lparr>mem := (mem w)(r_ptr r := header_bytes r')\<rparr>"
    using init_control_fits [OF assms(1,2) big] assms(3) by simp_all
  note L = init_region_layout [OF assms(1), of r, folded r']
  have len64: "64 \<le> unat (r_len r')" using big L by (simp add: layout_needs_def)
  have cr: "control_region r' w'"
    using L big len64 by (simp add: control_region_def length_header_bytes w')
  have narrow: "unat (ucast x :: u32) = unat x" if "unat x < 2 ^ 32" for x :: usize
    using that by (simp add: unat_narrow)
  have widen: "ucast (ucast x :: u32) = x" if "unat x < 2 ^ 32" for x :: usize
    using narrow [OF that] by (simp add: word_unat_eq_iff)
  have small: "unat (r_num_slots r') < 2 ^ 32" "unat (r_heap_offset r') < 2 ^ 32"
    "unat (r_heap_size r') < 2 ^ 32"
    using L big assms(4) by simp_all
  let ?p = "p\<lparr>r_num_slots := r_num_slots r', r_heap_offset := r_heap_offset r',
              r_heap_size := r_heap_size r'\<rparr>"
  have b: "mem w' (r_ptr p) = header_bytes r'" using assms(5) by (simp add: w')
  have "20 \<le> length (mem w' (r_ptr p))" using len64 by (simp add: b length_header_bytes)
  then have "validate_control p w' = Some (Inr (), ?p)"
    using small L big assms(6)
    by (subst validate_control_ok)
      (simp_all add: b header_valid_def header_bytes_get [OF len64] narrow widen)
  moreover have "control_region ?p w'"
    using cr L assms(5,6) by (simp add: control_region_def)
  ultimately show ?thesis by auto
qed

text \<open>
  C26: a peer that maps the same segment and validates its header, after the creator has initialised it, accepts it and
  reads back exactly the creator's layout, for regions below 4 GiB, which the header's \<open>u32\<close> fields can describe, and
  a slot table that does not wrap around. (\<open>header_truncates_large_heap\<close> is about larger regions.)
\<close>

theorem validate_after_init:
  assumes "slots_fit c" and "length (mem w (r_ptr r)) = unat (r_len r)"
    and "init_control c r w = Some (Inr (), r', w')"
    and "unat (r_len r) < 2 ^ 32"
    and "r_ptr p = r_ptr r" and "r_len p = r_len r"
  shows "\<exists>p'. validate_control p w' = Some (Inr (), p') \<and> control_region p' w'
    \<and> r_num_slots p' = r_num_slots r' \<and> r_heap_offset p' = r_heap_offset r'
    \<and> r_heap_size p' = r_heap_size r'"
  by (rule validate_initialised [OF assms])

theorem validate_after_init_witness:
  "\<exists>p'. validate_control (demo_handle False) demo_world = Some (Inr (), p')
     \<and> r_heap_size p' = r_heap_size demo_region"
  using validate_after_init [OF demo_hyps(1,2) demo_init, of "demo_handle False"] demo_hyps by auto

text \<open>
  Validation accepts a region exactly when its header carries the magic number, the current
  protocol version, and a heap that ends inside the mapping; otherwise it reports \<open>InvalidRegion\<close> and
  leaves the handle without a layout.
\<close>

theorem validate_control_decides:
  assumes "20 \<le> length (mem w (r_ptr r))"
  shows "if get_u32 0 (mem w (r_ptr r)) = SHM_MAGIC \<and> get_u32 4 (mem w (r_ptr r)) = SHM_VERSION
        \<and> unat (get_u32 12 (mem w (r_ptr r))) + unat (get_u32 16 (mem w (r_ptr r))) \<le> unat (r_len r)
    then \<exists>r'. validate_control r w = Some (Inr (), r')
      \<and> unat (r_heap_offset r') + unat (r_heap_size r') \<le> unat (r_len r')
      \<and> unat (r_num_slots r') = unat (get_u32 8 (mem w (r_ptr r)))
    else \<exists>msg. validate_control r w = Some (Inl (InvalidRegion msg), r)"
  using validate_control_ok [OF assms] validate_control_reject [OF assms]
  by (auto simp: header_valid_def)

theorem validate_control_decides_witness:
  "\<exists>msg. validate_control (demo_handle False) demo_blank
     = Some (Inl (InvalidRegion msg), demo_handle False)"
proof -
  have "get_u32 0 (mem demo_blank 0) \<noteq> SHM_MAGIC"
    by (simp add: demo_blank_def get_u32_def slice_replicate of_le32_zeros protocol_consts)
  then show ?thesis
    using validate_control_decides [of demo_blank "demo_handle False"] demo_hyps by simp
qed

text \<open>
  C40: validation does not check that the slot table lies inside the mapping. A header that passes
  every check can announce a slot whose status lies beyond the mapping, and the first scan of the
  slots then leaves it.
\<close>

theorem validate_misses_slot_table:
  "\<exists>(r :: shm_region) (w :: ref_os world) r'. validate_control r w = Some (Inr (), r')
     \<and> length (mem w (r_ptr r)) = unat (r_len r)
     \<and> unat (r_heap_offset r') + unat (r_heap_size r') \<le> unat (r_len r')
     \<and> has_inflight_slots r' w = None \<and> claim_free_slot r' w = None"
proof -
  let ?l = "\<lparr>shm_seg = 1, shm_addr = 0, shm_len = 64, shm_owner = False\<rparr>"
  let ?h = "(region_of_shmem ''r'' ?l)\<lparr>r_num_slots := 1, r_heap_offset := 64\<rparr>"
  let ?w = "ref_world\<lparr>mem := (\<lambda>_. [])(1 := header_bytes ?h)\<rparr>"
  have f: "r_ptr ?h = 1" "r_len ?h = 64" "r_num_slots ?h = 1" "r_heap_offset ?h = 64" "r_heap_size ?h = 0"
    by (simp_all add: region_of_shmem_def)
  have len: "length (header_bytes ?h) = 64" using f by (subst length_header_bytes) simp_all
  have g: "get_u32 0 (header_bytes ?h) = SHM_MAGIC" "get_u32 4 (header_bytes ?h) = SHM_VERSION"
    "get_u32 8 (header_bytes ?h) = 1" "get_u32 12 (header_bytes ?h) = 64"
    "get_u32 16 (header_bytes ?h) = 0"
    using f by (subst header_bytes_get; simp)+
  have v: "validate_control ?h ?w = Some (Inr (), ?h)"
    using len g f by (subst validate_control_ok) (simp_all add: header_valid_def)
  have "slot_status ?h 0 ?w = None" "cas_status ?h 0 SLOT_FREE SLOT_WRITING ?w = None"
    using len f
    by (simp_all add: slot_status_def cas_status_def compare_exchange_def atomic_load_def read_u32_def
        mem_read_def slot_base_def protocol_consts)
  moreover have "slot_indices ?h = [0]" using f by (simp add: slot_indices_def usize_of_def)
  ultimately have "has_inflight_slots ?h ?w = None" "claim_free_slot ?h ?w = None"
    by (simp_all add: has_inflight_slots_def claim_free_slot_def)
  then show ?thesis using v len f by (intro exI [of _ ?h] exI [of _ ?w]) simp
qed

section \<open>Checked heap accesses\<close>

text \<open>
  A checked heap access never leaves the mapping of a region whose heap ends inside it, whatever
  offset and length it is given: it succeeds exactly when the range lies in the heap, and otherwise
  reports \<open>InvalidRegion\<close> without touching a byte. A write is read back, and changes only the bytes of
  its range.
\<close>

theorem checked_heap_access_safe:
  assumes "unat (r_heap_offset r) + unat (r_heap_size r) \<le> length (mem w (r_ptr r))"
    and "slice_len_ok data"
  shows "(heap_read_checked r offset len w \<noteq> None \<and> heap_write_checked r offset data w \<noteq> None)
    \<and> ((\<exists>bs. heap_read_checked r offset len w = Some (Inr bs)) \<longleftrightarrow>
      unat offset + unat len \<le> unat (r_heap_size r))
    \<and> (if unat offset + length data \<le> unat (r_heap_size r)
      then \<exists>w'. heap_write_checked r offset data w = Some (Inr (), w')
        \<and> heap_read_checked r offset (usize_of (length data)) w' = Some (Inr data)
        \<and> (\<forall>p n. p + n \<le> unat (r_heap_offset r) + unat offset
              \<or> unat (r_heap_offset r) + unat offset + length data \<le> p \<longrightarrow>
              mem_read (r_ptr r) p n w' = mem_read (r_ptr r) p n w)
      else \<exists>msg. heap_write_checked r offset data w = Some (Inl (InvalidRegion msg), w))"
proof (intro conjI)
  have ok: "heap_end_ok r w" using assms(1) by (simp add: heap_end_ok_def)
  show "heap_read_checked r offset len w \<noteq> None"
    using heap_read_checked_in [OF ok, of offset len] heap_read_checked_out [of offset len r w] by fastforce
  show "heap_write_checked r offset data w \<noteq> None"
    using heap_write_checked_in [OF ok assms(2), of offset] heap_write_checked_out [OF assms(2), of offset r w]
    by fastforce
  show "(\<exists>bs. heap_read_checked r offset len w = Some (Inr bs)) \<longleftrightarrow>
      unat offset + unat len \<le> unat (r_heap_size r)"
    using heap_read_checked_in [OF ok, of offset len] heap_read_checked_out [of offset len r w] by fastforce
  let ?a = "unat (r_heap_offset r) + unat offset"
  show "if unat offset + length data \<le> unat (r_heap_size r)
      then \<exists>w'. heap_write_checked r offset data w = Some (Inr (), w')
        \<and> heap_read_checked r offset (usize_of (length data)) w' = Some (Inr data)
        \<and> (\<forall>p n. p + n \<le> ?a \<or> ?a + length data \<le> p \<longrightarrow>
              mem_read (r_ptr r) p n w' = mem_read (r_ptr r) p n w)
      else \<exists>msg. heap_write_checked r offset data w = Some (Inl (InvalidRegion msg), w)"
  proof (cases "unat offset + length data \<le> unat (r_heap_size r)")
    case True
    let ?w = "put (r_ptr r) ?a data w"
    have fits: "?a + length data \<le> length (mem w (r_ptr r))" using True assms(1) by simp
    have w: "mem_write (r_ptr r) ?a data w = Some ?w" using fits by (rule mem_write_in)
    have "heap_end_ok r ?w" using ok fits by (simp add: heap_end_ok_def length_splice)
    then have "heap_read_checked r offset (usize_of (length data)) ?w = Some (Inr data)"
      using True assms(2) fits by (subst heap_read_checked_in) (simp_all add: slice_splice_same)
    then show ?thesis
      using True heap_write_checked_in [OF ok assms(2) True] seg_store.rd_wr_other [OF w] by auto
  next
    case False
    then show ?thesis using heap_write_checked_out [OF assms(2)] by simp
  qed
qed

theorem checked_heap_access_safe_witness:
  "heap_read_checked demo_region 4294967295 18446744073709551615 demo_world \<noteq> None"
  using checked_heap_access_safe [of demo_region demo_world "[]"] control_regionD [OF demo_control]
  by (simp add: slice_len_ok_def)

section \<open>Reserving a slot\<close>

text \<open>
  \<open>claim_free_slot\<close> returns the lowest free slot, marks it \<open>Writing\<close> and changes nothing else; it
  returns \<open>None\<close>, and changes nothing, exactly when no slot is free.
\<close>

theorem claim_free_slot_correct:
  assumes "control_region r w"
  shows "\<exists>res w'. claim_free_slot r w = Some (res, w') \<and> (case res of
      None \<Rightarrow> w' = w \<and> (\<forall>i. unat i < unat (r_num_slots r) \<longrightarrow> slot_status r i w \<noteq> Some SLOT_FREE)
    | Some i \<Rightarrow> unat i < unat (r_num_slots r)
        \<and> slot_status r i w = Some SLOT_FREE \<and> slot_status r i w' = Some SLOT_WRITING
        \<and> (\<forall>j. unat j < unat i \<longrightarrow> slot_status r j w \<noteq> Some SLOT_FREE)
        \<and> (\<forall>j. unat j < unat (r_num_slots r) \<and> j \<noteq> i \<longrightarrow> slot_status r j w' = slot_status r j w)
        \<and> control_region r w')"
proof (cases "find (\<lambda>i. status_at r i w = SLOT_FREE) (slot_indices r)")
  case None
  then have "\<forall>i. unat i < unat (r_num_slots r) \<longrightarrow> status_at r i w \<noteq> SLOT_FREE"
    by (simp add: find_indices_None)
  then show ?thesis
    using claim_first_eq [OF assms, of "slot_indices r"] None
    by (auto simp: claim_free_slot_def slot_indices_set status_ops [OF assms])
next
  case (Some i)
  let ?w = "put (r_ptr r) (slot_start i) (le32 SLOT_WRITING) w"
  note i = find_indices_least [OF Some]
  note B = slot_base_eq [OF assms i(1)]
  have cr: "control_region r ?w" using assms B by (simp add: control_region_put)
  have claim: "claim_free_slot r w = Some (Some i, ?w)"
    using claim_first_eq [OF assms, of "slot_indices r"] Some
    by (simp add: claim_free_slot_def slot_indices_set)
  have "slot_status r j ?w = slot_status r j w" if "unat j < unat (r_num_slots r)" "j \<noteq> i" for j
  proof -
    have "slot_start j + 4 \<le> slot_start i \<or> slot_start i + 4 \<le> slot_start j"
      using slot_starts_apart [OF that(2)] by auto
    then show ?thesis
      using slot_base_eq [OF assms that(1)] B
      by (simp add: status_ops(1) [OF cr that(1)] status_ops(1) [OF assms that(1)] slice_simps)
  qed
  moreover have "slot_status r j w \<noteq> Some SLOT_FREE" if "unat j < unat i" for j
    using i(1) i(3) [OF that] that status_ops(1) [OF assms, of j] by simp
  ultimately show ?thesis
    using claim cr i B by (simp add: status_ops(1) [OF cr i(1)] status_ops(1) [OF assms i(1)] slice_simps)
qed

theorem claim_free_slot_correct_witness:
  "\<exists>w'. claim_free_slot demo_region demo_world = Some (Some 0, w')
     \<and> slot_status demo_region 0 w' = Some SLOT_WRITING"
proof -
  have free: "slot_status demo_region 0 demo_world = Some SLOT_FREE"
    using init_control_outcome [OF demo_hyps(1,2), of True] demo_init demo_hyps
    by (simp add: demo_config_def)
  show ?thesis using claim_free_slot_correct [OF demo_control]
  proof (elim exE conjE, goal_cases)
    case (1 res w')
    then show ?case using free by (cases res) (auto simp: unat_eq_0)
  qed
qed

section \<open>The retired bump allocator\<close>

text \<open>
  While other processes act between the load and the compare-exchange the loop may retry; once they
  stop (from turn \<open>K\<close> on) it ends within one more turn.
\<close>

definition interferes :: "nat \<Rightarrow> nat \<Rightarrow> (nat \<Rightarrow> 'os world \<Rightarrow> 'os world) \<Rightarrow> bool" where
  "interferes seg K others \<longleftrightarrow>
     (\<forall>k w. length (mem (others k w) seg) = length (mem w seg)) \<and> (\<forall>k \<ge> K. \<forall>w. others k w = w)"

definition advances :: "shm_region \<Rightarrow> usize \<Rightarrow> u32 option \<Rightarrow> 'os world \<Rightarrow> bool" where
  "advances r aligned res w' \<longleftrightarrow> (\<forall>head. res = Some head \<longrightarrow>
     unat head + unat aligned \<le> unat (r_heap_size r)
     \<and> unat (get_u32 20 (mem w' (r_ptr r))) = unat head + unat aligned
     \<and> (\<exists>w0. get_u32 20 (mem w0 (r_ptr r)) = head
           \<and> w' = put (r_ptr r) 20 (le32 (ucast (ucast head + aligned))) w0))"

lemma alloc_loop_turn:
  assumes "24 \<le> length (mem w (r_ptr r))" and "length (mem (others k w) (r_ptr r)) = length (mem w (r_ptr r))"
  shows "alloc_heap_loop others k r aligned w =
    (let head = get_u32 20 (mem w (r_ptr r)); new_head = ucast head + aligned in
     if new_head > r_heap_size r then Some (None, w)
     else if get_u32 20 (mem (others k w) (r_ptr r)) = head
     then Some (Some head, put (r_ptr r) 20 (le32 (ucast new_head)) (others k w))
     else alloc_heap_loop others (Suc k) r aligned (others k w))"
  using assms by (subst alloc_heap_loop.simps) (simp add: mem_simps Let_def)

lemma alloc_head_sum:
  assumes "unat aligned + 2 ^ 32 < usize_limit"
  shows "unat (ucast (head :: u32) + aligned :: usize) = unat head + unat aligned"
proof -
  have "unat head < 2 ^ 32" using unsigned_less [of head] by simp
  then show ?thesis using assms by (subst unat_add_exact) simp_all
qed

lemma alloc_heap_loop_ends:
  assumes "interferes (r_ptr r) K others" and "unat (r_heap_size r) < 2 ^ 32"
    and "unat aligned + 2 ^ 32 < usize_limit" and "24 \<le> length (mem w (r_ptr r))"
  shows "\<exists>res w'. alloc_heap_loop others k r aligned w = Some (res, w') \<and> advances r aligned res w'
    \<and> length (mem w' (r_ptr r)) = length (mem w (r_ptr r))"
  using assms(4)
proof (induction "K - k" arbitrary: k w rule: less_induct)
  case less
  have len: "length (mem (others k w) (r_ptr r)) = length (mem w (r_ptr r))"
    using assms(1) by (simp add: interferes_def)
  let ?h = "get_u32 20 (mem w (r_ptr r))"
  note turn = alloc_loop_turn [of w r others k aligned, OF less.prems len]
  note sum = alloc_head_sum [OF assms(3), of ?h]
  consider "ucast ?h + aligned > r_heap_size r"
    | "\<not> ucast ?h + aligned > r_heap_size r" "get_u32 20 (mem (others k w) (r_ptr r)) = ?h"
    | "\<not> ucast ?h + aligned > r_heap_size r" "get_u32 20 (mem (others k w) (r_ptr r)) \<noteq> ?h"
    by blast
  then show ?case
  proof cases
    case 1
    then show ?thesis by (simp add: turn Let_def advances_def)
  next
    case 2
    let ?w = "put (r_ptr r) 20 (le32 (ucast (ucast ?h + aligned :: usize))) (others k w)"
    have fit: "unat ?h + unat aligned \<le> unat (r_heap_size r)"
      using 2(1) sum by (simp add: word_less_nat_alt)
    then have "unat (ucast (ucast ?h + aligned :: usize) :: u32) = unat ?h + unat aligned"
      using sum assms(2) by (simp add: unat_narrow)
    then have "advances r aligned (Some ?h) ?w"
      using fit len less.prems 2(2) by (auto simp: advances_def slice_simps)
    then show ?thesis using 2 len less.prems by (simp add: turn Let_def length_splice)
  next
    case 3
    have "k < K"
    proof (rule ccontr)
      assume "\<not> k < K"
      then have "others k w = w" using assms(1) by (simp add: interferes_def)
      with 3(2) show False by simp
    qed
    then have "K - Suc k < K - k" by simp
    moreover have "24 \<le> length (mem (others k w) (r_ptr r))" using len less.prems by simp
    ultimately have "\<exists>res w'. alloc_heap_loop others (Suc k) r aligned (others k w) = Some (res, w')
        \<and> advances r aligned res w' \<and> length (mem w' (r_ptr r)) = length (mem (others k w) (r_ptr r))"
      by (rule less.hyps)
    then show ?thesis using 3 len by (auto simp: turn Let_def)
  qed
qed

text \<open>
  The bump allocator returns as soon as other processes stop interfering. A successful call
  hands out a range of at least the requested size, 8-byte aligned, inside the heap, and moves the
  head exactly to its end in one atomic step from its start, so successive allocations are disjoint.
\<close>

theorem alloc_heap_correct:
  fixes w :: "'os world"
  assumes "interferes (r_ptr r) K others" and "unat (r_heap_size r) < 2 ^ 32"
    and "unat sz + 7 + 2 ^ 32 < usize_limit" and "24 \<le> length (mem w (r_ptr r))"
  shows "\<exists>res w'. alloc_heap others r sz w = Some (res, w') \<and> (\<forall>head. res = Some head \<longrightarrow>
      unat sz \<le> (unat sz + 7) div 8 * 8 \<and> unat head + (unat sz + 7) div 8 * 8 \<le> unat (r_heap_size r)
      \<and> unat (get_u32 20 (mem w' (r_ptr r))) = unat head + (unat sz + 7) div 8 * 8
      \<and> (\<exists>w0 :: 'os world. get_u32 20 (mem w0 (r_ptr r)) = head \<and> ext w' = ext w0
           \<and> (\<forall>s. s \<noteq> r_ptr r \<longrightarrow> mem w' s = mem w0 s)))"
proof -
  have n: "unat (align_mask8 sz) = (unat sz + 7) div 8 * 8"
    using assms(3) by (simp add: align_mask8_def unat_and_minus_8 unat_add_exact)
  have "(unat sz + 7) div 8 * 8 \<le> unat sz + 7" by simp
  then have "unat (align_mask8 sz) + 2 ^ 32 < usize_limit" using n assms(3) by simp
  from alloc_heap_loop_ends [OF assms(1,2) this assms(4), of 0]
  obtain res w' where "alloc_heap others r sz w = Some (res, w')" "advances r (align_mask8 sz) res w'"
    unfolding alloc_heap_def by blast
  moreover have "unat sz \<le> (unat sz + 7) div 8 * 8" by simp
  moreover have "\<exists>w0 :: 'os world. get_u32 20 (mem w0 (r_ptr r)) = head \<and> ext w' = ext w0
      \<and> (\<forall>s. s \<noteq> r_ptr r \<longrightarrow> mem w' s = mem w0 s)" if some: "res = Some head" for head
  proof -
    obtain w0 where "get_u32 20 (mem w0 (r_ptr r)) = head"
      "w' = put (r_ptr r) 20 (le32 (ucast (ucast head + align_mask8 sz))) w0"
      using \<open>advances r (align_mask8 sz) res w'\<close> some unfolding advances_def by blast
    then show ?thesis by (intro exI [of _ w0]) simp
  qed
  ultimately show ?thesis by (intro exI [of _ res] exI [of _ w']) (simp add: advances_def n)
qed

theorem alloc_heap_correct_witness:
  "\<exists>res w'. alloc_heap (\<lambda>k w. w) demo_region 10 demo_world = Some (res, w')"
  using alloc_heap_correct [of demo_region 0 "\<lambda>k w. w" 10 demo_world] control_regionD(1) [OF demo_control]
  by (auto simp: interferes_def)

section \<open>Layouts beyond the header's fields\<close>

text \<open>
  The header stores the layout in \<open>u32\<close> fields and the code narrows without a check. A region of
  more than 4 GiB is initialised without an error, with a heap as large as asked, but a peer that
  validates it accepts a heap 4 GiB smaller (or more), so the two sides disagree about every arena.
\<close>

theorem header_truncates_large_heap:
  assumes "slots_fit c" and "length (mem w (r_ptr r)) = unat (r_len r)"
    and "layout_needs c \<le> unat (r_len r)" and "64 + 128 * unat (cfg_num_slots c) < 2 ^ 32"
    and "2 ^ 32 \<le> layout_needs c - (64 + 128 * unat (cfg_num_slots c))"
    and "r_ptr p = r_ptr r" and "r_len p = r_len r"
  shows "\<exists>r' w' p'. init_control c r w = Some (Inr (), r', w') \<and> validate_control p w' = Some (Inr (), p')
    \<and> r_num_slots p' = r_num_slots r'
    \<and> unat (r_heap_size p') = unat (r_heap_size r') mod 2 ^ 32 \<and> r_heap_size p' \<noteq> r_heap_size r'"
proof -
  let ?r = "init_region c r"
  let ?w = "w\<lparr>mem := (mem w)(r_ptr r := header_bytes ?r)\<rparr>"
  note L = init_region_layout [OF assms(1), of r]
  have i: "init_control c r w = Some (Inr (), ?r, ?w)" by (rule init_control_fits [OF assms(1-3)])
  have len64: "64 \<le> unat (r_len ?r)" using assms(3) L by (simp add: layout_needs_def)
  have b: "mem ?w (r_ptr p) = header_bytes ?r" using assms(6) by simp
  have small: "unat (r_num_slots ?r) < 2 ^ 32" "unat (r_heap_offset ?r) < 2 ^ 32" using assms(4) L by simp_all
  have hs: "2 ^ 32 \<le> unat (r_heap_size ?r)" using assms(5) L by simp
  have u: "unat (ucast (ucast x :: u32) :: usize) = unat x mod 2 ^ 32" for x :: usize
    by (simp add: unat_narrow)
  have le: "unat (r_heap_size ?r) mod 2 ^ 32 \<le> unat (r_heap_size ?r)" by simp
  have tot: "unat (r_heap_offset ?r) + unat (r_heap_size ?r) mod 2 ^ 32 \<le> unat (r_len r)"
    using L(2) le assms(3) by linarith
  have "header_valid (mem ?w (r_ptr p)) (unat (r_len p))"
    using tot small unfolding b header_valid_def header_bytes_get [OF len64]
    by (simp add: unat_narrow assms(7))
  then have v: "validate_control p ?w = Some (Inr (),
      p\<lparr>r_num_slots := ucast (ucast (r_num_slots ?r) :: u32), r_heap_offset := ucast (ucast (r_heap_offset ?r) :: u32),
        r_heap_size := ucast (ucast (r_heap_size ?r) :: u32)\<rparr>)"
    using len64 validate_control_ok [of ?w p] unfolding b header_bytes_get [OF len64]
    by (simp add: length_header_bytes)
  have "unat (r_heap_size ?r) mod 2 ^ 32 < 2 ^ 32" by simp
  with hs have "unat (r_heap_size ?r) mod 2 ^ 32 \<noteq> unat (r_heap_size ?r)" by linarith
  then have "(ucast (ucast (r_heap_size ?r) :: u32) :: usize) \<noteq> r_heap_size ?r" using u by metis
  moreover have "(ucast (ucast (r_num_slots ?r) :: u32) :: usize) = r_num_slots ?r"
    using small(1) u [of "r_num_slots ?r"] by (simp add: word_unat_eq_iff)
  ultimately show ?thesis using i v u [of "r_heap_size ?r"] by auto
qed

definition giant_config :: config where
  "giant_config = default_config\<lparr>cfg_name := ''g'', cfg_num_slots := 1, cfg_region_size := 5368709120\<rparr>"

definition giant_handle :: shm_region where
  "giant_handle = region_of_shmem ''slotbus-g'' \<lparr>shm_seg = 0, shm_addr = 0, shm_len = 5368709120, shm_owner = True\<rparr>"

theorem header_truncates_large_heap_witness:
  "\<exists>w r' (w' :: ref_os world) p'. init_control giant_config giant_handle w = Some (Inr (), r', w')
     \<and> validate_control giant_handle w' = Some (Inr (), p') \<and> r_heap_size p' \<noteq> r_heap_size r'"
proof -
  let ?w = "ref_world\<lparr>mem := (\<lambda>_. replicate (unat (r_len giant_handle)) 0)\<rparr>"
  have f: "slots_fit giant_config" "layout_needs giant_config = 5368709120"
    "unat (r_len giant_handle) = 5368709120" "unat (cfg_num_slots giant_config) = 1"
    by (simp_all add: slots_fit_def layout_needs_def giant_config_def default_config_def giant_handle_def
        region_of_shmem_def)
  have "length (mem ?w (r_ptr giant_handle)) = unat (r_len giant_handle)" by simp
  from header_truncates_large_heap [OF f(1) this, of giant_handle] f show ?thesis by auto
qed

end
