(* ===== verification/Overflow.thy ===== *)
theory Overflow
  imports Control
begin

text \<open>
  The overflow regions (\<^verbatim>\<open>slotbus/src/region.rs\<close>, the static helpers of \<^verbatim>\<open>ShmRegion\<close>): reclaiming an
  orphaned backing file on Windows, exclusive creation, the generation walk, and reading a region
  back. The lemmas show that a created region is new, large enough and filled with the data, that
  the walk stops at the first generation that is free, and that no call touches a segment someone
  else holds.
\<close>

section \<open>Backing files\<close>

definition overflow_size_for :: "usize \<Rightarrow> usize" where
  "overflow_size_for len = max ((len + 4095) AND NOT 4095) 4096"

text \<open>
  \<^verbatim>\<open>Path::components\<close> on Windows, as far as \<open>backing_file_path\<close> looks: a drive prefix, a root (a path
  that starts with a separator; \<^verbatim>\<open>\\server\share\<close> forms start with one too and are not told apart
  here), then the parts between separators, without empty ones and without \<^verbatim>\<open>.\<close> except at the start.
\<close>

datatype path_component =
  PrefixComponent | RootDir | CurDir | ParentDir | NormalComponent string

definition is_separator :: "char \<Rightarrow> bool" where
  "is_separator c \<longleftrightarrow> c = CHR ''/'' \<or> c = CHR 0x5C"

fun split_separators :: "string \<Rightarrow> string list" where
  "split_separators [] = [[]]"
| "split_separators (c # cs) =
     (if is_separator c then [] # split_separators cs
      else case split_separators cs of [] \<Rightarrow> [[c]] | p # ps \<Rightarrow> (c # p) # ps)"

definition is_ascii_letter :: "char \<Rightarrow> bool" where
  "is_ascii_letter c \<longleftrightarrow> (let n = (of_char c :: nat) in 65 \<le> n \<and> n \<le> 90 \<or> 97 \<le> n \<and> n \<le> 122)"

fun has_drive :: "string \<Rightarrow> bool" where
  "has_drive (a # b # _) = (is_ascii_letter a \<and> b = CHR '':'')"
| "has_drive _ = False"

fun part_component :: "string \<Rightarrow> path_component list" where
  "part_component p =
     (if p = [] \<or> p = ''.'' then [] else if p = ''..'' then [ParentDir] else [NormalComponent p])"

definition components :: "string \<Rightarrow> path_component list" where
  "components s =
     (if has_drive s
      then PrefixComponent #
        (case drop 2 s of c # _ \<Rightarrow> if is_separator c then [RootDir] else [] | [] \<Rightarrow> [])
        @ concat (map part_component (split_separators (drop 2 s)))
      else case s of
        [] \<Rightarrow> []
      | c # _ \<Rightarrow>
          if is_separator c then RootDir # concat (map part_component (split_separators s))
          else let parts = split_separators s
               in (if hd parts = ''.'' then [CurDir] else []) @ concat (map part_component parts))"

definition backing_file_dir :: "'os externals \<Rightarrow> 'os world \<Rightarrow> file_path" where
  "backing_file_dir X w = temp_dir X w @ [''shared_memory-rs'']"

definition trim_start_slashes :: "string \<Rightarrow> string" where
  "trim_start_slashes s = dropWhile (\<lambda>c. c = CHR ''/'') s"

text \<open>
  A path is the list of its components, as \<^verbatim>\<open>PathBuf\<close> compares and normalises them: joining the trimmed name, which
  may end in a separator or in \<^verbatim>\<open>/.\<close>, adds its one component.
\<close>

definition backing_file_path :: "'os externals \<Rightarrow> string \<Rightarrow> 'os world \<Rightarrow> file_path option" where
  "backing_file_path X name w =
     (case components (trim_start_slashes name) of
        [NormalComponent p] \<Rightarrow> Some (backing_file_dir X w @ [p])
      | _ \<Rightarrow> None)"

definition path_parent :: "file_path \<Rightarrow> file_path option" where
  "path_parent p = (if p = [] then None else Some (butlast p))"

definition reclaim_orphaned_backing_file ::
  "platform \<Rightarrow> 'os externals \<Rightarrow> string \<Rightarrow> 'os world \<Rightarrow> bool \<times> 'os world" where
  "reclaim_orphaned_backing_file pl X name w =
     (case pl of
        Windows \<Rightarrow>
          (case backing_file_path X name w of
             None \<Rightarrow> (False, w)
           | Some p \<Rightarrow>
               (case (canonicalize X p w, canonicalize X (backing_file_dir X w) w) of
                  (Some resolved, Some dir) \<Rightarrow>
                    if path_parent resolved \<noteq> Some dir then (False, w)
                    else delete_if_unshared X resolved w
                | _ \<Rightarrow> (False, w)))
      | _ \<Rightarrow> (False, w))"

section \<open>Exclusive creation\<close>

definition try_create_exclusive ::
  "'os externals \<Rightarrow> string \<Rightarrow> usize \<Rightarrow> 'os world \<Rightarrow> shm_region option result \<times> 'os world" where
  "try_create_exclusive X name sz w =
     (case shmem_create X name sz w of
        (Inr shmem, w') \<Rightarrow> (Inr (Some (region_of_shmem name shmem)), w')
      | (Inl MappingIdExists, w') \<Rightarrow> (Inr None, w')
      | (Inl e, w') \<Rightarrow>
          (Inl (SharedMemory (''create '' @ quote name @ '': '' @ show_shmem_error X e)), w'))"

definition create_exclusive ::
  "platform \<Rightarrow> 'os externals \<Rightarrow> string \<Rightarrow> usize \<Rightarrow> 'os world \<Rightarrow> shm_region option result \<times> 'os world" where
  "create_exclusive pl X name sz w =
     (case try_create_exclusive X name sz w of
        (Inl e, w') \<Rightarrow> (Inl e, w')
      | (Inr (Some region), w') \<Rightarrow> (Inr (Some region), w')
      | (Inr None, w') \<Rightarrow>
          (case reclaim_orphaned_backing_file pl X name w' of
             (True, w'') \<Rightarrow> try_create_exclusive X name sz w''
           | (False, w'') \<Rightarrow> (Inr None, w'')))"

definition create_or_open ::
  "platform \<Rightarrow> 'os externals \<Rightarrow> string \<Rightarrow> usize \<Rightarrow> 'os world \<Rightarrow> shm_region result \<times> 'os world" where
  "create_or_open pl X name sz w =
     (case create_exclusive pl X name sz w of
        (Inl e, w') \<Rightarrow> (Inl e, w')
      | (Inr (Some region), w') \<Rightarrow> (Inr region, w')
      | (Inr None, w') \<Rightarrow> region_open X name w')"

section \<open>Overflow regions\<close>

text \<open>On an error the region is dropped with the function's frame.\<close>

definition fill_overflow ::
  "'os externals \<Rightarrow> shm_region \<Rightarrow> string \<Rightarrow> bytes \<Rightarrow> 'os world \<Rightarrow> (shm_region result \<times> 'os world) option" where
  "fill_overflow X region name data w =
     (if r_len region < usize_of (length data)
      then Some (Inl (SharedMemory
             (''overflow region '' @ quote name @ '' too small for write: need ''
                @ show_nat (length data) @ '', have '' @ show_u (r_len region))),
             region_drop X region w)
      else do { w' \<leftarrow> mem_write (r_ptr region) 0 data w; Some (Inr region, w') })"

definition create_overflow ::
  "platform \<Rightarrow> 'os externals \<Rightarrow> string \<Rightarrow> bytes \<Rightarrow> 'os world \<Rightarrow> (shm_region result \<times> 'os world) option" where
  "create_overflow pl X name data w =
     (case create_exclusive pl X name (overflow_size_for (usize_of (length data))) w of
        (Inl e, w') \<Rightarrow> Some (Inl e, w')
      | (Inr None, w') \<Rightarrow>
          Some (Inl (SharedMemory
            (''overflow region '' @ quote name @ '' already exists: need '' @ show_nat (length data)
               @ '' bytes (held by a live peer, or an orphaned backing file that could not be reclaimed)'')),
            w')
      | (Inr (Some region), w') \<Rightarrow> fill_overflow X region name data w')"

definition overflow_generations :: "u8 list" where
  "overflow_generations = map word_of_nat [0 ..< Suc (unat MAX_OVERFLOW_GENERATION)]"

fun fresh_attempts ::
  "platform \<Rightarrow> 'os externals \<Rightarrow> (u8 \<Rightarrow> string option) \<Rightarrow> bytes \<Rightarrow> usize \<Rightarrow> string \<Rightarrow> u8 list \<Rightarrow> 'os world \<Rightarrow>
   ((shm_region \<times> u8) result \<times> 'os world) option" where
  "fresh_attempts pl X name_for data sz last_name [] w =
     Some (Inl (SharedMemory
       (''exhausted all '' @ show_nat (unat MAX_OVERFLOW_GENERATION + 1)
          @ '' overflow generations for '' @ quote last_name @ '': need '' @ show_nat (length data)
          @ '' bytes (every generation is held by a live peer or an unreclaimable orphan)'')), w)"
| "fresh_attempts pl X name_for data sz last_name (g # gs) w =
     do { name \<leftarrow> name_for g;
          case create_exclusive pl X name sz w of
            (Inl e, w') \<Rightarrow> Some (Inl e, w')
          | (Inr (Some region), w') \<Rightarrow>
              do { (res, w'') \<leftarrow> fill_overflow X region name data w';
                   case res of
                     Inl e \<Rightarrow> Some (Inl e, w'')
                   | Inr region \<Rightarrow> Some (Inr (region, g + 1), w'') }
          | (Inr None, w') \<Rightarrow> fresh_attempts pl X name_for data sz name gs w' }"

definition create_overflow_fresh ::
  "platform \<Rightarrow> 'os externals \<Rightarrow> (u8 \<Rightarrow> string option) \<Rightarrow> bytes \<Rightarrow> 'os world \<Rightarrow>
   ((shm_region \<times> u8) result \<times> 'os world) option" where
  "create_overflow_fresh pl X name_for data w =
     fresh_attempts pl X name_for data (overflow_size_for (usize_of (length data))) []
       overflow_generations w"

definition read_overflow ::
  "'os externals \<Rightarrow> string \<Rightarrow> usize \<Rightarrow> 'os world \<Rightarrow> (bytes result \<times> 'os world) option" where
  "read_overflow X name len w =
     (case region_open X name w of
        (Inl e, w') \<Rightarrow> Some (Inl e, w')
      | (Inr region, w') \<Rightarrow>
          if len > r_len region
          then Some (Inl (SharedMemory
                 (''overflow region '' @ quote name @ '' too small: need '' @ show_u len
                    @ '', have '' @ show_u (r_len region))), region_drop X region w')
          else do { bs \<leftarrow> mem_read (r_ptr region) 0 (unat len) w';
                    Some (Inr bs, region_drop X region w') })"

section \<open>Lemmas: sizes\<close>

lemma unat_and_not_4095: "unat (w AND NOT 4095) = unat (w :: usize) div 4096 * 4096"
proof -
  have "(4095 :: usize) = mask 12" by (simp add: mask_eq_exp_minus_1)
  then have eq: "w AND NOT 4095 = push_bit 12 (drop_bit 12 w)" by (simp only: and_not_mask_eq)
  have "unat w div 4096 * 4096 < 2 ^ 64"
    using unat_less_limit [of w] div_times_less_eq_dividend [of "unat w" 4096]
    by (meson order_le_less_trans)
  then have "unat (push_bit 12 (drop_bit 12 w)) = unat w div 4096 * 4096"
    by (simp only: unsigned_push_bit_eq unsigned_drop_bit_eq)
      (simp add: push_bit_eq_mult drop_bit_eq_div take_bit_eq_mod)
  then show ?thesis by (simp only: eq)
qed

lemma overflow_size_large_enough:
  assumes "slice_len_ok data"
  shows "usize_of (length data) \<le> overflow_size_for (usize_of (length data))"
proof -
  have n: "length data < 2 ^ 63" using assms by (simp add: slice_len_ok_def)
  then have "unat (usize_of (length data) + 4095) = length data + 4095"
    by (subst unat_add_exact) simp_all
  then have "length data \<le> unat ((usize_of (length data) + 4095) AND NOT 4095)"
    by (simp only: unat_and_not_4095)
  then have "usize_of (length data) \<le> (usize_of (length data) + 4095) AND NOT 4095"
    using n by (simp only: word_le_nat_alt) simp
  then show ?thesis by (simp add: overflow_size_for_def le_max_iff_disj)
qed

section \<open>Lemmas: exclusive creation\<close>

lemma kept_reclaim:
  assumes "shmem_documented X V" and "reclaim_orphaned_backing_file pl X name w = (b, w')"
  shows "kept V UNIV w w'"
  using assms kept_delete [OF assms(1)]
  by (auto simp: reclaim_orphaned_backing_file_def split: platform.splits option.splits if_splits)

lemma kept_try_create:
  assumes "shmem_documented X V" and "try_create_exclusive X name sz w = (r, w')"
  shows "kept V UNIV w w'"
  using assms kept_create [OF assms(1)]
  by (auto simp: try_create_exclusive_def split: prod.splits sum.splits shmem_error.splits)

lemma try_create_Some:
  assumes "try_create_exclusive X name sz w = (Inr (Some r), w')"
  obtains h where "shmem_create X name sz w = (Inr h, w')" and "r = region_of_shmem name h"
  using assms by (auto simp: try_create_exclusive_def split: prod.splits sum.splits shmem_error.splits)

lemma region_of_shmem_fields [simp]:
  "r_shmem (region_of_shmem n h) = h" "r_ptr (region_of_shmem n h) = shm_seg h"
  "r_len (region_of_shmem n h) = shm_len h" "r_name (region_of_shmem n h) = n"
  by (simp_all add: region_of_shmem_def)

lemma kept_create_exclusive:
  assumes "shmem_documented X V" and "create_exclusive pl X name sz w = (r, w')"
  shows "kept V UNIV w w'"
proof -
  obtain a w1 where t: "try_create_exclusive X name sz w = (a, w1)" by fastforce
  note k1 = kept_try_create [OF assms(1) t]
  show ?thesis
  proof (cases "a = Inr None")
    case False
    then show ?thesis using assms(2) t k1
      by (auto simp: create_exclusive_def split: sum.splits option.splits)
  next
    case True
    obtain b w2 where rc: "reclaim_orphaned_backing_file pl X name w1 = (b, w2)" by fastforce
    note k2 = kept_trans [OF k1 kept_reclaim [OF assms(1) rc]]
    show ?thesis using assms(2) t rc True k2 kept_trans [OF k2 kept_try_create [OF assms(1)]]
      by (cases b) (auto simp: create_exclusive_def)
  qed
qed

text \<open>The creation that succeeded happened in a world that keeps everything held before.\<close>

lemma create_exclusive_Some:
  assumes "shmem_documented X V" and "create_exclusive pl X name sz w = (Inr (Some r), w')"
  obtains h w0 where "kept V UNIV w w0" and "handles V w0 = handles V w"
    and "shmem_create X name sz w0 = (Inr h, w')" and "r = region_of_shmem name h"
proof (cases "try_create_exclusive X name sz w")
  case (Pair a w1)
  show ?thesis
  proof (cases "a = Inr None")
    case False
    then have "try_create_exclusive X name sz w = (Inr (Some r), w')"
      using assms(2) Pair by (auto simp: create_exclusive_def split: sum.splits option.splits)
    then show ?thesis using that [of w] by (elim try_create_Some) simp
  next
    case True
    have "shmem_create X name sz w = (Inl MappingIdExists, w1)"
      using Pair True
      by (auto simp: try_create_exclusive_def split: prod.splits sum.splits shmem_error.splits)
    then have w1: "w1 = w" by (rule create_err(1) [OF assms(1)])
    obtain b w2 where rc: "reclaim_orphaned_backing_file pl X name w = (b, w2)" by fastforce
    with assms(2) Pair True w1 have t: "try_create_exclusive X name sz w2 = (Inr (Some r), w')"
      by (auto simp: create_exclusive_def split: bool.splits)
    have "handles V w2 = handles V w"
      using rc delete_kept(1) [OF assms(1)]
      by (auto simp: reclaim_orphaned_backing_file_def split: platform.splits option.splits if_splits)
    then show ?thesis
      using t that [of w2] kept_reclaim [OF assms(1) rc] by (elim try_create_Some) simp
  qed
qed

definition fresh_region :: "'os shm_view \<Rightarrow> string \<Rightarrow> usize \<Rightarrow> shm_region \<Rightarrow> 'os world \<Rightarrow> 'os world \<Rightarrow> bool" where
  "fresh_region V name sz r w w' \<longleftrightarrow>
     handles V w (r_ptr r) = 0 \<and> handles V w' (r_ptr r) = 1
     \<and> bound V w' name = Some (r_ptr r) \<and> shm_seg (r_shmem r) = r_ptr r \<and> shm_owner (r_shmem r)
     \<and> sz \<le> r_len r \<and> length (mem w' (r_ptr r)) = unat (r_len r) \<and> kept V UNIV w w'
     \<and> (\<forall>s. s \<noteq> r_ptr r \<longrightarrow> handles V w' s = handles V w s)"

lemma create_exclusive_fresh:
  assumes "shmem_documented X V" and "create_exclusive pl X name sz w = (Inr (Some r), w')"
  shows "fresh_region V name sz r w w'"
proof -
  obtain h w0 where w0: "kept V UNIV w w0" "handles V w0 = handles V w"
    and c: "shmem_create X name sz w0 = (Inr h, w')" and r: "r = region_of_shmem name h"
    using create_exclusive_Some [OF assms] by blast
  note k = create_ok [OF assms(1) c]
  have "kept V UNIV w w'" using kept_trans [OF w0(1) kept_create [OF assms(1) c]] .
  with k w0(2) r show ?thesis by (simp add: fresh_region_def)
qed

lemma create_exclusive_None:
  assumes "shmem_documented X V" and "create_exclusive pl X name sz w = (Inr None, w')"
  shows "bound V w name \<noteq> None" and "handles V w' = handles V w" and "kept V UNIV w w'"
proof -
  obtain a w1 where t: "try_create_exclusive X name sz w = (a, w1)" by fastforce
  with assms(2) have a: "a = Inr None"
    by (auto simp: create_exclusive_def split: sum.splits option.splits)
  have c: "shmem_create X name sz w = (Inl MappingIdExists, w1)"
    using t a by (auto simp: try_create_exclusive_def split: prod.splits sum.splits shmem_error.splits)
  then have w1: "w1 = w" and b: "bound V w name \<noteq> None"
    using create_err [OF assms(1) c] by simp_all
  show "bound V w name \<noteq> None" by (rule b)
  show "kept V UNIV w w'" by (rule kept_create_exclusive [OF assms])
  obtain d w2 where rc: "reclaim_orphaned_backing_file pl X name w = (d, w2)" by fastforce
  have h2: "handles V w2 = handles V w"
    using rc delete_kept(1) [OF assms(1)]
    by (auto simp: reclaim_orphaned_backing_file_def split: platform.splits option.splits if_splits)
  show "handles V w' = handles V w"
  proof (cases d)
    case False
    then show ?thesis using assms(2) t a w1 rc h2 by (auto simp: create_exclusive_def)
  next
    case True
    then have "try_create_exclusive X name sz w2 = (Inr None, w')"
      using assms(2) t a w1 rc by (auto simp: create_exclusive_def)
    then have "shmem_create X name sz w2 = (Inl MappingIdExists, w')"
      by (auto simp: try_create_exclusive_def split: prod.splits sum.splits shmem_error.splits)
    then show ?thesis using create_err(1) [OF assms(1)] h2 by fastforce
  qed
qed

lemma create_exclusive_bound:
  assumes "shmem_documented X V" and "pl \<noteq> Windows" and "bound V w name \<noteq> None"
  shows "create_exclusive pl X name sz w = (Inr None, w)"
proof (cases "shmem_create X name sz w")
  case (Pair a w1)
  have a: "a = Inl MappingIdExists"
  proof (cases a)
    case (Inl e)
    with create_err(2) [OF assms(1)] Pair assms(3) show ?thesis by fastforce
  next
    case (Inr h)
    with create_ok(1) [OF assms(1)] Pair assms(3) show ?thesis by fastforce
  qed
  with Pair have "w1 = w" using create_err(1) [OF assms(1)] by fastforce
  with a Pair show ?thesis using assms(2)
    by (cases pl) (simp_all add: create_exclusive_def try_create_exclusive_def
        reclaim_orphaned_backing_file_def)
qed

section \<open>Lemmas: filling and reading\<close>

lemma fill_overflow_ok:
  assumes "slice_len_ok data" and "usize_of (length data) \<le> r_len r"
    and "length (mem w (r_ptr r)) = unat (r_len r)"
  shows "fill_overflow X r name data w = Some (Inr r, put (r_ptr r) 0 data w)"
proof -
  have "length data \<le> unat (r_len r)" using assms(1,2) by (simp add: word_le_nat_alt)
  then show ?thesis using assms by (simp add: fill_overflow_def mem_simps not_less [symmetric])
qed

text \<open>What a successful creation of an overflow region gives its caller.\<close>

definition overflow_holds :: "'os shm_view \<Rightarrow> string \<Rightarrow> bytes \<Rightarrow> shm_region \<Rightarrow> 'os world \<Rightarrow> bool" where
  "overflow_holds V name data r w \<longleftrightarrow>
     bound V w name = Some (r_ptr r) \<and> 0 < handles V w (r_ptr r)
     \<and> shm_seg (r_shmem r) = r_ptr r \<and> shm_owner (r_shmem r)
     \<and> length data \<le> length (mem w (r_ptr r)) \<and> length (mem w (r_ptr r)) < usize_limit
     \<and> slice 0 (length data) (mem w (r_ptr r)) = data"

lemma overflow_holds_kept:
  assumes "overflow_holds V name data r w" and "kept V S w w'" and "r_ptr r \<in> S"
  shows "overflow_holds V name data r w'"
  using assms keptD [OF assms(2,3)] by (simp add: overflow_holds_def)

lemma fresh_then_fill:
  assumes doc: "shmem_documented X V" and len: "slice_len_ok data"
    and c: "create_exclusive pl X name (overflow_size_for (usize_of (length data))) w = (Inr (Some r), w')"
  shows "\<exists>w''. fill_overflow X r name data w' = Some (Inr r, w'')
    \<and> overflow_holds V name data r w'' \<and> kept V UNIV w w'' \<and> handles V w (r_ptr r) = 0"
proof -
  have f: "fresh_region V name (overflow_size_for (usize_of (length data))) r w w'"
    by (rule create_exclusive_fresh [OF doc c])
  have le: "usize_of (length data) \<le> r_len r"
    using f overflow_size_large_enough [OF len] by (auto simp: fresh_region_def)
  have fits: "length data \<le> length (mem w' (r_ptr r))"
    using f le len by (simp add: fresh_region_def word_le_nat_alt)
  let ?w = "put (r_ptr r) 0 data w'"
  have "fill_overflow X r name data w' = Some (Inr r, ?w)"
    using f by (intro fill_overflow_ok [OF len le]) (simp add: fresh_region_def)
  moreover have "overflow_holds V name data r ?w"
    using f fits unat_less_limit [of "r_len r"] doc
    by (simp add: overflow_holds_def fresh_region_def slice_simps)
  moreover have "kept V UNIV w ?w"
  proof -
    have "kept V UNIV w w'" using f by (simp add: fresh_region_def)
    then have "kept V (- {r_ptr r}) w w'" by (rule kept_mono) simp
    then have "kept V (- {r_ptr r}) w ?w" using kept_put [OF doc] by (rule kept_trans)
    moreover have "handles V w (r_ptr r) = 0" using f by (simp add: fresh_region_def)
    ultimately show ?thesis by (rule kept_unheld)
  qed
  ultimately show ?thesis using f by (auto simp: fresh_region_def)
qed

definition names_total :: "(u8 \<Rightarrow> string option) \<Rightarrow> bool" where
  "names_total name_for \<longleftrightarrow> (\<forall>g. name_for g \<noteq> None)"

text \<open>The walk over the generations: it ends, and it ends with a fresh region or an error.\<close>

lemma fresh_attempts_result:
  assumes doc: "shmem_documented X V" and len: "slice_len_ok data"
    and names: "names_total name_for"
  shows "\<exists>res w'. fresh_attempts pl X name_for data (overflow_size_for (usize_of (length data))) lst gs w
      = Some (res, w') \<and> kept V UNIV w w' \<and> (\<forall>r marker. res = Inr (r, marker) \<longrightarrow>
        handles V w (r_ptr r) = 0 \<and>
        (\<exists>g name. g \<in> set gs \<and> marker = g + 1 \<and> name_for g = Some name \<and> overflow_holds V name data r w'))"
proof (induction gs arbitrary: lst w)
  case Nil
  then show ?case by simp
next
  case (Cons g gs)
  obtain name where name: "name_for g = Some name" using names by (auto simp: names_total_def)
  obtain a w1 where c: "create_exclusive pl X name (overflow_size_for (usize_of (length data))) w = (a, w1)"
    by fastforce
  note k1 = kept_create_exclusive [OF doc c]
  consider e where "a = Inl e" | r where "a = Inr (Some r)" | "a = Inr None"
    by (metis option.exhaust sum.exhaust)
  then show ?case
  proof cases
    case 1
    then show ?thesis using name c k1 by simp
  next
    case (2 r)
    obtain w2 where f: "fill_overflow X r name data w1 = Some (Inr r, w2)"
      "overflow_holds V name data r w2" "kept V UNIV w w2" "handles V w (r_ptr r) = 0"
      using fresh_then_fill [OF doc len c [unfolded 2]] by blast
    then show ?thesis using name c 2 by auto
  next
    case 3
    note h = create_exclusive_None(2) [OF doc c [unfolded 3]]
    show ?thesis using Cons.IH [of name w1] name c 3 h kept_trans [OF k1] by fastforce
  qed
qed

lemma overflow_generations_le: "g \<in> set overflow_generations \<Longrightarrow> g \<le> MAX_OVERFLOW_GENERATION"
  by (auto simp: overflow_generations_def protocol_consts word_le_nat_alt unat_of_nat)

lemma overflow_generations_set: "set overflow_generations = {g. g \<le> 254}"
proof -
  have "unat MAX_OVERFLOW_GENERATION = 254" by (simp add: protocol_consts)
  moreover have "g \<in> word_of_nat ` {0 ..< 255}" if "unat g \<le> 254" for g :: u8
    using that by (intro image_eqI [of _ _ "unat g"]) simp_all
  ultimately show ?thesis by (auto simp: overflow_generations_def word_le_nat_alt unat_of_nat)
qed

lemma create_overflow_fresh_result:
  assumes "shmem_documented X V" and "slice_len_ok data" and "names_total name_for"
  obtains res w' where "create_overflow_fresh pl X name_for data w = Some (res, w')"
    and "kept V UNIV w w'"
    and "\<And>r marker. res = Inr (r, marker) \<Longrightarrow> handles V w (r_ptr r) = 0 \<and>
      (\<exists>g name. g \<le> MAX_OVERFLOW_GENERATION \<and> marker = g + 1 \<and> name_for g = Some name
         \<and> overflow_holds V name data r w')"
proof -
  from fresh_attempts_result [OF assms, where pl = pl and lst = "[]" and gs = overflow_generations and w = w]
  obtain res w' where "create_overflow_fresh pl X name_for data w = Some (res, w')" "kept V UNIV w w'"
    and "\<forall>r marker. res = Inr (r, marker) \<longrightarrow> handles V w (r_ptr r) = 0 \<and>
      (\<exists>g name. g \<in> set overflow_generations \<and> marker = g + 1 \<and> name_for g = Some name
         \<and> overflow_holds V name data r w')"
    unfolding create_overflow_fresh_def by blast
  then show ?thesis using that overflow_generations_le by blast
qed

text \<open>Reading back a region that is held elsewhere returns its bytes and changes nothing.\<close>

lemma read_overflow_held:
  assumes doc: "shmem_documented X V" and "overflow_holds V name data r w"
  shows "\<exists>w'. read_overflow X name (usize_of (length data)) w = Some (Inr data, w')
    \<and> mem w' = mem w \<and> handles V w' = handles V w
    \<and> (\<forall>n s. bound V w' n = Some s \<longleftrightarrow> bound V w n = Some s)"
proof -
  have o: "bound V w name = Some (r_ptr r)" "0 < handles V w (r_ptr r)"
    "length data \<le> length (mem w (r_ptr r))" "length (mem w (r_ptr r)) < usize_limit"
    "slice 0 (length data) (mem w (r_ptr r)) = data"
    using assms(2) by (simp_all add: overflow_holds_def)
  obtain h w1 where h: "shmem_open X name w = (Inr h, w1)" "shm_seg h = r_ptr r"
    using open_bound [OF doc o(1,4)] by blast
  note p = open_ok [OF doc h(1)]
  have l: "unat (usize_of (length data)) = length data" using o(3,4) by simp
  have "read_overflow X name (usize_of (length data)) w = Some (Inr data, shmem_drop X h w1)"
    using h p o l
    by (simp add: read_overflow_def region_open_def mem_simps region_drop_def word_less_nat_alt)
  then show ?thesis using open_then_drop [OF doc h(1)] h(2) o(2) by auto
qed

section \<open>Lemmas: the walk and the reclaim path\<close>

lemma fresh_attempts_first_free:
  assumes doc: "shmem_documented X V" and pl: "pl \<noteq> Windows"
    and bnd: "\<forall>g \<in> set gs. \<exists>name. name_for g = Some name \<and> bound V w name \<noteq> None"
  shows "\<exists>lst'. fresh_attempts pl X name_for data sz lst (gs @ hs) w
    = fresh_attempts pl X name_for data sz lst' hs w"
  using bnd
proof (induction gs arbitrary: lst)
  case (Cons g gs)
  then obtain name where "name_for g = Some name" "bound V w name \<noteq> None" by auto
  with Cons create_exclusive_bound [OF doc pl] show ?case by auto
qed auto

lemma fresh_attempts_Nil: "\<exists>msg. fresh_attempts pl X name_for data sz lst [] w = Some (Inl (SharedMemory msg), w)"
  by simp

lemma fresh_attempts_marker:
  "fresh_attempts pl X name_for data sz lst gs w = Some (Inr (r, marker), w') \<Longrightarrow> marker \<in> (\<lambda>g. g + 1) ` set gs"
  by (induction gs arbitrary: lst w)
    (fastforce split: Option.bind_splits option.splits sum.splits prod.splits)+

lemma split_separators_clean: "p \<in> set (split_separators s) \<Longrightarrow> c \<in> set p \<Longrightarrow> \<not> is_separator c"
  by (induction s arbitrary: p rule: split_separators.induct) (fastforce split: if_splits list.splits)+

lemma part_component_normal:
  "NormalComponent q \<in> set (part_component p) \<Longrightarrow> q = p \<and> p \<noteq> [] \<and> p \<noteq> ''.'' \<and> p \<noteq> ''..''"
  by (auto split: if_splits)

lemma components_normal:
  assumes "NormalComponent p \<in> set (components s)"
  shows "p \<noteq> [] \<and> p \<noteq> ''.'' \<and> p \<noteq> ''..'' \<and> (\<forall>c \<in> set p. \<not> is_separator c)"
proof -
  have "\<exists>t q. q \<in> set (split_separators t) \<and> NormalComponent p \<in> set (part_component q)"
    using assms
    by (auto simp: components_def Let_def simp del: part_component.simps
        split: if_splits list.splits)
  then show ?thesis using part_component_normal split_separators_clean by blast
qed

text \<open>Off Windows, the walk is decided by the names that are taken when it starts.\<close>

definition taken :: "'os shm_view \<Rightarrow> (u8 \<Rightarrow> string option) \<Rightarrow> 'os world \<Rightarrow> u8 \<Rightarrow> bool" where
  "taken V name_for w g \<longleftrightarrow> (\<exists>name. name_for g = Some name \<and> bound V w name \<noteq> None)"

lemma walk_reaches:
  assumes doc: "shmem_documented X V" and pl: "pl \<noteq> Windows"
    and find: "find (\<lambda>g. \<not> taken V name_for w g) gens = Some g"
  shows "\<exists>lst' gs. fresh_attempts pl X name_for data sz lst gens w = fresh_attempts pl X name_for data sz lst' (g # gs) w"
proof -
  let ?t = "takeWhile (taken V name_for w) gens"
  obtain gs where gs: "dropWhile (taken V name_for w) gens = g # gs"
    using find by (auto simp: find_dropWhile o_def split: list.splits)
  have "\<forall>h \<in> set ?t. \<exists>name. name_for h = Some name \<and> bound V w name \<noteq> None"
    by (auto simp: taken_def dest: set_takeWhileD)
  from fresh_attempts_first_free [OF doc pl this, of data sz lst "g # gs"] show ?thesis
    using gs takeWhile_dropWhile_id [of "taken V name_for w" gens] by auto
qed

lemma generations_least:
  assumes "find P overflow_generations = Some g"
  shows "g \<le> MAX_OVERFLOW_GENERATION" and "P g" and "h < g \<Longrightarrow> \<not> P h"
proof -
  have max: "unat MAX_OVERFLOW_GENERATION = 254" by (simp add: protocol_consts)
  obtain k where k: "k < 255" "g = word_of_nat k" "P g" "\<forall>j < k. \<not> P (word_of_nat j)"
    using assms unfolding overflow_generations_def max by (auto simp: find_upt_least)
  then have u: "unat g = k" by (simp add: unat_of_nat)
  show "g \<le> MAX_OVERFLOW_GENERATION" using k(1) u max by (simp add: word_le_nat_alt)
  show "P g" by (rule k(3))
  assume "h < g"
  then have "unat h < k" using u by (simp add: word_less_nat_alt)
  then show "\<not> P h" using k(4) by (metis unat_word_of_nat_self)
qed

section \<open>Properties\<close>

text \<open>
  C28: creating an overflow region is exclusive. It never returns a segment that anyone holds, never
  changes one, and a region it returns is owned, bound to its name and at least as large as asked;
  when it returns nothing, the name was taken.
\<close>

theorem create_exclusive_correct:
  assumes "shmem_documented X V" and "create_exclusive pl X name sz w = (res, w')"
  shows "kept V UNIV w w' \<and> (\<forall>r. res = Inr (Some r) \<longrightarrow>
      handles V w (r_ptr r) = 0 \<and> bound V w' name = Some (r_ptr r) \<and> shm_owner (r_shmem r)
      \<and> sz \<le> r_len r \<and> length (mem w' (r_ptr r)) = unat (r_len r))
    \<and> (res = Inr None \<longrightarrow> bound V w name \<noteq> None \<and> handles V w' = handles V w)"
  using kept_create_exclusive [OF assms] create_exclusive_fresh [OF assms(1)] create_exclusive_None [OF assms(1)]
    assms(2) by (auto simp: fresh_region_def)

theorem create_exclusive_correct_witness:
  "\<exists>w'. create_exclusive Linux ref_externals ''slotbus-demo'' 10 demo_blank = (Inr None, w')
     \<and> bound ref_view demo_blank ''slotbus-demo'' \<noteq> None"
proof -
  obtain res w' where c: "create_exclusive Linux ref_externals ''slotbus-demo'' 10 demo_blank = (res, w')"
    by fastforce
  have "res = Inr None"
    using c by (simp add: create_exclusive_def try_create_exclusive_def reclaim_orphaned_backing_file_def
        ref_defs demo_blank_def Let_def)
  then show ?thesis using create_exclusive_correct [OF ref_shmem_documented c] c by simp
qed

text \<open>
  Creating a fresh overflow region always returns, disturbs nobody, and on success hands back a
  segment nobody held together with a marker; decoding the marker gives the generation whose name
  opens that segment, and reading as many bytes as were written returns them.
\<close>

theorem overflow_round_trip:
  assumes "shmem_documented X V" and "slice_len_ok data" and "names_total name_for"
  shows "\<exists>res w'. create_overflow_fresh pl X name_for data w = Some (res, w') \<and> kept V UNIV w w'
    \<and> (\<forall>r marker. res = Inr (r, marker) \<longrightarrow> handles V w (r_ptr r) = 0 \<and>
        (\<exists>g name w''. overflow_generation marker = Some g \<and> name_for g = Some name
           \<and> read_overflow X name (usize_of (length data)) w' = Some (Inr data, w'') \<and> mem w'' = mem w'))"
proof -
  obtain res w' where c: "create_overflow_fresh pl X name_for data w = Some (res, w')" "kept V UNIV w w'"
    "\<And>r marker. res = Inr (r, marker) \<Longrightarrow> handles V w (r_ptr r) = 0 \<and>
      (\<exists>g name. g \<le> MAX_OVERFLOW_GENERATION \<and> marker = g + 1 \<and> name_for g = Some name
         \<and> overflow_holds V name data r w')"
    using create_overflow_fresh_result [OF assms] by blast
  have "\<exists>g name w''. overflow_generation marker = Some g \<and> name_for g = Some name
      \<and> read_overflow X name (usize_of (length data)) w' = Some (Inr data, w'') \<and> mem w'' = mem w'"
    if "res = Inr (r, marker)" for r marker
    using c(3) [OF that] read_overflow_held [OF assms(1)] overflow_generation_plus1 by blast
  then show ?thesis using c by blast
qed

theorem overflow_round_trip_witness:
  "\<exists>res w'. create_overflow_fresh Linux ref_externals (request_overflow_name_gen Linux demo_config 0) [1, 2] demo_blank
     = Some (res, w')"
  using overflow_round_trip [OF ref_shmem_documented, of "[1, 2]" "request_overflow_name_gen Linux demo_config 0"
      Linux demo_blank]
  by (auto simp: slice_len_ok_def names_total_def name_defs)

text \<open>
  C29: the generation walk. Off Windows, for a body that is a Rust slice and names that are all formed, the walk returns.
  When it succeeds, it has taken the least generation whose name is free; so a leaked handle costs a generation
  and nothing else. When it fails, either all 255 names are taken, or the region could not be created under
  the least free name. When all 255 names are taken it fails and changes nothing.
\<close>

theorem generation_walk_least:
  assumes "shmem_documented X V" and "pl \<noteq> Windows" and "names_total name_for" and "slice_len_ok data"
  shows "\<exists>res w'. create_overflow_fresh pl X name_for data w = Some (res, w')
    \<and> (case res of
         Inr (r, marker) \<Rightarrow> \<exists>g \<le> 254. marker = g + 1 \<and> \<not> taken V name_for w g \<and> (\<forall>h < g. taken V name_for w h)
       | Inl e \<Rightarrow> (\<forall>g \<le> 254. taken V name_for w g) \<or>
           (\<exists>g name. g \<le> 254 \<and> name_for g = Some name \<and> \<not> taken V name_for w g \<and> (\<forall>h < g. taken V name_for w h)
              \<and> create_exclusive pl X name (overflow_size_for (usize_of (length data))) w = (Inl e, w')))
    \<and> ((\<forall>g \<le> 254. taken V name_for w g) \<longrightarrow> (\<exists>msg. res = Inl (SharedMemory msg)) \<and> w' = w)"
proof (cases "find (\<lambda>g. \<not> taken V name_for w g) overflow_generations")
  case None
  then have all: "\<forall>g \<le> 254. taken V name_for w g" by (simp add: find_None_iff overflow_generations_set)
  then have "\<forall>g \<in> set overflow_generations. \<exists>name. name_for g = Some name \<and> bound V w name \<noteq> None"
    by (simp add: taken_def overflow_generations_set)
  from fresh_attempts_first_free [OF assms(1,2) this, where hs = "[]" and lst = "[]" and data = data
      and sz = "overflow_size_for (usize_of (length data))"]
  obtain msg where "create_overflow_fresh pl X name_for data w = Some (Inl (SharedMemory msg), w)"
    by (auto simp: create_overflow_fresh_def)
  then show ?thesis using all by simp
next
  case (Some g)
  note L = generations_least [OF Some]
  have le: "g \<le> 254" and least: "\<And>h. h < g \<Longrightarrow> taken V name_for w h" using L by (auto simp: protocol_consts)
  then have some: "\<not> (\<forall>g \<le> 254. taken V name_for w g)" using L(2) by blast
  let ?sz = "overflow_size_for (usize_of (length data))"
  obtain lst gs where walk: "create_overflow_fresh pl X name_for data w = fresh_attempts pl X name_for data ?sz lst (g # gs) w"
    using walk_reaches [OF assms(1,2) Some] by (metis create_overflow_fresh_def)
  obtain name where n: "name_for g = Some name" using assms(3) by (auto simp: names_total_def)
  obtain res w1 where c: "create_exclusive pl X name ?sz w = (res, w1)" by fastforce
  show ?thesis
  proof (cases res)
    case (Inl e)
    then show ?thesis using walk n c le L(2) least some by auto
  next
    case (Inr opt)
    have "opt \<noteq> None" using create_exclusive_None(1) [OF assms(1), of pl name ?sz w w1] c Inr L(2) n by (auto simp: taken_def)
    then obtain r where r: "res = Inr (Some r)" using Inr by blast
    obtain w2 where "fill_overflow X r name data w1 = Some (Inr r, w2)" using fresh_then_fill [OF assms(1,4)] c r by blast
    then show ?thesis using walk n c r le L(2) least some by auto
  qed
qed

theorem generation_walk_least_witness:
  "\<exists>msg. create_overflow_fresh Linux ref_externals (\<lambda>g. Some ''slotbus-demo'') [1] demo_blank
     = Some (Inl (SharedMemory msg), demo_blank)"
proof -
  have "taken ref_view (\<lambda>g. Some ''slotbus-demo'') demo_blank g" for g
    by (simp add: taken_def ref_defs demo_blank_def)
  then show ?thesis
    using generation_walk_least [OF ref_shmem_documented, of Linux "\<lambda>g. Some ''slotbus-demo''" "[1]" demo_blank]
    by (auto simp: names_total_def slice_len_ok_def)
qed

text \<open>
  C30: the reclaim path deletes nothing outside the backing directory. Unless the platform is Windows
  and the name is one plain file name (not empty, not a dot name, without separators), nothing
  happens; otherwise at most one file is opened for deletion, and it resolves to a direct child of
  the resolved backing directory.
\<close>

theorem reclaim_confined:
  assumes "reclaim_orphaned_backing_file pl X name w = (b, w')" and "(b, w') \<noteq> (False, w)"
  shows "pl = Windows \<and> (\<exists>fl p dir. components (trim_start_slashes name) = [NormalComponent fl]
      \<and> fl \<notin> {[], ''.'', ''..''} \<and> (\<forall>c \<in> set fl. \<not> is_separator c)
      \<and> canonicalize X (backing_file_dir X w @ [fl]) w = Some p
      \<and> canonicalize X (backing_file_dir X w) w = Some dir
      \<and> p \<noteq> [] \<and> butlast p = dir \<and> delete_if_unshared X p w = (b, w'))"
proof -
  obtain fl p dir where "pl = Windows" "components (trim_start_slashes name) = [NormalComponent fl]"
    "canonicalize X (backing_file_dir X w @ [fl]) w = Some p"
    "canonicalize X (backing_file_dir X w) w = Some dir"
    "path_parent p = Some dir" "delete_if_unshared X p w = (b, w')"
    using assms by (auto simp: reclaim_orphaned_backing_file_def backing_file_path_def
        split: platform.splits option.splits if_splits list.splits path_component.splits)
  then show ?thesis
    using components_normal [of fl "trim_start_slashes name"]
    by (auto simp: path_parent_def split: if_splits)
qed

definition windows_externals :: "ref_os externals" where
  "windows_externals = ref_externals\<lparr>canonicalize := (\<lambda>p w. Some p), delete_if_unshared := (\<lambda>p w. (True, w))\<rparr>"

theorem reclaim_confined_witness:
  "delete_if_unshared windows_externals [''tmp'', ''shared_memory-rs'', ''f''] ref_world = (True, ref_world)
   \<and> reclaim_orphaned_backing_file Windows windows_externals ''/f'' ref_world = (True, ref_world)"
proof -
  have r: "reclaim_orphaned_backing_file Windows windows_externals ''/f'' ref_world = (True, ref_world)"
    by (simp add: reclaim_orphaned_backing_file_def backing_file_path_def backing_file_dir_def
        trim_start_slashes_def components_def is_separator_def windows_externals_def ref_externals_def
        path_parent_def)
  have d: "backing_file_dir windows_externals ref_world = [''tmp'', ''shared_memory-rs'']"
    "\<And>p. canonicalize windows_externals p ref_world = Some p"
    "components (trim_start_slashes ''/f'') = [NormalComponent ''f'']"
    by (simp_all add: backing_file_dir_def windows_externals_def ref_externals_def trim_start_slashes_def
        components_def is_separator_def)
  from reclaim_confined [OF r] d r show ?thesis by simp
qed

text \<open>
  The size asked for an overflow region is a positive multiple of the page size, large enough for
  the data, and wastes less than a page (an empty body still gets one page).
\<close>

theorem overflow_size_bounds:
  assumes "n < 2 ^ 63"
  shows "4096 dvd unat (overflow_size_for (usize_of n)) \<and> n \<le> unat (overflow_size_for (usize_of n))
    \<and> 4096 \<le> unat (overflow_size_for (usize_of n)) \<and> unat (overflow_size_for (usize_of n)) < max 1 n + 4096"
proof -
  have s: "unat (usize_of n + 4095) = n + 4095" using assms by (subst unat_add_exact) simp_all
  have a: "unat ((usize_of n + 4095) AND NOT 4095) = (n + 4095) div 4096 * 4096"
    by (simp only: unat_and_not_4095 s)
  have m: "unat (max x y) = max (unat x) (unat y)" for x y :: usize
    by (simp add: max_def word_le_nat_alt)
  have "unat (overflow_size_for (usize_of n)) = max ((n + 4095) div 4096 * 4096) 4096"
    unfolding overflow_size_for_def m a by simp
  moreover have "(n + 4095) div 4096 * 4096 \<le> n + 4095" "n \<le> (n + 4095) div 4096 * 4096" by simp_all
  ultimately show ?thesis by (auto simp: max_def)
qed

theorem overflow_size_bounds_witness: "unat (overflow_size_for (usize_of 5000)) < 9096"
  using overflow_size_bounds [of 5000] by simp

end
