(* ===== verification/Utf8.thy ===== *)
theory Utf8
  imports Prelude
begin

text \<open>
  \<^verbatim>\<open>String::from_utf8_lossy\<close>, which the crate applies to the request id bytes of a slot. A maximal
  prefix of a well-formed sequence that is not completed becomes one replacement character
  (U+FFFD); well-formed input is returned unchanged. The lemmas show that the request ids the crate
  documents (short, without NUL) survive the round trip through the slot.
\<close>

section \<open>One step of decoding\<close>

definition byte_in :: "nat \<Rightarrow> nat \<Rightarrow> bytes \<Rightarrow> nat \<Rightarrow> bool" where
  "byte_in lo hi bs k \<longleftrightarrow> k < length bs \<and> lo \<le> unat (bs ! k) \<and> unat (bs ! k) \<le> hi"

text \<open>The bounds on the second byte and the length, for each leading byte of a longer sequence.\<close>

definition utf8_lead :: "u8 \<Rightarrow> (nat \<times> nat \<times> nat) option" where
  "utf8_lead b =
     (let n = unat b in
      if 0xC2 \<le> n \<and> n \<le> 0xDF then Some (2, 0x80, 0xBF)
      else if n = 0xE0 then Some (3, 0xA0, 0xBF)
      else if n = 0xED then Some (3, 0x80, 0x9F)
      else if 0xE1 \<le> n \<and> n \<le> 0xEF then Some (3, 0x80, 0xBF)
      else if n = 0xF0 then Some (4, 0x90, 0xBF)
      else if 0xF1 \<le> n \<and> n \<le> 0xF3 then Some (4, 0x80, 0xBF)
      else if n = 0xF4 then Some (4, 0x80, 0x8F)
      else None)"

text \<open>How many bytes the first character or the first ill-formed part takes, and whether it is a character.\<close>

definition utf8_chunk :: "u8 \<Rightarrow> bytes \<Rightarrow> nat \<times> bool" where
  "utf8_chunk b bs =
     (if unat b < 128 then (1, True)
      else case utf8_lead b of
        None \<Rightarrow> (1, False)
      | Some (n, lo, hi) \<Rightarrow>
          if \<not> byte_in lo hi bs 0 then (1, False)
          else if n = 2 then (2, True)
          else if \<not> byte_in 0x80 0xBF bs 1 then (2, False)
          else if n = 3 then (3, True)
          else if \<not> byte_in 0x80 0xBF bs 2 then (3, False)
          else (4, True))"

definition replacement_char :: bytes where
  "replacement_char = [0xEF, 0xBF, 0xBD]"

lemma utf8_chunk_pos: "0 < fst (utf8_chunk b bs)"
  by (simp add: utf8_chunk_def split: option.splits prod.splits)

lemma utf8_chunk_dec: "(n, ok) = utf8_chunk b bs \<Longrightarrow> Suc (length bs) - n < Suc (length bs)"
  using utf8_chunk_pos [of b bs] by (metis diff_less fst_conv zero_less_Suc)

function utf8_lossy :: "bytes \<Rightarrow> bytes" where
  "utf8_lossy [] = []"
| "utf8_lossy (b # bs) =
     (let (n, ok) = utf8_chunk b bs
      in (if ok then take n (b # bs) else replacement_char) @ utf8_lossy (drop n (b # bs)))"
  by pat_completeness auto
termination
  by (relation "measure length") (auto simp: utf8_chunk_dec)

function valid_utf8 :: "bytes \<Rightarrow> bool" where
  "valid_utf8 [] = True"
| "valid_utf8 (b # bs) = (let (n, ok) = utf8_chunk b bs in ok \<and> valid_utf8 (drop n (b # bs)))"
  by pat_completeness auto
termination
  by (relation "measure length") (auto simp: utf8_chunk_dec)

declare utf8_lossy.simps(2) [simp del] valid_utf8.simps(2) [simp del]

section \<open>The request id of a slot\<close>

text \<open>
  \<^verbatim>\<open>raw.iter().position(|&b| b == 0).unwrap_or(36)\<close> cuts the field at its first NUL.
\<close>

definition until_nul :: "bytes \<Rightarrow> bytes" where
  "until_nul raw = takeWhile (\<lambda>b. b \<noteq> 0) raw"

definition decode_req_id :: "bytes \<Rightarrow> string" where
  "decode_req_id raw = string_of_bytes (utf8_lossy (until_nul raw))"

definition req_id_field :: "string \<Rightarrow> bytes" where
  "req_id_field s = take 36 (as_bytes s) @ replicate (36 - length s) 0"

section \<open>Lemmas\<close>

lemma utf8_lossy_valid: "valid_utf8 bs \<Longrightarrow> utf8_lossy bs = bs"
proof (induction bs rule: utf8_lossy.induct)
  case (2 b bs)
  obtain n ok where c: "utf8_chunk b bs = (n, ok)" by fastforce
  with 2 show ?case by (simp add: valid_utf8.simps utf8_lossy.simps)
qed simp

lemma valid_utf8_ascii: "(\<And>b. b \<in> set bs \<Longrightarrow> unat b < 128) \<Longrightarrow> valid_utf8 bs"
proof (induction bs)
  case (Cons b bs)
  then have "utf8_chunk b bs = (1, True)" by (simp add: utf8_chunk_def)
  with Cons show ?case by (simp add: valid_utf8.simps)
qed simp

lemma length_req_id_field [simp]: "length (req_id_field s) = 36"
  by (simp add: req_id_field_def min_def)

text \<open>A request id that fits: at most 36 bytes of UTF-8 without NUL. Every UUID does.\<close>

definition req_id_ok :: "string \<Rightarrow> bool" where
  "req_id_ok s \<longleftrightarrow> length s \<le> 36 \<and> 0 \<notin> set (as_bytes s) \<and> valid_utf8 (as_bytes s)"

lemma until_nul_padded: "0 \<notin> set xs \<Longrightarrow> until_nul (xs @ replicate n 0) = xs"
  unfolding until_nul_def by (subst takeWhile_append2) (auto simp: takeWhile_eq_Nil_iff hd_replicate)

lemma decode_req_id_field: "req_id_ok s \<Longrightarrow> decode_req_id (req_id_field s) = s"
  by (simp add: req_id_ok_def decode_req_id_def req_id_field_def until_nul_padded utf8_lossy_valid)

lemma decode_req_id_field_cut:
  "valid_utf8 (take 36 (as_bytes s)) \<Longrightarrow> 0 \<notin> set (as_bytes s) \<Longrightarrow>
   decode_req_id (req_id_field s) = take 36 s"
proof -
  assume v: "valid_utf8 (take 36 (as_bytes s))" and z: "0 \<notin> set (as_bytes s)"
  from z have "0 \<notin> set (take 36 (as_bytes s))" by (meson in_set_takeD)
  then have "decode_req_id (req_id_field s) = string_of_bytes (take 36 (as_bytes s))"
    using v by (simp add: decode_req_id_def req_id_field_def until_nul_padded utf8_lossy_valid)
  also have "take 36 (as_bytes s) = as_bytes (take 36 s)" by (simp add: as_bytes_def take_map)
  finally show ?thesis by simp
qed

section \<open>UTF-16\<close>

text \<open>\<^verbatim>\<open>str::encode_utf16\<close>, used for the names of Windows events.\<close>

definition utf8_code :: "bytes \<Rightarrow> nat" where
  "utf8_code bs =
     (case map unat bs of
        [a] \<Rightarrow> a
      | [a, b] \<Rightarrow> (a - 0xC0) * 64 + (b - 0x80)
      | [a, b, c] \<Rightarrow> ((a - 0xE0) * 64 + (b - 0x80)) * 64 + (c - 0x80)
      | [a, b, c, d] \<Rightarrow> (((a - 0xF0) * 64 + (b - 0x80)) * 64 + (c - 0x80)) * 64 + (d - 0x80)
      | _ \<Rightarrow> 0)"

definition utf16_units :: "nat \<Rightarrow> u16 list" where
  "utf16_units n =
     (if n < 0x10000 then [word_of_nat n]
      else [word_of_nat (0xD800 + (n - 0x10000) div 0x400), word_of_nat (0xDC00 + (n - 0x10000) mod 0x400)])"

function encode_utf16 :: "bytes \<Rightarrow> u16 list" where
  "encode_utf16 [] = []"
| "encode_utf16 (b # bs) =
     (let (n, ok) = utf8_chunk b bs
      in utf16_units (utf8_code (take n (b # bs))) @ encode_utf16 (drop n (b # bs)))"
  by pat_completeness auto
termination
  by (relation "measure length") (auto simp: utf8_chunk_dec)

declare encode_utf16.simps(2) [simp del]

lemma encode_utf16_ascii:
  "(\<And>b. b \<in> set bs \<Longrightarrow> unat b < 128) \<Longrightarrow> encode_utf16 bs = map (\<lambda>b. word_of_nat (unat b)) bs"
proof (induction bs)
  case (Cons b bs)
  then have "utf8_chunk b bs = (1, True)" by (simp add: utf8_chunk_def)
  moreover have "unat b < 65536" using Cons.prems [of b] by simp
  ultimately show ?case using Cons by (simp add: encode_utf16.simps utf8_code_def utf16_units_def)
qed simp

end
