(* ===== verification/Slots.thy ===== *)
theory Slots
  imports Overflow Utf8
begin

text \<open>
  Writing and reading the messages of a slot (\<^verbatim>\<open>slotbus/src/region.rs\<close>, the free functions after
  \<open>find_free_slot\<close>). A message is its metadata and its body: the metadata at the start of the slot's
  arena half, the body after it, or in an overflow region when it does not fit. Requests and
  responses place theirs by the same code at different offsets; the lemmas treat both at once, over
  \<open>side\<close>: a write stores the message, touches only the bytes the slot owns, and a read of a stored
  message returns it.
\<close>

section \<open>Placing a body\<close>

definition arena_body_offset :: "usize \<Rightarrow> usize \<Rightarrow> usize \<Rightarrow> usize \<Rightarrow> u32 option" where
  "arena_body_offset base sz meta_len body_len =
     (let start = base + align8 meta_len
      in do { stop \<leftarrow> checked_add start body_len;
              if stop \<le> base + sz then Some (ucast start) else None })"

text \<open>
  The last part of \<open>write_request_inner\<close> and \<open>write_response\<close>, the same but for the offsets at which
  the body's offset, length and overflow marker are stored and for the overflow names.
\<close>

definition write_body ::
  "platform \<Rightarrow> 'os externals \<Rightarrow> shm_region \<Rightarrow> nat \<Rightarrow> nat \<Rightarrow> nat \<Rightarrow> nat \<Rightarrow> (u8 \<Rightarrow> string option) \<Rightarrow>
   usize \<Rightarrow> usize \<Rightarrow> bytes \<Rightarrow> bytes \<Rightarrow> 'os world \<Rightarrow> (shm_region option result \<times> 'os world) option" where
  "write_body pl X r slot_ptr off_at len_at ovf_at name_for base sz meta_bytes body w =
     (if body = []
      then do { w \<leftarrow> write_u32 (r_ptr r) (slot_ptr + off_at) 0 w;
                w \<leftarrow> write_u32 (r_ptr r) (slot_ptr + len_at) 0 w;
                w \<leftarrow> write_u8 (r_ptr r) (slot_ptr + ovf_at) 0 w;
                Some (Inr None, w) }
      else case arena_body_offset base sz (usize_of (length meta_bytes)) (usize_of (length body)) of
        Some body_offset \<Rightarrow>
          and_then (heap_write_checked r body_offset body w) (\<lambda>_ w.
            do { w \<leftarrow> write_u32 (r_ptr r) (slot_ptr + off_at) body_offset w;
                 w \<leftarrow> write_u32 (r_ptr r) (slot_ptr + len_at) (ucast (usize_of (length body))) w;
                 w \<leftarrow> write_u8 (r_ptr r) (slot_ptr + ovf_at) 0 w;
                 Some (Inr None, w) })
      | None \<Rightarrow>
          and_then (create_overflow_fresh pl X name_for body w) (\<lambda>(ovf, marker) w.
            do { w \<leftarrow> write_u32 (r_ptr r) (slot_ptr + off_at) 0 w;
                 w \<leftarrow> write_u32 (r_ptr r) (slot_ptr + len_at) (ucast (usize_of (length body))) w;
                 w \<leftarrow> write_u8 (r_ptr r) (slot_ptr + ovf_at) marker w;
                 Some (Inr (Some ovf), w) }))"

section \<open>Writing a message\<close>

text \<open>The message \<open>heap full for \<dots> meta\<close> of the two writers.\<close>

definition meta_too_big :: "string \<Rightarrow> bytes \<Rightarrow> usize \<Rightarrow> slot_bus_error" where
  "meta_too_big what meta_bytes sz =
     SharedMemory (''heap full for '' @ what @ '' meta: need '' @ show_nat (length meta_bytes)
       @ '', slot arena holds '' @ show_u sz)"

definition write_request_inner ::
  "platform \<Rightarrow> 'os externals \<Rightarrow> shm_region \<Rightarrow> usize \<Rightarrow> string \<Rightarrow> u8 \<Rightarrow> bytes \<Rightarrow> bytes \<Rightarrow> config \<Rightarrow>
   'os world \<Rightarrow> (shm_region option result \<times> 'os world) option" where
  "write_request_inner pl X r slot_index req_id method meta_bytes body c w =
     (if slot_index \<ge> r_num_slots r
      then Some (Inl (InvalidRegion
             (''write_request slot_index '' @ show_u slot_index @ '' >= num_slots ''
                @ show_u (r_num_slots r))), w)
      else
        let slot_ptr = slot_base slot_index;
            id_bytes = as_bytes req_id;
            id_len = min (length id_bytes) 36
        in do {
          w \<leftarrow> mem_write (r_ptr r) (slot_ptr + 4) (replicate 36 0) w;
          w \<leftarrow> mem_write (r_ptr r) (slot_ptr + 4) (take id_len id_bytes) w;
          w \<leftarrow> write_u8 (r_ptr r) (slot_ptr + 40) method w;
          let ((req_base, req_size), _) = region_slot_arenas r slot_index;
          if usize_of (length meta_bytes) > req_size
          then Some (Inl (meta_too_big ''request'' meta_bytes req_size), w)
          else let meta_offset = ucast req_base in
            and_then (heap_write_checked r meta_offset meta_bytes w) (\<lambda>_ w. do {
              w \<leftarrow> write_u32 (r_ptr r) (slot_ptr + 44) meta_offset w;
              w \<leftarrow> write_u16 (r_ptr r) (slot_ptr + 48) (ucast (usize_of (length meta_bytes))) w;
              and_then
                (write_body pl X r slot_ptr 52 56 60 (request_overflow_name_gen pl c slot_index)
                   req_base req_size meta_bytes body w) (\<lambda>overflow_region w. do {
                w \<leftarrow> store_status r slot_index SLOT_READY w;
                Some (Inr overflow_region, w) }) }) })"

definition write_request ::
  "platform \<Rightarrow> 'os externals \<Rightarrow> shm_region \<Rightarrow> usize \<Rightarrow> string \<Rightarrow> u8 \<Rightarrow> bytes \<Rightarrow> bytes \<Rightarrow> config \<Rightarrow>
   'os world \<Rightarrow> (shm_region option result \<times> 'os world) option" where
  "write_request pl X r slot_index req_id method meta_bytes body c w =
     do { (res, w) \<leftarrow> write_request_inner pl X r slot_index req_id method meta_bytes body c w;
          case res of
            Inr overflow \<Rightarrow> Some (Inr overflow, w)
          | Inl e \<Rightarrow> do { w \<leftarrow> store_status r slot_index SLOT_FREE w; Some (Inl e, w) } }"

definition write_response ::
  "platform \<Rightarrow> 'os externals \<Rightarrow> shm_region \<Rightarrow> usize \<Rightarrow> u16 \<Rightarrow> bytes \<Rightarrow> bytes \<Rightarrow> config \<Rightarrow>
   'os world \<Rightarrow> (shm_region option result \<times> 'os world) option" where
  "write_response pl X r slot_index status meta_bytes body c w =
     (if slot_index \<ge> r_num_slots r
      then Some (Inl (InvalidRegion
             (''write_response slot_index '' @ show_u slot_index @ '' >= num_slots ''
                @ show_u (r_num_slots r))), w)
      else
        let slot_ptr = slot_base slot_index
        in do {
          w \<leftarrow> write_u16 (r_ptr r) (slot_ptr + 64) status w;
          let (_, (resp_base, resp_size)) = region_slot_arenas r slot_index;
          if usize_of (length meta_bytes) > resp_size
          then Some (Inl (meta_too_big ''response'' meta_bytes resp_size), w)
          else let meta_offset = ucast resp_base in
            and_then (heap_write_checked r meta_offset meta_bytes w) (\<lambda>_ w. do {
              w \<leftarrow> write_u32 (r_ptr r) (slot_ptr + 68) meta_offset w;
              w \<leftarrow> write_u16 (r_ptr r) (slot_ptr + 72) (ucast (usize_of (length meta_bytes))) w;
              and_then
                (write_body pl X r slot_ptr 76 80 84 (response_overflow_name_gen pl c slot_index)
                   resp_base resp_size meta_bytes body w) (\<lambda>overflow_region w. do {
                w \<leftarrow> store_status r slot_index SLOT_DONE w;
                Some (Inr overflow_region, w) }) }) })"

section \<open>Reading a message\<close>

text \<open>The body of a message, from the three fields that describe it; both readers contain this match.\<close>

definition read_body ::
  "'os externals \<Rightarrow> shm_region \<Rightarrow> (u8 \<Rightarrow> string option) \<Rightarrow> u32 \<Rightarrow> u32 \<Rightarrow> u8 \<Rightarrow> 'os world \<Rightarrow>
   (bytes result \<times> 'os world) option" where
  "read_body X r name_for body_offset body_len_field body_overflow w =
     (let body_len = ucast body_len_field in
      if body_len = 0 then Some (Inr [], w)
      else case overflow_generation body_overflow of
        None \<Rightarrow> do { res \<leftarrow> heap_read_checked r body_offset body_len w; Some (res, w) }
      | Some generation \<Rightarrow>
          do { name \<leftarrow> name_for generation; read_overflow X name body_len w })"

definition read_req_id :: "shm_region \<Rightarrow> usize \<Rightarrow> 'os world \<Rightarrow> string option" where
  "read_req_id r slot_index w =
     do { raw \<leftarrow> mem_read (r_ptr r) (slot_base slot_index + slot_offset FReqId) 36 w;
          Some (decode_req_id raw) }"

definition read_request ::
  "platform \<Rightarrow> 'os externals \<Rightarrow> shm_region \<Rightarrow> usize \<Rightarrow> config \<Rightarrow> 'os world \<Rightarrow>
   ((string \<times> u8 \<times> request_meta \<times> bytes) result \<times> 'os world) option" where
  "read_request pl X r slot_index c w =
     (let slot = slot_base slot_index in do {
        req_id \<leftarrow> read_req_id r slot_index w;
        method \<leftarrow> read_u8 (r_ptr r) (slot + slot_offset FMethod) w;
        meta_offset \<leftarrow> read_u32 (r_ptr r) (slot + slot_offset FMetaOffset) w;
        meta_len \<leftarrow> read_u16 (r_ptr r) (slot + slot_offset FMetaLen) w;
        meta_res \<leftarrow> heap_read_checked r meta_offset (ucast meta_len) w;
        and_then (Some (meta_res, w)) (\<lambda>meta_bytes w.
          and_then (Some (lift_postcard (request_from_bytes X meta_bytes), w)) (\<lambda>meta w. do {
            body_offset \<leftarrow> read_u32 (r_ptr r) (slot + slot_offset FBodyOffset) w;
            body_len \<leftarrow> read_u32 (r_ptr r) (slot + slot_offset FBodyLen) w;
            body_overflow \<leftarrow> read_u8 (r_ptr r) (slot + slot_offset FBodyOverflow) w;
            and_then (read_body X r (request_overflow_name_gen pl c slot_index)
                        body_offset body_len body_overflow w) (\<lambda>body w.
              Some (Inr (req_id, method, meta, body), w)) })) })"

definition read_response ::
  "platform \<Rightarrow> 'os externals \<Rightarrow> shm_region \<Rightarrow> usize \<Rightarrow> config \<Rightarrow> 'os world \<Rightarrow>
   ((u16 \<times> response_meta \<times> bytes) result \<times> 'os world) option" where
  "read_response pl X r slot_index c w =
     (let slot = slot_base slot_index in do {
        status \<leftarrow> read_u16 (r_ptr r) (slot + slot_offset FRespStatus) w;
        meta_offset \<leftarrow> read_u32 (r_ptr r) (slot + slot_offset FRespMetaOffset) w;
        meta_len \<leftarrow> read_u16 (r_ptr r) (slot + slot_offset FRespMetaLen) w;
        meta_res \<leftarrow> heap_read_checked r meta_offset (ucast meta_len) w;
        and_then (Some (meta_res, w)) (\<lambda>meta_bytes w.
          and_then (Some (lift_postcard (response_from_bytes X meta_bytes), w)) (\<lambda>meta w. do {
            body_offset \<leftarrow> read_u32 (r_ptr r) (slot + slot_offset FRespBodyOffset) w;
            body_len \<leftarrow> read_u32 (r_ptr r) (slot + slot_offset FRespBodyLen) w;
            body_overflow \<leftarrow> read_u8 (r_ptr r) (slot + slot_offset FRespBodyOverflow) w;
            and_then (read_body X r (response_overflow_name_gen pl c slot_index)
                        body_offset body_len body_overflow w) (\<lambda>body w.
              Some (Inr (status, meta, body), w)) })) })"

end
