(* ===== verification/Messages.thy ===== *)
theory Messages
  imports Slots
begin

text \<open>
  The reasoning about messages, once for both sides: where a message lives (\<open>payload_area\<close>), what it
  means that it is stored (\<open>body_stored\<close>, \<open>stored\<close>), that the writers store it and touch nothing
  else, that anything which leaves its area alone preserves it, and that the readers return it.
\<close>

section \<open>Where a message lives\<close>

definition field_base :: "side \<Rightarrow> nat" where
  "field_base s = (case s of Req \<Rightarrow> 44 | Resp \<Rightarrow> 68)"

definition arena :: "shm_region \<Rightarrow> side \<Rightarrow> usize \<Rightarrow> usize \<times> usize" where
  "arena r s i = (case s of Req \<Rightarrow> fst (region_slot_arenas r i) | Resp \<Rightarrow> snd (region_slot_arenas r i))"

definition fields_at :: "side \<Rightarrow> usize \<Rightarrow> nat" where
  "fields_at s i = slot_start i + field_base s"

definition arena_start :: "shm_region \<Rightarrow> side \<Rightarrow> usize \<Rightarrow> nat" where
  "arena_start r s i = unat (r_heap_offset r) + unat (fst (arena r s i))"

definition arena_stop :: "shm_region \<Rightarrow> side \<Rightarrow> usize \<Rightarrow> nat" where
  "arena_stop r s i = arena_start r s i + unat (snd (arena r s i))"

definition payload_area :: "shm_region \<Rightarrow> side \<Rightarrow> usize \<Rightarrow> nat set" where
  "payload_area r s i =
     {fields_at s i ..< fields_at s i + 17} \<union> {arena_start r s i ..< arena_stop r s i}"

definition status_area :: "usize \<Rightarrow> nat set" where
  "status_area i = {slot_start i ..< slot_start i + 4}"

lemma arena_half_of_region:
  "arena_half_of (r_num_slots r) (r_heap_size r) s (unat i) =
     (unat (fst (arena r s i)), unat (snd (arena r s i)))"
  by (cases s) (simp_all add: arena_half_of_def arena_def region_slot_arenas_def split_beta)

lemma arena_bounds:
  assumes "control_region r w" and "unat i < unat (r_num_slots r)"
  shows "unat (fst (arena r s i)) + unat (snd (arena r s i)) \<le> unat (r_heap_size r)"
    and "arena_stop r s i \<le> length (mem w (r_ptr r))"
    and "64 + 128 * unat (r_num_slots r) \<le> arena_start r s i"
    and "arena_start r s i \<le> arena_stop r s i"
    and "fields_at s i + 17 \<le> slot_start i + 128"
    and "slot_start i + 44 \<le> fields_at s i"
    and "slot_start i + 128 \<le> arena_start r s i"
    and "arena_stop r s i < usize_limit"
proof -
  note D = control_regionD [OF assms(1)]
  show b: "unat (fst (arena r s i)) + unat (snd (arena r s i)) \<le> unat (r_heap_size r)"
    using arenas.half_in_heap [of "unat i" "r_num_slots r" "r_heap_size r" s] assms(2)
    by (simp add: arena_half_of_region)
  show "arena_stop r s i \<le> length (mem w (r_ptr r))"
    using b D by (simp add: arena_stop_def arena_start_def)
  show h: "64 + 128 * unat (r_num_slots r) \<le> arena_start r s i"
    using D by (simp add: arena_start_def)
  show "arena_start r s i \<le> arena_stop r s i" by (simp add: arena_stop_def)
  show "fields_at s i + 17 \<le> slot_start i + 128" and "slot_start i + 44 \<le> fields_at s i"
    by (cases s; simp add: fields_at_def field_base_def)+
  show "slot_start i + 128 \<le> arena_start r s i"
    using slot_base_eq(2) [OF assms] h by simp
  show "arena_stop r s i < usize_limit"
    using b D by (simp add: arena_stop_def arena_start_def)
qed

lemma arena_base_u32:
  assumes "control_region r w" and "unat i < unat (r_num_slots r)" and "heap_addressable r"
  shows "unat (ucast (fst (arena r s i)) :: u32) = unat (fst (arena r s i))"
proof -
  obtain rb rl sb sl where a: "slot_arenas i (r_num_slots r) (r_heap_size r) = ((rb, rl), (sb, sl))"
    by (metis surj_pair)
  note n = slot_arenas_nat [OF assms(2) a]
  let ?a = "unat (arena_size (r_num_slots r) (r_heap_size r))"
  have fit: "unat i * ?a + ?a \<le> 2 ^ 32"
    using arena_base_bound [OF assms(2)] assms(3) by (meson heap_addressable_def le_trans)
  have half: "?a = 0 \<or> arena_half (r_num_slots r) (r_heap_size r) < ?a"
    unfolding arena_half_def using div_times_less_eq_dividend [of "?a div 2" 8] by linarith
  have "unat (fst (arena r s i)) < 2 ^ 32"
    using fit half arena_half_le [of "r_num_slots r" "r_heap_size r"]
    by (cases s) (auto simp: arena_def region_slot_arenas_def a n)
  then show ?thesis by (simp add: unat_narrow)
qed

text \<open>The areas of different messages, and the status words, are apart.\<close>

lemma disjoint_atLeastLessThan:
  "a + n \<le> b \<or> b + m \<le> a \<Longrightarrow> {a ..< a + n} \<inter> {b ..< b + m} = {}" for a b n m :: nat
  by auto

lemma fields_apart:
  assumes "(s, i) \<noteq> (t, j)"
  shows "fields_at s i + 17 \<le> fields_at t j \<or> fields_at t j + 17 \<le> fields_at s i"
proof (cases "i = j")
  case True
  with assms show ?thesis by (cases s; cases t) (auto simp: fields_at_def field_base_def)
next
  case False
  have e: "fields_at u k + 17 \<le> slot_start k + 128" "slot_start k \<le> fields_at u k" for u k
    by (cases u; simp add: fields_at_def field_base_def)+
  show ?thesis
    using slot_starts_apart [OF False] e(1) [of s i] e(1) [of t j] e(2) [where u = s and k = i]
      e(2) [where u = t and k = j] by linarith
qed

lemma arenas_apart:
  assumes "unat i < unat (r_num_slots r)" and "unat j < unat (r_num_slots r)" and "(s, i) \<noteq> (t, j)"
  shows "arena_stop r s i \<le> arena_start r t j \<or> arena_stop r t j \<le> arena_start r s i"
proof -
  have "(s, unat i) \<noteq> (t, unat j)" using assms(3) by (auto simp: word_unat_eq_iff)
  with assms(1,2)
  have "disjoint_ranges (arena_half_of (r_num_slots r) (r_heap_size r) s (unat i))
      (arena_half_of (r_num_slots r) (r_heap_size r) t (unat j))"
    by (rule arenas.halves_disjoint)
  then show ?thesis
    by (auto simp: arena_half_of_region disjoint_ranges_def arena_stop_def arena_start_def)
qed

lemma payload_areas_disjoint:
  assumes "control_region r w" and "unat i < unat (r_num_slots r)" and "unat j < unat (r_num_slots r)"
    and "(s, i) \<noteq> (t, j)"
  shows "payload_area r s i \<inter> payload_area r t j = {}"
proof -
  note bi = arena_bounds [OF assms(1,2), of s] and bj = arena_bounds [OF assms(1,3), of t]
  note ends = slot_base_eq(2) [OF assms(1,2)] slot_base_eq(2) [OF assms(1,3)]
  have "{fields_at s i ..< fields_at s i + 17} \<inter> {fields_at t j ..< fields_at t j + 17} = {}"
    using fields_apart [OF assms(4)] by (rule disjoint_atLeastLessThan)
  moreover have "{arena_start r s i ..< arena_stop r s i} \<inter> {arena_start r t j ..< arena_stop r t j} = {}"
    using arenas_apart [OF assms(2,3,4)] by auto
  moreover have "fields_at s i + 17 \<le> arena_start r t j" "fields_at t j + 17 \<le> arena_start r s i"
    using bi bj ends by linarith+
  ultimately show ?thesis unfolding payload_area_def by auto
qed

lemma status_area_disjoint:
  assumes "control_region r w" and "unat i < unat (r_num_slots r)" and "unat j < unat (r_num_slots r)"
  shows "status_area i \<inter> payload_area r s j = {}"
proof -
  note b = arena_bounds [OF assms(1,3), of s] slot_base_eq(2) [OF assms(1,2)]
  have "slot_start i + 4 \<le> fields_at s j \<or> fields_at s j + 17 \<le> slot_start i"
    using slot_starts_apart [of i j] b by (cases "i = j") auto
  moreover have "slot_start i + 4 \<le> arena_start r s j" using b by linarith
  ultimately show ?thesis unfolding payload_area_def status_area_def by auto
qed

section \<open>A stored message\<close>

text \<open>
  The metadata is at the start of the arena; the field that holds its length keeps the low 16 bits.
  The body is empty, or inline in the arena, or in an overflow region whose name the marker gives;
  \<open>ovf\<close> is the handle that keeps such a region alive.
\<close>

definition body_stored ::
  "'os shm_view \<Rightarrow> (u8 \<Rightarrow> string option) \<Rightarrow> shm_region \<Rightarrow> side \<Rightarrow> usize \<Rightarrow> bytes \<Rightarrow> shm_region option \<Rightarrow>
   'os world \<Rightarrow> bool" where
  "body_stored V name_for r s i body ovf w \<longleftrightarrow>
     (let b = mem w (r_ptr r); f = fields_at s i; off = unat (r_heap_offset r) + unat (get_u32 (f + 8) b) in
      unat (get_u32 (f + 12) b) = length body
      \<and> (case ovf of
           None \<Rightarrow> body = [] \<or> (get_u8 (f + 16) b = 0 \<and> arena_start r s i \<le> off
               \<and> off + length body \<le> arena_stop r s i \<and> slice off (length body) b = body)
         | Some region \<Rightarrow> r_ptr region \<noteq> r_ptr r \<and> (\<exists>g name. g \<le> MAX_OVERFLOW_GENERATION
               \<and> get_u8 (f + 16) b = g + 1 \<and> name_for g = Some name \<and> overflow_holds V name body region w)))"

definition meta_stored :: "shm_region \<Rightarrow> side \<Rightarrow> usize \<Rightarrow> bytes \<Rightarrow> 'os world \<Rightarrow> bool" where
  "meta_stored r s i meta w \<longleftrightarrow>
     (let b = mem w (r_ptr r); f = fields_at s i in
      unat (r_heap_offset r) + unat (get_u32 f b) = arena_start r s i
      \<and> unat (get_u16 (f + 4) b) = length meta mod 2 ^ 16 \<and> arena_start r s i + length meta \<le> arena_stop r s i
      \<and> slice (arena_start r s i) (length meta) b = meta)"

definition stored ::
  "'os shm_view \<Rightarrow> (u8 \<Rightarrow> string option) \<Rightarrow> shm_region \<Rightarrow> side \<Rightarrow> usize \<Rightarrow> bytes \<Rightarrow> bytes \<Rightarrow>
   shm_region option \<Rightarrow> 'os world \<Rightarrow> bool" where
  "stored V name_for r s i meta body ovf w \<longleftrightarrow>
     meta_stored r s i meta w \<and> length meta < 2 ^ 16 \<and> body_stored V name_for r s i body ovf w"

definition ovf_kept :: "'os shm_view \<Rightarrow> shm_region option \<Rightarrow> 'os world \<Rightarrow> 'os world \<Rightarrow> bool" where
  "ovf_kept V ovf w w' \<longleftrightarrow> (\<forall>region. ovf = Some region \<longrightarrow> kept V {r_ptr region} w w')"

lemma ovf_kept_touches: "body_stored V nf r s i body ovf w \<Longrightarrow> touches V (r_ptr r) S w w' \<Longrightarrow> ovf_kept V ovf w w'"
  by (cases ovf) (auto simp: ovf_kept_def body_stored_def Let_def touches_def elim!: kept_mono)

lemma body_stored_frame:
  assumes st: "body_stored V nf r s i body ovf w" and cr: "control_region r w"
    and i: "unat i < unat (r_num_slots r)"
    and un: "unchanged_except S (mem w (r_ptr r)) (mem w' (r_ptr r))"
    and dis: "S \<inter> payload_area r s i = {}" and ok: "ovf_kept V ovf w w'"
  shows "body_stored V nf r s i body ovf w'"
proof -
  note B = arena_bounds [OF cr i, of s] slot_base_eq [OF cr i]
  let ?f = "fields_at s i" and ?b = "mem w (r_ptr r)"
  have P: "{?f ..< ?f + 17} \<inter> S = {}" "{arena_start r s i ..< arena_stop r s i} \<inter> S = {}"
    using dis by (auto simp: payload_area_def)
  have fs: "slice ?f 17 (mem w' (r_ptr r)) = slice ?f 17 ?b"
    using P B by (intro unchanged_slice [OF un]) simp_all
  have g: "get_u32 (?f + 8) (mem w' (r_ptr r)) = get_u32 (?f + 8) ?b"
    "get_u32 (?f + 12) (mem w' (r_ptr r)) = get_u32 (?f + 12) ?b"
    "get_u8 (?f + 16) (mem w' (r_ptr r)) = get_u8 (?f + 16) ?b"
    using get_eq_sub [OF fs] by simp_all
  have "slice (arena_start r s i) (arena_stop r s i - arena_start r s i) (mem w' (r_ptr r))
      = slice (arena_start r s i) (arena_stop r s i - arena_start r s i) ?b"
    using P B by (intro unchanged_slice [OF un]) simp_all
  then have sl: "slice off n (mem w' (r_ptr r)) = slice off n ?b"
    if "arena_start r s i \<le> off" "off + n \<le> arena_stop r s i" for off n
    by (rule slice_eq_sub) (use that B in simp_all)
  show ?thesis
  proof (cases ovf)
    case None
    with st g sl show ?thesis by (auto simp: body_stored_def Let_def)
  next
    case (Some region)
    with ok have "kept V {r_ptr region} w w'" by (simp add: ovf_kept_def)
    then have "overflow_holds V name body region w \<Longrightarrow> overflow_holds V name body region w'" for name
      using overflow_holds_kept [of V name body region w "{r_ptr region}" w'] by simp
    with Some st g show ?thesis by (auto simp: body_stored_def Let_def)
  qed
qed

lemma meta_stored_frame:
  assumes st: "meta_stored r s i meta w" and cr: "control_region r w"
    and i: "unat i < unat (r_num_slots r)"
    and un: "unchanged_except S (mem w (r_ptr r)) (mem w' (r_ptr r))"
    and dis: "S \<inter> ({fields_at s i ..< fields_at s i + 6}
      \<union> {arena_start r s i ..< arena_start r s i + length meta}) = {}"
  shows "meta_stored r s i meta w'"
proof -
  note B = arena_bounds [OF cr i, of s] slot_base_eq [OF cr i]
  let ?f = "fields_at s i" and ?b = "mem w (r_ptr r)"
  have P: "{?f ..< ?f + 6} \<inter> S = {}" "{arena_start r s i ..< arena_start r s i + length meta} \<inter> S = {}"
    using dis by auto
  have fs: "slice ?f 6 (mem w' (r_ptr r)) = slice ?f 6 ?b"
    using P B by (intro unchanged_slice [OF un]) simp_all
  have g: "get_u32 ?f (mem w' (r_ptr r)) = get_u32 ?f ?b"
    "get_u16 (?f + 4) (mem w' (r_ptr r)) = get_u16 (?f + 4) ?b"
    using get_eq_sub [OF fs] by simp_all
  have "slice (arena_start r s i) (length meta) (mem w' (r_ptr r)) = slice (arena_start r s i) (length meta) ?b"
    using P B st by (intro unchanged_slice [OF un]) (auto simp: meta_stored_def Let_def)
  with st g show ?thesis by (simp add: meta_stored_def Let_def)
qed

section \<open>Writing a body\<close>

text \<open>The bytes a body may occupy: its three fields, and the arena after \<open>meta_len\<close> bytes of metadata.\<close>

definition body_area :: "shm_region \<Rightarrow> side \<Rightarrow> usize \<Rightarrow> nat \<Rightarrow> nat set" where
  "body_area r s i meta_len =
     {fields_at s i + 8 ..< fields_at s i + 17} \<union> {arena_start r s i + meta_len ..< arena_stop r s i}"

lemma body_area_payload: "body_area r s i n \<subseteq> payload_area r s i"
  by (auto simp: body_area_def payload_area_def)

lemma arena_body_offset_Some:
  assumes cr: "control_region r w" and i: "unat i < unat (r_num_slots r)" and ha: "heap_addressable r"
    and meta: "meta_len \<le> unat (snd (arena r s i))" and body: "slice_len_ok body" "body \<noteq> []"
    and off: "arena_body_offset (fst (arena r s i)) (snd (arena r s i)) (usize_of meta_len)
        (usize_of (length body)) = Some off"
  shows "arena_start r s i + meta_len \<le> unat (r_heap_offset r) + unat off"
    and "unat (r_heap_offset r) + unat off + length body \<le> arena_stop r s i"
    and "unat off + length body \<le> unat (r_heap_size r)"
proof -
  obtain base sz where a: "arena r s i = (base, sz)" by fastforce
  have B: "unat base + unat sz \<le> unat (r_heap_size r)"
    using arena_bounds(1) [OF cr i, of s] a by simp
  have H: "unat (r_heap_size r) + 64 < usize_limit" using control_regionD [OF cr] by simp
  have m: "meta_len \<le> unat sz" using meta a by simp
  have ml: "unat (usize_of meta_len) = meta_len" using m B H by simp
  have al: "unat (align8 (usize_of meta_len)) = (meta_len + 7) div 8 * 8"
    using m B H ml by (subst unat_align8) simp_all
  have up: "(meta_len + 7) div 8 * 8 \<le> meta_len + 7" by simp
  have start: "unat (base + align8 (usize_of meta_len)) = unat base + (meta_len + 7) div 8 * 8"
    using up m B H al by (subst unat_add_exact) simp_all
  have stop: "unat (base + sz) = unat base + unat sz" using B H by (subst unat_add_exact) simp_all
  obtain e where e: "checked_add (base + align8 (usize_of meta_len)) (usize_of (length body)) = Some e"
      and le: "e \<le> base + sz" and o: "off = ucast (base + align8 (usize_of meta_len))"
    using off a by (auto simp: arena_body_offset_def Let_def split: Option.bind_splits if_splits)
  have fit: "unat base + (meta_len + 7) div 8 * 8 + length body \<le> unat base + unat sz"
    using e le start stop body(1) by (simp add: checked_add_eq_Some word_le_nat_alt)
  have "0 < length body" using body(2) by simp
  then have "unat base + (meta_len + 7) div 8 * 8 < 2 ^ 32"
    using fit B ha unfolding heap_addressable_def by linarith
  then have off': "unat off = unat base + (meta_len + 7) div 8 * 8"
    using start o by (simp add: unat_narrow)
  show "arena_start r s i + meta_len \<le> unat (r_heap_offset r) + unat off"
    and "unat (r_heap_offset r) + unat off + length body \<le> arena_stop r s i"
    and "unat off + length body \<le> unat (r_heap_size r)"
    using fit off' B a by (simp_all add: arena_start_def arena_stop_def)
qed

lemma arena_body_offset_None:
  assumes cr: "control_region r w" and i: "unat i < unat (r_num_slots r)"
    and meta: "meta_len \<le> unat (snd (arena r s i))" and body: "slice_len_ok body"
  shows "arena_body_offset (fst (arena r s i)) (snd (arena r s i)) (usize_of meta_len)
      (usize_of (length body)) = None \<longleftrightarrow>
    unat (snd (arena r s i)) < (meta_len + 7) div 8 * 8 + length body"
proof -
  obtain base sz where a: "arena r s i = (base, sz)" by fastforce
  have B: "unat base + unat sz \<le> unat (r_heap_size r)"
    using arena_bounds(1) [OF cr i, of s] a by simp
  have H: "unat (r_heap_size r) + 64 < usize_limit" using control_regionD [OF cr] by simp
  have m: "meta_len \<le> unat sz" using meta a by simp
  have ml: "unat (usize_of meta_len) = meta_len" using m B H by simp
  have al: "unat (align8 (usize_of meta_len)) = (meta_len + 7) div 8 * 8"
    using m B H ml by (subst unat_align8) simp_all
  have up: "(meta_len + 7) div 8 * 8 \<le> meta_len + 7" by simp
  have start: "unat (base + align8 (usize_of meta_len)) = unat base + (meta_len + 7) div 8 * 8"
    using up m B H al by (subst unat_add_exact) simp_all
  have stop: "unat (base + sz) = unat base + unat sz" using B H by (subst unat_add_exact) simp_all
  show ?thesis
  proof (cases "checked_add (base + align8 (usize_of meta_len)) (usize_of (length body))")
    case None
    then have "usize_limit \<le> unat base + (meta_len + 7) div 8 * 8 + length body"
      using start body by (simp add: checked_add_eq_None)
    then show ?thesis using None a B H by (simp add: arena_body_offset_def Let_def)
  next
    case (Some e)
    then have e: "unat e = unat base + (meta_len + 7) div 8 * 8 + length body"
      using start body by (simp add: checked_add_eq_Some)
    then show ?thesis using Some a stop
      by (simp add: arena_body_offset_def Let_def word_le_nat_alt not_le)
  qed
qed

text \<open>A body is placed without an overflow region exactly when it is empty or fits after the metadata.\<close>

definition inline_fits :: "shm_region \<Rightarrow> side \<Rightarrow> usize \<Rightarrow> bytes \<Rightarrow> bytes \<Rightarrow> bool" where
  "inline_fits r s i meta body \<longleftrightarrow>
     body = [] \<or> (length meta + 7) div 8 * 8 + length body \<le> unat (snd (arena r s i))"

lemma fields_at_mod: "fields_at s i mod 4 = 0"
  by (cases s) (simp_all add: fields_at_def field_base_def slot_start_def mod_simps)

lemma fields_at_aligned [simp]:
  "fields_at s i mod 4 = 0" "(fields_at s i + 4) mod 2 = 0"
  "(fields_at s i + 8) mod 4 = 0" "(fields_at s i + 12) mod 4 = 0"
  using fields_at_mod [of s i] by presburger+

lemma control_region_touches:
  "control_region r w \<Longrightarrow> touches V (r_ptr r) S w w' \<Longrightarrow> control_region r w'"
  using control_region_bytes [OF touches_length] .

text \<open>The three stores at the end of each branch of \<open>write_body\<close>.\<close>

lemma body_fields:
  assumes doc: "shmem_documented X V" and cr: "control_region r w"
    and i: "unat i < unat (r_num_slots r)" and held: "0 < handles V w (r_ptr r)"
  shows "\<exists>w1 w2 w3. write_u32 (r_ptr r) (fields_at s i + 8) off w = Some w1
    \<and> write_u32 (r_ptr r) (fields_at s i + 12) len w1 = Some w2
    \<and> write_u8 (r_ptr r) (fields_at s i + 16) mark w2 = Some w3
    \<and> touches V (r_ptr r) {fields_at s i + 8 ..< fields_at s i + 17} w w3
    \<and> get_u32 (fields_at s i + 8) (mem w3 (r_ptr r)) = off
    \<and> get_u32 (fields_at s i + 12) (mem w3 (r_ptr r)) = len
    \<and> get_u8 (fields_at s i + 16) (mem w3 (r_ptr r)) = mark"
proof -
  note B = arena_bounds [OF cr i, of s] slot_base_eq [OF cr i]
  let ?p = "r_ptr r" and ?f = "fields_at s i"
  let ?w1 = "put ?p (?f + 8) (le32 off) w"
  let ?w2 = "put ?p (?f + 12) (le32 len) ?w1"
  let ?w3 = "put ?p (?f + 16) [mark] ?w2"
  have len: "?f + 17 \<le> length (mem w ?p)" using B by linarith
  have "write_u32 ?p (?f + 8) off w = Some ?w1" "write_u32 ?p (?f + 12) len ?w1 = Some ?w2"
    "write_u8 ?p (?f + 16) mark ?w2 = Some ?w3"
    using len by (simp_all add: mem_simps length_splice)
  moreover have "touches V ?p {?f + 8 ..< ?f + 17} w ?w3"
  proof -
    let ?S = "{?f + 8 ..< ?f + 17}"
    have "touches V ?p ?S w ?w1" using len held by (intro touches_put [OF doc]) auto
    moreover have "touches V ?p ?S ?w1 ?w2"
      using len held doc by (intro touches_put [OF doc]) (auto simp: length_splice)
    moreover have "touches V ?p ?S ?w2 ?w3"
      using len held doc by (intro touches_put [OF doc]) (auto simp: length_splice)
    ultimately show ?thesis by (blast intro: touches_trans)
  qed
  moreover have "get_u32 (?f + 8) (mem ?w3 ?p) = off" "get_u32 (?f + 12) (mem ?w3 ?p) = len"
    "get_u8 (?f + 16) (mem ?w3 ?p) = mark"
    using len by (simp_all add: slice_simps)
  ultimately show ?thesis by blast
qed

lemma heap_write_stored:
  assumes doc: "shmem_documented X V" and cr: "control_region r w" and held: "0 < handles V w (r_ptr r)"
    and len: "slice_len_ok data" and fit: "unat off + length data \<le> unat (r_heap_size r)"
  shows "\<exists>w'. heap_write_checked r off data w = Some (Inr (), w')
    \<and> touches V (r_ptr r) {unat (r_heap_offset r) + unat off ..<
          unat (r_heap_offset r) + unat off + length data} w w'
    \<and> slice (unat (r_heap_offset r) + unat off) (length data) (mem w' (r_ptr r)) = data"
proof -
  have end_in: "unat (r_heap_offset r) + unat off + length data \<le> length (mem w (r_ptr r))"
    using fit control_regionD [OF cr] by simp
  have "heap_write_checked r off data w =
      Some (Inr (), put (r_ptr r) (unat (r_heap_offset r) + unat off) data w)"
    by (rule heap_write_checked_in [OF control_heap_end [OF cr] len fit])
  then show ?thesis
    using end_in held by (auto intro!: touches_put [OF doc] simp: slice_splice_same)
qed

lemma body_write_at:
  assumes "control_region r w" and "unat i < unat (r_num_slots r)"
  shows "slot_base i + (field_base s + k) = fields_at s i + k"
  using slot_base_eq(1) [OF assms] by (simp add: fields_at_def)

text \<open>An overflow region handed out is one that nobody held before.\<close>

definition fresh_handle :: "'os shm_view \<Rightarrow> shm_region \<Rightarrow> 'os world \<Rightarrow> 'os world \<Rightarrow> bool" where
  "fresh_handle V o1 w w' \<longleftrightarrow>
     handles V w (r_ptr o1) = 0 \<and> 0 < handles V w' (r_ptr o1) \<and> shm_seg (r_shmem o1) = r_ptr o1"

lemma unheld_before:
  "touches V seg S w w' \<Longrightarrow> 0 < handles V w seg \<Longrightarrow> handles V w' s = 0 \<Longrightarrow> handles V w s = 0"
  by (cases "s = seg") (auto simp: touches_def kept_def)

lemma fresh_handle_between:
  assumes "touches V seg S w w1" and "fresh_handle V o1 w1 w2" and "touches V seg T w2 w3"
    and "0 < handles V w seg"
  shows "fresh_handle V o1 w w3"
proof -
  have "handles V w (r_ptr o1) = 0"
    using unheld_before [OF assms(1,4)] assms(2) by (simp add: fresh_handle_def)
  moreover have "0 < handles V w3 (r_ptr o1)"
    using assms(2,3) by (cases "r_ptr o1 = seg") (auto simp: fresh_handle_def touches_def kept_def)
  ultimately show ?thesis using assms(2) by (simp add: fresh_handle_def)
qed

lemma write_body_result:
  assumes doc: "shmem_documented X V" and cr: "control_region r w"
    and i: "unat i < unat (r_num_slots r)" and ha: "heap_addressable r"
    and held: "0 < handles V w (r_ptr r)" and body: "slice_len_ok body"
    and meta: "length meta \<le> unat (snd (arena r s i))" and names: "names_total nf"
  shows "\<exists>res w'. write_body pl X r (slot_base i) (field_base s + 8) (field_base s + 12) (field_base s + 16)
        nf (fst (arena r s i)) (snd (arena r s i)) meta body w = Some (res, w')
    \<and> touches V (r_ptr r) (body_area r s i (length meta)) w w'
    \<and> (inline_fits r s i meta body \<longrightarrow> res = Inr None)
    \<and> (\<forall>o1. res = Inr (Some o1) \<longrightarrow> fresh_handle V o1 w w')
    \<and> (\<forall>ovf. res = Inr ovf \<longrightarrow> length body < 2 ^ 32 \<longrightarrow> body_stored V nf r s i body ovf w')"
proof -
  note none = arena_body_offset_None [OF cr i meta body]
  note at = body_write_at [OF cr i]
  let ?p = "r_ptr r" and ?f = "fields_at s i" and ?S = "body_area r s i (length meta)"
  have fs: "touches V ?p {?f + 8 ..< ?f + 17} v v' \<Longrightarrow> touches V ?p ?S v v'" for v v'
    by (erule touches_mono) (auto simp: body_area_def)
  consider "body = []"
    | off where "body \<noteq> []" "arena_body_offset (fst (arena r s i)) (snd (arena r s i))
        (usize_of (length meta)) (usize_of (length body)) = Some off"
    | "body \<noteq> []" "arena_body_offset (fst (arena r s i)) (snd (arena r s i))
        (usize_of (length meta)) (usize_of (length body)) = None"
    by blast
  then show ?thesis
  proof cases
    case 1
    obtain w1 w2 w3 where S: "write_u32 ?p (?f + 8) 0 w = Some w1" "write_u32 ?p (?f + 12) 0 w1 = Some w2"
      "write_u8 ?p (?f + 16) 0 w2 = Some w3" "touches V ?p {?f + 8 ..< ?f + 17} w w3"
      "get_u32 (?f + 12) (mem w3 ?p) = 0"
      using body_fields [OF doc cr i held, of s 0 0 0] by blast
    then show ?thesis using 1 fs by (simp add: write_body_def at body_stored_def Let_def)
  next
    case (2 off)
    note O = arena_body_offset_Some [OF cr i ha meta body 2]
    obtain w0 where h: "heap_write_checked r off body w = Some (Inr (), w0)"
      and t0: "touches V ?p {unat (r_heap_offset r) + unat off ..<
          unat (r_heap_offset r) + unat off + length body} w w0"
      and s0: "slice (unat (r_heap_offset r) + unat off) (length body) (mem w0 ?p) = body"
      using heap_write_stored [OF doc cr held body O(3)] by blast
    have cr0: "control_region r w0" and held0: "0 < handles V w0 ?p"
      using t0 cr control_region_touches touches_held by blast+
    obtain w1 w2 w3 where S: "write_u32 ?p (?f + 8) off w0 = Some w1"
      "write_u32 ?p (?f + 12) (ucast (usize_of (length body))) w1 = Some w2"
      "write_u8 ?p (?f + 16) 0 w2 = Some w3" "touches V ?p {?f + 8 ..< ?f + 17} w0 w3"
      "get_u32 (?f + 8) (mem w3 ?p) = off"
      "get_u32 (?f + 12) (mem w3 ?p) = ucast (usize_of (length body))" "get_u8 (?f + 16) (mem w3 ?p) = 0"
      using body_fields [OF doc cr0 i held0, of s off "ucast (usize_of (length body))" 0] by blast
    have "touches V ?p ?S w w0" using O by (intro touches_mono [OF t0]) (auto simp: body_area_def)
    then have t: "touches V ?p ?S w w3" using fs [OF S(4)] by (rule touches_trans)
    have "slice (unat (r_heap_offset r) + unat off) (length body) (mem w3 ?p) = body"
    proof -
      note B = arena_bounds [OF cr0 i, of s]
      have "slice (unat (r_heap_offset r) + unat off) (length body) (mem w3 ?p)
          = slice (unat (r_heap_offset r) + unat off) (length body) (mem w0 ?p)"
        using B O by (intro unchanged_slice [OF touches_bytes [OF S(4)]] disjoint_atLeastLessThan) simp_all
      with s0 show ?thesis by simp
    qed
    then show ?thesis using 2 h S t O body
      by (simp add: write_body_def at body_stored_def Let_def unat_narrow)
  next
    case 3
    obtain res w0 where c: "create_overflow_fresh pl X nf body w = Some (res, w0)"
      and k: "kept V UNIV w w0"
      and R: "\<And>o1 marker. res = Inr (o1, marker) \<Longrightarrow> handles V w (r_ptr o1) = 0 \<and>
        (\<exists>g name. g \<le> MAX_OVERFLOW_GENERATION \<and> marker = g + 1 \<and> nf g = Some name
           \<and> overflow_holds V name body o1 w0)"
      using create_overflow_fresh_result [OF doc body names] by blast
    have t0: "touches V ?p ?S w w0" using k held by (rule touches_kept)
    have big: "\<not> inline_fits r s i meta body" using 3 none by (simp add: inline_fits_def)
    show ?thesis
    proof (cases res)
      case (Inl e)
      then show ?thesis using 3 c t0 big by (simp add: write_body_def)
    next
      case (Inr om)
      obtain o1 marker where om: "om = (o1, marker)" by fastforce
      have cr0: "control_region r w0" and held0: "0 < handles V w0 ?p"
        using t0 cr control_region_touches touches_held by blast+
      obtain w1 w2 w3 where S: "write_u32 ?p (?f + 8) 0 w0 = Some w1"
        "write_u32 ?p (?f + 12) (ucast (usize_of (length body))) w1 = Some w2"
        "write_u8 ?p (?f + 16) marker w2 = Some w3" "touches V ?p {?f + 8 ..< ?f + 17} w0 w3"
        "get_u32 (?f + 12) (mem w3 ?p) = ucast (usize_of (length body))"
        "get_u8 (?f + 16) (mem w3 ?p) = marker"
        using body_fields [OF doc cr0 i held0, of s 0 "ucast (usize_of (length body))" marker] by blast
      have t: "touches V ?p ?S w w3" using t0 fs [OF S(4)] by (rule touches_trans)
      obtain g name where g: "g \<le> MAX_OVERFLOW_GENERATION" "marker = g + 1" "nf g = Some name"
        "overflow_holds V name body o1 w0" and new: "handles V w (r_ptr o1) = 0"
        using R Inr om by blast
      have apart: "r_ptr o1 \<noteq> ?p" using new held by auto
      then have "overflow_holds V name body o1 w3"
        using overflow_holds_kept [OF g(4)] S(4) by (auto simp: touches_def)
      then have "length body < 2 ^ 32 \<Longrightarrow> body_stored V nf r s i body (Some o1) w3"
        using S g apart body by (auto simp: body_stored_def Let_def unat_narrow)
      moreover have "fresh_handle V o1 w w3"
        using new \<open>overflow_holds V name body o1 w3\<close> by (simp add: fresh_handle_def overflow_holds_def)
      ultimately show ?thesis using 3 c Inr om S t big by (simp add: write_body_def at)
    qed
  qed
qed

section \<open>Writing a message\<close>

text \<open>The common part of the two writers, from the placement of the metadata to the status store.\<close>

definition write_payload ::
  "platform \<Rightarrow> 'os externals \<Rightarrow> shm_region \<Rightarrow> side \<Rightarrow> usize \<Rightarrow> string \<Rightarrow> (u8 \<Rightarrow> string option) \<Rightarrow> u32 \<Rightarrow>
   bytes \<Rightarrow> bytes \<Rightarrow> 'os world \<Rightarrow> (shm_region option result \<times> 'os world) option" where
  "write_payload pl X r s i what nf final meta body w =
     (let base = fst (arena r s i); sz = snd (arena r s i); f = slot_base i + field_base s in
      if usize_of (length meta) > sz then Some (Inl (meta_too_big what meta sz), w)
      else and_then (heap_write_checked r (ucast base) meta w) (\<lambda>_ w. do {
             w \<leftarrow> write_u32 (r_ptr r) f (ucast base) w;
             w \<leftarrow> write_u16 (r_ptr r) (f + 4) (ucast (usize_of (length meta))) w;
             and_then (write_body pl X r (slot_base i) (field_base s + 8) (field_base s + 12)
                 (field_base s + 16) nf base sz meta body w) (\<lambda>ovf w. do {
               w \<leftarrow> store_status r i final w;
               Some (Inr ovf, w) }) }))"

lemma write_request_inner_payload:
  "i < r_num_slots r \<Longrightarrow> write_request_inner pl X r i req_id method meta body c w =
     do { w \<leftarrow> mem_write (r_ptr r) (slot_base i + 4) (replicate 36 0) w;
          w \<leftarrow> mem_write (r_ptr r) (slot_base i + 4) (take (min (length req_id) 36) (as_bytes req_id)) w;
          w \<leftarrow> write_u8 (r_ptr r) (slot_base i + 40) method w;
          write_payload pl X r Req i ''request'' (request_overflow_name_gen pl c i) SLOT_READY meta body w }"
proof -
  obtain rb rl sb sl where "region_slot_arenas r i = ((rb, rl), (sb, sl))" by (metis surj_pair)
  moreover assume "i < r_num_slots r"
  then have "\<not> r_num_slots r \<le> i" by simp
  ultimately show ?thesis
    by (simp add: write_request_inner_def write_payload_def arena_def field_base_def Let_def add.assoc
        cong: if_cong)
qed

lemma write_response_payload:
  "i < r_num_slots r \<Longrightarrow> write_response pl X r i status meta body c w =
     do { w \<leftarrow> write_u16 (r_ptr r) (slot_base i + 64) status w;
          write_payload pl X r Resp i ''response'' (response_overflow_name_gen pl c i) SLOT_DONE meta body w }"
proof -
  obtain rb rl sb sl where "region_slot_arenas r i = ((rb, rl), (sb, sl))" by (metis surj_pair)
  moreover assume "i < r_num_slots r"
  then have "\<not> r_num_slots r \<le> i" by simp
  ultimately show ?thesis
    by (simp add: write_response_def write_payload_def arena_def field_base_def Let_def add.assoc
        cong: if_cong)
qed

text \<open>Placing the metadata.\<close>

definition meta_area :: "shm_region \<Rightarrow> side \<Rightarrow> usize \<Rightarrow> nat \<Rightarrow> nat set" where
  "meta_area r s i n =
     {fields_at s i ..< fields_at s i + 6} \<union> {arena_start r s i ..< arena_start r s i + n}"

lemma write_meta_result:
  assumes doc: "shmem_documented X V" and cr: "control_region r w"
    and i: "unat i < unat (r_num_slots r)" and ha: "heap_addressable r"
    and held: "0 < handles V w (r_ptr r)" and len: "slice_len_ok meta"
    and meta: "length meta \<le> unat (snd (arena r s i))"
  shows "\<exists>w0 w1 w2. heap_write_checked r (ucast (fst (arena r s i))) meta w = Some (Inr (), w0)
    \<and> write_u32 (r_ptr r) (slot_base i + field_base s) (ucast (fst (arena r s i))) w0 = Some w1
    \<and> write_u16 (r_ptr r) (slot_base i + field_base s + 4) (ucast (usize_of (length meta))) w1 = Some w2
    \<and> touches V (r_ptr r) (meta_area r s i (length meta)) w w2
    \<and> meta_stored r s i meta w2"
proof -
  let ?p = "r_ptr r" and ?f = "fields_at s i" and ?a = "arena_start r s i" and ?S = "meta_area r s i (length meta)"
  let ?off = "ucast (fst (arena r s i)) :: u32" and ?ml = "ucast (usize_of (length meta)) :: u16"
  note B = arena_bounds [OF cr i, of s]
  have f: "slot_base i + field_base s = ?f" using body_write_at [OF cr i, of s 0] by simp
  have off: "unat (r_heap_offset r) + unat ?off = ?a"
    using arena_base_u32 [OF cr i ha] by (simp add: arena_start_def)
  have "unat ?off + length meta \<le> unat (r_heap_size r)"
    using B(1) meta arena_base_u32 [OF cr i ha, of s] by simp
  from heap_write_stored [OF doc cr held len this] obtain w0
    where h: "heap_write_checked r ?off meta w = Some (Inr (), w0)"
      and t0: "touches V ?p {?a ..< ?a + length meta} w w0"
      and s0: "slice ?a (length meta) (mem w0 ?p) = meta"
    unfolding off by blast
  have held0: "0 < handles V w0 ?p" using t0 by (rule touches_held)
  have lw: "length (mem w0 ?p) = length (mem w ?p)" using t0 by (rule touches_length)
  let ?w1 = "put ?p ?f (le32 ?off) w0"
  let ?w2 = "put ?p (?f + 4) (le16 ?ml) ?w1"
  have fits: "?f + 17 \<le> ?a" "?a + length meta \<le> length (mem w0 ?p)"
    using B meta lw by (simp_all add: arena_stop_def)
  have "write_u32 ?p ?f ?off w0 = Some ?w1" "write_u16 ?p (?f + 4) ?ml ?w1 = Some ?w2"
    using fits by (simp_all add: mem_simps length_splice)
  moreover have t: "touches V ?p ?S w ?w2"
  proof -
    have "touches V ?p ?S w w0" by (rule touches_mono [OF t0]) (auto simp: meta_area_def)
    moreover have "touches V ?p ?S w0 ?w1"
      using fits held0 by (intro touches_put [OF doc]) (auto simp: meta_area_def)
    moreover have "touches V ?p ?S ?w1 ?w2"
      using fits held0 doc by (intro touches_put [OF doc]) (auto simp: meta_area_def length_splice)
    ultimately show ?thesis by (blast intro: touches_trans)
  qed
  moreover have "meta_stored r s i meta ?w2"
  proof -
    have "unat ?ml = length meta mod 2 ^ 16" using len by (simp add: unat_narrow)
    then show ?thesis
      using fits off s0 meta by (simp add: meta_stored_def Let_def slice_simps arena_stop_def)
  qed
  ultimately show ?thesis unfolding f using h by blast
qed

text \<open>What \<open>write_payload\<close> does, in every case.\<close>

lemma write_payload_result:
  assumes doc: "shmem_documented X V" and cr: "control_region r w"
    and i: "unat i < unat (r_num_slots r)" and ha: "heap_addressable r"
    and held: "0 < handles V w (r_ptr r)" and lens: "slice_len_ok meta" "slice_len_ok body"
    and names: "names_total nf"
  shows "\<exists>res w'. write_payload pl X r s i what nf final meta body w = Some (res, w')
    \<and> (unat (snd (arena r s i)) < length meta \<longrightarrow> res = Inl (meta_too_big what meta (snd (arena r s i))))
    \<and> (length meta \<le> unat (snd (arena r s i)) \<and> inline_fits r s i meta body \<longrightarrow> res = Inr None)
    \<and> (\<forall>o1. res = Inr (Some o1) \<longrightarrow> fresh_handle V o1 w w')
    \<and> (case res of
      Inl e \<Rightarrow> touches V (r_ptr r) (payload_area r s i) w w'
    | Inr ovf \<Rightarrow> touches V (r_ptr r) (payload_area r s i \<union> status_area i) w w'
        \<and> status_at r i w' = final \<and> meta_stored r s i meta w'
        \<and> (length meta < 2 ^ 16 \<longrightarrow> length body < 2 ^ 32 \<longrightarrow> stored V nf r s i meta body ovf w'))"
proof (cases "usize_of (length meta) > snd (arena r s i)")
  case True
  moreover have "unat (snd (arena r s i)) < length meta"
    using True lens(1) by (simp add: word_less_nat_alt)
  ultimately show ?thesis using held by (simp add: write_payload_def Let_def)
next
  case False
  then have meta: "length meta \<le> unat (snd (arena r s i))"
    using lens(1) by (simp add: word_less_nat_alt not_less)
  let ?p = "r_ptr r" and ?P = "payload_area r s i"
  note B = arena_bounds [OF cr i, of s]
  obtain w0 w1 w2 where M: "heap_write_checked r (ucast (fst (arena r s i))) meta w = Some (Inr (), w0)"
    "write_u32 ?p (slot_base i + field_base s) (ucast (fst (arena r s i))) w0 = Some w1"
    "write_u16 ?p (slot_base i + field_base s + 4) (ucast (usize_of (length meta))) w1 = Some w2"
    and tm: "touches V ?p (meta_area r s i (length meta)) w w2"
    and sm: "meta_stored r s i meta w2"
    using write_meta_result [OF doc cr i ha held lens(1) meta] by blast
  have cr2: "control_region r w2" and held2: "0 < handles V w2 ?p"
    using tm cr control_region_touches touches_held by blast+
  obtain res w3 where b: "write_body pl X r (slot_base i) (field_base s + 8) (field_base s + 12)
      (field_base s + 16) nf (fst (arena r s i)) (snd (arena r s i)) meta body w2 = Some (res, w3)"
    and tb: "touches V ?p (body_area r s i (length meta)) w2 w3"
    and fits: "inline_fits r s i meta body \<Longrightarrow> res = Inr None"
    and new: "\<And>o1. res = Inr (Some o1) \<Longrightarrow> fresh_handle V o1 w2 w3"
    and sb: "\<And>ovf. res = Inr ovf \<Longrightarrow> length body < 2 ^ 32 \<Longrightarrow> body_stored V nf r s i body ovf w3"
    using write_body_result [OF doc cr2 i ha held2 lens(2) meta names] by blast
  have "meta_area r s i (length meta) \<subseteq> ?P"
    using meta by (auto simp: meta_area_def payload_area_def arena_stop_def)
  then have t3: "touches V ?p ?P w w3"
    using touches_trans [OF touches_mono [OF tm] touches_mono [OF tb body_area_payload]] by blast
  have cr3: "control_region r w3" and held3: "0 < handles V w3 ?p"
    using t3 cr control_region_touches touches_held by blast+
  show ?thesis
  proof (cases res)
    case (Inl e)
    then show ?thesis using False M b t3 fits meta by (auto simp: write_payload_def Let_def)
  next
    case (Inr ovf)
    let ?w4 = "put ?p (slot_start i) (le32 final) w3"
    have fit: "slot_start i + 4 \<le> length (mem w3 ?p)" using slot_base_eq(3) [OF cr3 i] by simp
    have st: "store_status r i final w3 = Some ?w4" by (rule status_ops(2) [OF cr3 i])
    have t4: "touches V ?p (status_area i) w3 ?w4"
      using held3 fit by (intro touches_put [OF doc]) (auto simp: status_area_def)
    have "touches V ?p (?P \<union> status_area i) w ?w4"
      using touches_trans [OF touches_mono [OF t3] touches_mono [OF t4]] by blast
    moreover have "fresh_handle V o1 w ?w4" if "ovf = Some o1" for o1
      using fresh_handle_between [OF tm new t4 held] Inr that by simp
    moreover have "status_at r i ?w4 = final" using fit by (simp add: slice_simps)
    moreover have m4: "meta_stored r s i meta ?w4"
    proof -
      have dis: "status_area i \<inter> ?P = {}" by (rule status_area_disjoint [OF cr i i])
      have "meta_area r s i (length meta) \<subseteq> ?P"
        using meta by (auto simp: meta_area_def payload_area_def arena_stop_def)
      then have d4: "status_area i \<inter> meta_area r s i (length meta) = {}" using dis by blast
      have d3: "body_area r s i (length meta) \<inter> meta_area r s i (length meta) = {}"
        using B by (auto simp: body_area_def meta_area_def)
      have m3: "meta_stored r s i meta w3"
        by (rule meta_stored_frame [OF sm cr2 i touches_bytes [OF tb] d3 [unfolded meta_area_def]])
      show ?thesis
        by (rule meta_stored_frame [OF m3 cr3 i touches_bytes [OF t4] d4 [unfolded meta_area_def]])
    qed
    moreover have "stored V nf r s i meta body ovf ?w4"
      if "length meta < 2 ^ 16" "length body < 2 ^ 32"
    proof -
      have dis: "status_area i \<inter> ?P = {}" by (rule status_area_disjoint [OF cr i i])
      have b3: "body_stored V nf r s i body ovf w3" using sb Inr that(2) by blast
      have "body_stored V nf r s i body ovf ?w4"
        by (rule body_stored_frame [OF b3 cr3 i touches_bytes [OF t4] dis ovf_kept_touches [OF b3 t4]])
      with m4 that(1) show ?thesis by (simp add: stored_def)
    qed
    ultimately show ?thesis using False M b Inr st fits meta by (auto simp: write_payload_def Let_def)
  qed
qed

section \<open>Reading a message\<close>

text \<open>Reading leaves every byte, handle and name as it was.\<close>

definition unobserved :: "'os shm_view \<Rightarrow> 'os world \<Rightarrow> 'os world \<Rightarrow> bool" where
  "unobserved V w w' \<longleftrightarrow>
     mem w' = mem w \<and> handles V w' = handles V w
     \<and> (\<forall>name s. bound V w' name = Some s \<longleftrightarrow> bound V w name = Some s)"

lemma unobserved_refl [simp]: "unobserved V w w"
  by (simp add: unobserved_def)

lemma heap_read_meta_cut:
  assumes "control_region r w" and "unat i < unat (r_num_slots r)" and "meta_stored r s i meta w"
  shows "heap_read_checked r (get_u32 (fields_at s i) (mem w (r_ptr r)))
    (ucast (get_u16 (fields_at s i + 4) (mem w (r_ptr r)))) w = Some (Inr (take (length meta mod 2 ^ 16) meta))"
proof -
  let ?b = "mem w (r_ptr r)" and ?n = "length meta mod 2 ^ 16"
  note B = arena_bounds(1) [OF assms(1,2), of s]
  have le: "?n \<le> length meta" by simp
  have M: "slice (arena_start r s i) (length meta) ?b = meta"
    using assms(3) by (simp add: meta_stored_def Let_def)
  have "unat (get_u32 (fields_at s i) ?b) + length meta \<le> unat (r_heap_size r)"
    using assms(3) B by (simp add: meta_stored_def Let_def arena_stop_def arena_start_def)
  then have "unat (get_u32 (fields_at s i) ?b) + ?n \<le> unat (r_heap_size r)" using le by linarith
  moreover have "slice (arena_start r s i) ?n ?b = slice 0 ?n meta"
    using slice_slice [of 0 ?n "length meta" "arena_start r s i" ?b] le M by simp
  ultimately show ?thesis
    using assms(3) by (subst heap_read_checked_in [OF control_heap_end [OF assms(1)]])
      (simp_all add: meta_stored_def Let_def slice_def)
qed

lemma heap_read_meta:
  assumes "control_region r w" and "unat i < unat (r_num_slots r)" and "meta_stored r s i meta w"
    and "length meta < 2 ^ 16"
  shows "heap_read_checked r (get_u32 (fields_at s i) (mem w (r_ptr r)))
    (ucast (get_u16 (fields_at s i + 4) (mem w (r_ptr r)))) w = Some (Inr meta)"
  using heap_read_meta_cut [OF assms(1,2,3)] assms(4) by simp

lemma read_body_stored:
  assumes doc: "shmem_documented X V" and cr: "control_region r w"
    and i: "unat i < unat (r_num_slots r)" and st: "body_stored V nf r s i body ovf w"
  shows "\<exists>w'. read_body X r nf (get_u32 (fields_at s i + 8) (mem w (r_ptr r)))
      (get_u32 (fields_at s i + 12) (mem w (r_ptr r))) (get_u8 (fields_at s i + 16) (mem w (r_ptr r))) w
    = Some (Inr body, w') \<and> unobserved V w w'"
proof -
  let ?b = "mem w (r_ptr r)" and ?f = "fields_at s i"
  let ?off = "get_u32 (?f + 8) ?b"
  note B = arena_bounds(1) [OF cr i, of s]
  have len: "unat (get_u32 (?f + 12) ?b) = length body" using st by (simp add: body_stored_def Let_def)
  then have len': "ucast (get_u32 (?f + 12) ?b) = usize_of (length body)"
    by (metis unat_widen(1) usize_of_unat)
  consider "body = []"
    | "ovf = None" "body \<noteq> []" "get_u8 (?f + 16) ?b = 0"
      "unat (r_heap_offset r) + unat ?off + length body \<le> arena_stop r s i"
      "slice (unat (r_heap_offset r) + unat ?off) (length body) ?b = body"
    | o1 g name where "body \<noteq> []" "g \<le> MAX_OVERFLOW_GENERATION" "get_u8 (?f + 16) ?b = g + 1"
      "nf g = Some name" "overflow_holds V name body o1 w"
    using st by (fastforce simp: body_stored_def Let_def split: option.splits)
  then show ?thesis
  proof cases
    case 1
    then have "get_u32 (?f + 12) ?b = 0" using len by (simp add: unat_eq_0)
    then show ?thesis using 1 by (simp add: read_body_def)
  next
    case 2
    have "(ucast (get_u32 (?f + 12) ?b) :: usize) \<noteq> 0"
      using 2(2) len by (metis length_0_conv unat_0 unat_widen(1))
    moreover have "heap_read_checked r ?off (ucast (get_u32 (?f + 12) ?b)) w = Some (Inr body)"
      using 2 B len by (subst heap_read_checked_in [OF control_heap_end [OF cr]])
        (simp_all add: arena_stop_def arena_start_def)
    ultimately show ?thesis using 2 by (simp add: read_body_def overflow_generation_eq)
  next
    case (3 o1 g name)
    have nz: "(ucast (get_u32 (?f + 12) ?b) :: usize) \<noteq> 0"
      using 3(1) len by (metis length_0_conv unat_0 unat_widen(1))
    obtain w' where "read_overflow X name (usize_of (length body)) w = Some (Inr body, w')"
      "unobserved V w w'"
      using read_overflow_held [OF doc 3(5)] by (auto simp: unobserved_def)
    then show ?thesis using 3 nz len' by (simp add: read_body_def overflow_generation_plus1)
  qed
qed

text \<open>Whatever the fields contain, reading stays inside the mappings and disturbs nobody.\<close>

lemma read_overflow_total:
  assumes doc: "shmem_documented X V"
  shows "\<exists>res w'. read_overflow X name len w = Some (res, w') \<and> kept V UNIV w w'"
proof (cases "shmem_open X name w")
  case (Pair a w1)
  note k = kept_open [OF doc Pair]
  show ?thesis
  proof (cases a)
    case (Inl e)
    with Pair k show ?thesis by (simp add: read_overflow_def region_open_def)
  next
    case (Inr h)
    note op = open_ok [OF doc Pair [unfolded Inr]]
    have kd: "kept V UNIV w (shmem_drop X h w1)"
    proof (cases "0 < handles V w (shm_seg h)")
      case True
      then show ?thesis using open_then_drop [OF doc Pair [unfolded Inr]] by (simp add: kept_def)
    next
      case False
      have "kept V (- {shm_seg h}) w (shmem_drop X h w1)"
        using kept_mono [OF k] kept_drop [OF doc] by (blast intro: kept_trans)
      then show ?thesis by (rule kept_unheld) (use False in simp)
    qed
    show ?thesis
    proof (cases "len > shm_len h")
      case True
      with Pair Inr kd show ?thesis by (simp add: read_overflow_def region_open_def region_drop_def)
    next
      case False
      then have "unat len \<le> length (mem w1 (shm_seg h))" using op by (simp add: word_less_nat_alt)
      with False Pair Inr kd show ?thesis
        by (simp add: read_overflow_def region_open_def region_drop_def mem_simps)
    qed
  qed
qed

lemma heap_read_total:
  assumes "control_region r w"
  shows "\<exists>res. heap_read_checked r off len w = Some res"
  using heap_read_checked_in [OF control_heap_end [OF assms], of off len]
    heap_read_checked_out [of off len r w] by blast

lemma read_body_total:
  assumes doc: "shmem_documented X V" and cr: "control_region r w" and names: "names_total nf"
  shows "\<exists>res w'. read_body X r nf off len mark w = Some (res, w') \<and> kept V UNIV w w'"
proof -
  obtain h where h: "heap_read_checked r off (ucast len) w = Some h"
    using heap_read_total [OF cr] by blast
  show ?thesis
  proof (cases "(ucast len :: usize) = 0")
    case True
    then show ?thesis by (simp add: read_body_def)
  next
    case False
    show ?thesis
    proof (cases "overflow_generation mark")
      case None
      with False h show ?thesis by (simp add: read_body_def)
    next
      case (Some g)
      obtain name where "nf g = Some name" using names by (auto simp: names_total_def)
      with False Some show ?thesis
        using read_overflow_total [OF doc, of name "ucast len" w] by (auto simp: read_body_def)
    qed
  qed
qed

end
