(* ===== verification/Exchange.thy ===== *)
theory Exchange
  imports Messages
begin

text \<open>
  What the two writers and the two readers promise to the transport: a message written is read back
  unchanged by any peer that maps the segment, a write disturbs no other message, a failed write
  releases the slot, and reading never leaves the mapping even when the slot holds garbage.
\<close>

section \<open>Usable regions and stored messages\<close>

definition live :: "'os shm_view \<Rightarrow> shm_region \<Rightarrow> 'os world \<Rightarrow> bool" where
  "live V r w \<longleftrightarrow> control_region r w \<and> heap_addressable r \<and> 0 < handles V w (r_ptr r)"

lemma liveD:
  assumes "live V r w"
  shows "control_region r w" and "heap_addressable r" and "0 < handles V w (r_ptr r)"
  using assms by (simp_all add: live_def)

lemma live_touches: "live V r w \<Longrightarrow> touches V (r_ptr r) S w w' \<Longrightarrow> live V r w'"
  by (auto simp: live_def intro: control_region_touches touches_held)

text \<open>Two handles of one segment that agree on the layout, as the hub's and the worker's do.\<close>

definition same_layout :: "shm_region \<Rightarrow> shm_region \<Rightarrow> bool" where
  "same_layout q r \<longleftrightarrow>
     r_ptr q = r_ptr r \<and> r_len q = r_len r \<and> r_num_slots q = r_num_slots r
     \<and> r_heap_offset q = r_heap_offset r \<and> r_heap_size q = r_heap_size r"

lemma same_layout_refl [simp]: "same_layout r r"
  by (simp add: same_layout_def)

lemma same_layout_control: "same_layout q r \<Longrightarrow> control_region q w \<longleftrightarrow> control_region r w"
  by (simp add: same_layout_def control_region_def)

lemma same_layout_live: "same_layout q r \<Longrightarrow> live V q w \<longleftrightarrow> live V r w"
  by (simp add: live_def same_layout_control) (simp add: same_layout_def heap_addressable_def)

lemma same_layout_arena:
  assumes "same_layout q r"
  shows "arena q s i = arena r s i" and "arena_start q s i = arena_start r s i"
    and "arena_stop q s i = arena_stop r s i"
  using assms
  by (simp_all add: same_layout_def arena_def region_slot_arenas_def arena_start_def arena_stop_def
      split: side.splits)

lemma same_layout_stored:
  assumes "same_layout q r"
  shows "stored V nf q s i meta body ovf w \<longleftrightarrow> stored V nf r s i meta body ovf w"
proof -
  have "r_ptr q = r_ptr r" "r_heap_offset q = r_heap_offset r" using assms by (simp_all add: same_layout_def)
  then show ?thesis
    by (cases ovf)
      (simp_all add: stored_def meta_stored_def body_stored_def same_layout_arena [OF assms] Let_def)
qed

definition request_area :: "shm_region \<Rightarrow> usize \<Rightarrow> nat set" where
  "request_area r i = {slot_start i + 4 ..< slot_start i + 41} \<union> payload_area r Req i"

definition response_area :: "shm_region \<Rightarrow> usize \<Rightarrow> nat set" where
  "response_area r i = {slot_start i + 64 ..< slot_start i + 66} \<union> payload_area r Resp i"

definition request_stored ::
  "'os shm_view \<Rightarrow> platform \<Rightarrow> config \<Rightarrow> shm_region \<Rightarrow> usize \<Rightarrow> string \<Rightarrow> u8 \<Rightarrow> bytes \<Rightarrow> bytes \<Rightarrow>
   shm_region option \<Rightarrow> 'os world \<Rightarrow> bool" where
  "request_stored V pl c r i req_id method meta body ovf w \<longleftrightarrow>
     slice (slot_start i + 4) 36 (mem w (r_ptr r)) = req_id_field req_id
     \<and> get_u8 (slot_start i + 40) (mem w (r_ptr r)) = method
     \<and> stored V (request_overflow_name_gen pl c i) r Req i meta body ovf w"

definition response_stored ::
  "'os shm_view \<Rightarrow> platform \<Rightarrow> config \<Rightarrow> shm_region \<Rightarrow> usize \<Rightarrow> u16 \<Rightarrow> bytes \<Rightarrow> bytes \<Rightarrow>
   shm_region option \<Rightarrow> 'os world \<Rightarrow> bool" where
  "response_stored V pl c r i status meta body ovf w \<longleftrightarrow>
     get_u16 (slot_start i + 64) (mem w (r_ptr r)) = status
     \<and> stored V (response_overflow_name_gen pl c i) r Resp i meta body ovf w"

lemma area_parts:
  "payload_area r Req i \<subseteq> request_area r i" "payload_area r Resp i \<subseteq> response_area r i"
  by (auto simp: request_area_def response_area_def)

text \<open>The areas of different messages do not meet each other or any status word.\<close>

lemma head_payload_disjoint:
  assumes cr: "control_region r w" and "unat i < unat (r_num_slots r)" and "unat j < unat (r_num_slots r)"
    and "i \<noteq> j \<or> (\<forall>k. a \<le> k \<and> k < b \<longrightarrow> k < field_base s \<or> field_base s + 17 \<le> k)" and "b \<le> 128"
  shows "{slot_start i + a ..< slot_start i + b} \<inter> payload_area r s j = {}"
proof -
  note B = arena_bounds [OF cr assms(3), of s] slot_base_eq(2) [OF cr assms(2)]
  have "{slot_start i + a ..< slot_start i + b} \<inter> {arena_start r s j ..< arena_stop r s j} = {}"
    using B assms(5) by auto
  moreover have "{slot_start i + a ..< slot_start i + b} \<inter> {fields_at s j ..< fields_at s j + 17} = {}"
  proof (cases "i = j")
    case True
    have "False" if "slot_start i + a \<le> k" "k < slot_start i + b" "fields_at s j \<le> k"
      "k < fields_at s j + 17" for k
    proof -
      let ?m = "k - slot_start i"
      have "a \<le> ?m \<and> ?m < b" "\<not> (?m < field_base s \<or> field_base s + 17 \<le> ?m)"
        using that True by (auto simp: fields_at_def)
      then show False using assms(4) True by blast
    qed
    then show ?thesis by (simp only: disjoint_iff atLeastLessThan_iff) blast
  next
    case False
    then show ?thesis using slot_starts_apart [OF False] B assms(5) by auto
  qed
  ultimately show ?thesis by (auto simp: payload_area_def)
qed

lemma areas_disjoint:
  assumes cr: "control_region r w" and i: "unat i < unat (r_num_slots r)" and j: "unat j < unat (r_num_slots r)"
  shows "request_area r i \<inter> response_area r j = {}"
    and "i \<noteq> j \<Longrightarrow> request_area r i \<inter> request_area r j = {}"
    and "i \<noteq> j \<Longrightarrow> response_area r i \<inter> response_area r j = {}"
    and "status_area i \<inter> request_area r j = {}"
    and "status_area i \<inter> response_area r j = {}"
proof -
  note H = head_payload_disjoint [OF cr]
  note P = payload_areas_disjoint [OF cr i j]
  have starts: "i \<noteq> j \<Longrightarrow> slot_start i + 128 \<le> slot_start j \<or> slot_start j + 128 \<le> slot_start i"
    by (rule slot_starts_apart)
  have hr: "{slot_start i + 4 ..< slot_start i + 41} \<inter> payload_area r s j = {}" for s
    by (rule H [OF i j]) (cases s; auto simp: field_base_def)+
  have rh: "{slot_start j + 4 ..< slot_start j + 41} \<inter> payload_area r s i = {}" for s
    by (rule H [OF j i]) (cases s; auto simp: field_base_def)+
  have sp: "{slot_start i + 64 ..< slot_start i + 66} \<inter> payload_area r s j = {}" for s
    by (rule H [OF i j]) (cases s; auto simp: field_base_def)+
  have ps: "{slot_start j + 64 ..< slot_start j + 66} \<inter> payload_area r s i = {}" for s
    by (rule H [OF j i]) (cases s; auto simp: field_base_def)+
  have st: "status_area i \<inter> payload_area r s j = {}" for s
    by (rule status_area_disjoint [OF cr i j])
  have heads: "{slot_start i + 4 ..< slot_start i + 41} \<inter> {slot_start j + 64 ..< slot_start j + 66} = {}"
    using starts by (cases "i = j") auto
  show "request_area r i \<inter> response_area r j = {}"
    using P [of Req Resp] hr ps heads unfolding request_area_def response_area_def by blast
  show "request_area r i \<inter> request_area r j = {}" if "i \<noteq> j"
  proof -
    have "{slot_start i + 4 ..< slot_start i + 41} \<inter> {slot_start j + 4 ..< slot_start j + 41} = {}"
      using starts [OF that] by auto
    then show ?thesis using P [of Req Req] hr rh that unfolding request_area_def by blast
  qed
  show "response_area r i \<inter> response_area r j = {}" if "i \<noteq> j"
  proof -
    have "{slot_start i + 64 ..< slot_start i + 66} \<inter> {slot_start j + 64 ..< slot_start j + 66} = {}"
      using starts [OF that] by auto
    then show ?thesis using P [of Resp Resp] sp ps that unfolding response_area_def by blast
  qed
  have "status_area i \<inter> {slot_start j + 4 ..< slot_start j + 41} = {}"
    "status_area i \<inter> {slot_start j + 64 ..< slot_start j + 66} = {}"
    using starts by (cases "i = j"; auto simp: status_area_def)+
  then show "status_area i \<inter> request_area r j = {}" and "status_area i \<inter> response_area r j = {}"
    using st unfolding request_area_def response_area_def by blast+
qed

text \<open>What leaves the area of a stored message alone preserves it.\<close>

lemma stored_frame:
  assumes "stored V nf r s i meta body ovf w" and cr: "control_region r w"
    and i: "unat i < unat (r_num_slots r)"
    and un: "unchanged_except S (mem w (r_ptr r)) (mem w' (r_ptr r))"
    and dis: "S \<inter> payload_area r s i = {}" and ok: "ovf_kept V ovf w w'"
  shows "stored V nf r s i meta body ovf w'"
proof -
  have m: "meta_stored r s i meta w" and b: "body_stored V nf r s i body ovf w"
    and l: "length meta < 2 ^ 16"
    using assms(1) by (simp_all add: stored_def)
  have "{fields_at s i ..< fields_at s i + 6} \<union> {arena_start r s i ..< arena_start r s i + length meta}
      \<subseteq> payload_area r s i"
    using m by (auto simp: payload_area_def meta_stored_def Let_def)
  with dis have "S \<inter> ({fields_at s i ..< fields_at s i + 6}
      \<union> {arena_start r s i ..< arena_start r s i + length meta}) = {}" by blast
  then have "meta_stored r s i meta w'" by (rule meta_stored_frame [OF m cr i un])
  moreover have "body_stored V nf r s i body ovf w'" by (rule body_stored_frame [OF b cr i un dis ok])
  ultimately show ?thesis using l by (simp add: stored_def)
qed

lemma request_stored_frame:
  assumes st: "request_stored V pl c r i req_id method meta body ovf w" and cr: "control_region r w"
    and i: "unat i < unat (r_num_slots r)"
    and un: "unchanged_except S (mem w (r_ptr r)) (mem w' (r_ptr r))"
    and dis: "S \<inter> request_area r i = {}" and ok: "ovf_kept V ovf w w'"
  shows "request_stored V pl c r i req_id method meta body ovf w'"
proof -
  note B = slot_base_eq(3) [OF cr i]
  have d: "{slot_start i + 4 ..< slot_start i + 4 + 37} \<inter> S = {}" "S \<inter> payload_area r Req i = {}"
    using dis by (auto simp: request_area_def)
  have "slice (slot_start i + 4) 37 (mem w' (r_ptr r)) = slice (slot_start i + 4) 37 (mem w (r_ptr r))"
    using B by (intro unchanged_slice [OF un d(1)]) simp
  then have "slice (slot_start i + 4) 36 (mem w' (r_ptr r)) = slice (slot_start i + 4) 36 (mem w (r_ptr r))"
    "get_u8 (slot_start i + 40) (mem w' (r_ptr r)) = get_u8 (slot_start i + 40) (mem w (r_ptr r))"
    using slice_eq_sub [of "slot_start i + 4" 37 "mem w' (r_ptr r)" "mem w (r_ptr r)" "slot_start i + 4" 36]
      get_eq_sub(1) [of "slot_start i + 4" 37 "mem w' (r_ptr r)" "mem w (r_ptr r)" "slot_start i + 40"]
    by simp_all
  moreover have "stored V (request_overflow_name_gen pl c i) r Req i meta body ovf w'"
    using st by (intro stored_frame [OF _ cr i un d(2) ok]) (simp add: request_stored_def)
  ultimately show ?thesis using st by (simp add: request_stored_def)
qed

lemma response_stored_frame:
  assumes st: "response_stored V pl c r i status meta body ovf w" and cr: "control_region r w"
    and i: "unat i < unat (r_num_slots r)"
    and un: "unchanged_except S (mem w (r_ptr r)) (mem w' (r_ptr r))"
    and dis: "S \<inter> response_area r i = {}" and ok: "ovf_kept V ovf w w'"
  shows "response_stored V pl c r i status meta body ovf w'"
proof -
  note B = slot_base_eq(3) [OF cr i]
  have d: "{slot_start i + 64 ..< slot_start i + 64 + 2} \<inter> S = {}" "S \<inter> payload_area r Resp i = {}"
    using dis by (auto simp: response_area_def)
  have "get_u16 (slot_start i + 64) (mem w' (r_ptr r)) = get_u16 (slot_start i + 64) (mem w (r_ptr r))"
    using B d(1) by (intro unchanged_get(2) [OF un]) simp_all
  moreover have "stored V (response_overflow_name_gen pl c i) r Resp i meta body ovf w'"
    using st by (intro stored_frame [OF _ cr i un d(2) ok]) (simp add: response_stored_def)
  ultimately show ?thesis using st by (simp add: response_stored_def)
qed

lemma stored_ovf_kept:
  "stored V nf r s i meta body ovf w \<Longrightarrow> touches V (r_ptr r) S w w' \<Longrightarrow> ovf_kept V ovf w w'"
  by (auto simp: stored_def intro: ovf_kept_touches)

section \<open>The writers\<close>

lemma request_head:
  assumes doc: "shmem_documented X V" and lv: "live V r w" and i: "unat i < unat (r_num_slots r)"
  shows "\<exists>w1 w2 w3. mem_write (r_ptr r) (slot_base i + 4) (replicate 36 0) w = Some w1
    \<and> mem_write (r_ptr r) (slot_base i + 4) (take (min (length req_id) 36) (as_bytes req_id)) w1 = Some w2
    \<and> write_u8 (r_ptr r) (slot_base i + 40) method w2 = Some w3
    \<and> touches V (r_ptr r) {slot_start i + 4 ..< slot_start i + 41} w w3
    \<and> slice (slot_start i + 4) 36 (mem w3 (r_ptr r)) = req_id_field req_id
    \<and> get_u8 (slot_start i + 40) (mem w3 (r_ptr r)) = method"
proof -
  note cr = liveD(1) [OF lv] and held = liveD(3) [OF lv]
  note B = slot_base_eq [OF cr i]
  let ?p = "r_ptr r" and ?s = "slot_start i" and ?S = "{slot_start i + 4 ..< slot_start i + 41}"
  let ?id = "take (min (length req_id) 36) (as_bytes req_id)"
  let ?w1 = "put ?p (?s + 4) (replicate 36 0) w"
  let ?w2 = "put ?p (?s + 4) ?id ?w1"
  let ?w3 = "put ?p (?s + 40) [method] ?w2"
  have l: "length ?id \<le> 36" by simp
  have id: "?id = take 36 (as_bytes req_id)" by (simp add: min_def)
  have "mem_write ?p (?s + 4) (replicate 36 0) w = Some ?w1" "mem_write ?p (?s + 4) ?id ?w1 = Some ?w2"
    "write_u8 ?p (?s + 40) method ?w2 = Some ?w3"
    using B l by (simp_all add: mem_simps length_splice)
  moreover have "touches V ?p ?S w ?w3"
  proof -
    have "touches V ?p ?S w ?w1" using B held by (intro touches_put [OF doc]) auto
    moreover have "touches V ?p ?S ?w1 ?w2"
      using B l held doc by (intro touches_put [OF doc]) (auto simp: length_splice)
    moreover have "touches V ?p ?S ?w2 ?w3"
      using B l held doc by (intro touches_put [OF doc]) (auto simp: length_splice)
    ultimately show ?thesis by (blast intro: touches_trans)
  qed
  moreover have "slice (?s + 4) 36 (mem ?w3 ?p) = req_id_field req_id"
  proof -
    have "slice (?s + 4) 36 (mem ?w3 ?p) = slice (?s + 4) 36 (mem ?w2 ?p)"
      using B l by (simp add: slice_simps)
    also have "mem ?w2 ?p = splice (?s + 4) (?id @ replicate (36 - length ?id) 0) (mem w ?p)"
      using B l by (simp add: splice_def min_def)
    also have "slice (?s + 4) 36 \<dots> = ?id @ replicate (36 - length ?id) 0"
      using B l by (intro slice_splice_same) simp_all
    also have "\<dots> = req_id_field req_id" by (simp add: req_id_field_def min_def)
    finally show ?thesis .
  qed
  moreover have "get_u8 (?s + 40) (mem ?w3 ?p) = method" using B l by (simp add: slice_simps)
  ultimately show ?thesis unfolding B(1) by blast
qed

definition payload_fits :: "shm_region \<Rightarrow> side \<Rightarrow> usize \<Rightarrow> bytes \<Rightarrow> bytes \<Rightarrow> bool" where
  "payload_fits r s i meta body \<longleftrightarrow> length meta \<le> unat (snd (arena r s i)) \<and> inline_fits r s i meta body"

lemma write_request_result:
  assumes doc: "shmem_documented X V" and lv: "live V r w" and i: "unat i < unat (r_num_slots r)"
    and lens: "slice_len_ok meta" "slice_len_ok body"
    and names: "names_total (request_overflow_name_gen pl c i)"
  shows "\<exists>res w'. write_request pl X r i req_id method meta body c w = Some (res, w')
    \<and> touches V (r_ptr r) (request_area r i \<union> status_area i) w w'
    \<and> (unat (snd (arena r Req i)) < length meta \<longrightarrow> res = Inl (meta_too_big ''request'' meta (snd (arena r Req i))))
    \<and> (payload_fits r Req i meta body \<longrightarrow> res = Inr None)
    \<and> (\<forall>o1. res = Inr (Some o1) \<longrightarrow> fresh_handle V o1 w w')
    \<and> (case res of
         Inl e \<Rightarrow> status_at r i w' = SLOT_FREE
       | Inr ovf \<Rightarrow> status_at r i w' = SLOT_READY \<and> meta_stored r Req i meta w' \<and> (length meta < 2 ^ 16 \<longrightarrow> length body < 2 ^ 32 \<longrightarrow>
           request_stored V pl c r i req_id method meta body ovf w'))"
proof -
  let ?p = "r_ptr r" and ?H = "{slot_start i + 4 ..< slot_start i + 41}" and ?P = "payload_area r Req i"
  let ?nf = "request_overflow_name_gen pl c i"
  note cr = liveD(1) [OF lv]
  obtain w1 w2 w3 where h: "mem_write ?p (slot_base i + 4) (replicate 36 0) w = Some w1"
    "mem_write ?p (slot_base i + 4) (take (min (length req_id) 36) (as_bytes req_id)) w1 = Some w2"
    "write_u8 ?p (slot_base i + 40) method w2 = Some w3"
    and t3: "touches V ?p ?H w w3"
    and id3: "slice (slot_start i + 4) 36 (mem w3 ?p) = req_id_field req_id"
    and m3: "get_u8 (slot_start i + 40) (mem w3 ?p) = method"
    using request_head [OF doc lv i] by blast
  note lv3 = live_touches [OF lv t3]
  note D3 = liveD [OF lv3]
  obtain res w4 where p: "write_payload pl X r Req i ''request'' ?nf SLOT_READY meta body w3 = Some (res, w4)"
    and big: "unat (snd (arena r Req i)) < length meta \<Longrightarrow> res = Inl (meta_too_big ''request'' meta (snd (arena r Req i)))"
    and fit: "payload_fits r Req i meta body \<Longrightarrow> res = Inr None"
    and new: "\<And>o1. res = Inr (Some o1) \<Longrightarrow> fresh_handle V o1 w3 w4"
    and R: "case res of Inl e \<Rightarrow> touches V ?p ?P w3 w4
      | Inr ovf \<Rightarrow> touches V ?p (?P \<union> status_area i) w3 w4 \<and> status_at r i w4 = SLOT_READY \<and> meta_stored r Req i meta w4
        \<and> (length meta < 2 ^ 16 \<longrightarrow> length body < 2 ^ 32 \<longrightarrow> stored V ?nf r Req i meta body ovf w4)"
    using write_payload_result [OF doc D3(1) i D3(2,3) lens names] unfolding payload_fits_def by metis
  have inner: "write_request_inner pl X r i req_id method meta body c w = Some (res, w4)"
    using h p i by (subst write_request_inner_payload) (simp_all add: word_less_nat_alt)
  have H3: "touches V ?p (request_area r i \<union> status_area i) w w3"
    by (rule touches_mono [OF t3]) (auto simp: request_area_def)
  show ?thesis
  proof (cases res)
    case (Inl e)
    then have t4: "touches V ?p (request_area r i \<union> status_area i) w w4"
      using R by (intro touches_trans [OF H3]) (auto simp: request_area_def elim!: touches_mono)
    note cr4 = liveD [OF live_touches [OF lv t4]]
    let ?w5 = "put ?p (slot_start i) (le32 SLOT_FREE) w4"
    have f: "slot_start i + 4 \<le> length (mem w4 ?p)" using slot_base_eq(3) [OF cr4(1) i] by simp
    have "write_request pl X r i req_id method meta body c w = Some (Inl e, ?w5)"
      using inner Inl status_ops(2) [OF cr4(1) i] by (simp add: write_request_def)
    moreover have "touches V ?p (request_area r i \<union> status_area i) w ?w5"
      using f cr4 by (intro touches_trans [OF t4] touches_put [OF doc]) (auto simp: status_area_def)
    ultimately show ?thesis using f big fit Inl by (auto simp: slice_simps)
  next
    case (Inr ovf)
    then have t34: "touches V ?p (?P \<union> status_area i) w3 w4" and s4: "status_at r i w4 = SLOT_READY"
      and m4: "meta_stored r Req i meta w4"
      and st: "length meta < 2 ^ 16 \<Longrightarrow> length body < 2 ^ 32 \<Longrightarrow> stored V ?nf r Req i meta body ovf w4"
      using R by simp_all
    have "touches V ?p (request_area r i \<union> status_area i) w w4"
      using t34 by (intro touches_trans [OF H3]) (auto simp: request_area_def elim!: touches_mono)
    moreover have new': "fresh_handle V o1 w w4" if "ovf = Some o1" for o1
      using unheld_before [OF t3 liveD(3) [OF lv]] Inr that new by (simp add: fresh_handle_def)
    moreover have "slice (slot_start i + 4) 37 (mem w4 ?p) = slice (slot_start i + 4) 37 (mem w3 ?p)"
    proof (rule unchanged_slice [OF touches_bytes [OF t34]])
      have "{slot_start i + 4 ..< slot_start i + 41} \<inter> ?P = {}"
        by (rule head_payload_disjoint [OF cr i i]) (auto simp: field_base_def)
      moreover have "{slot_start i + 4 ..< slot_start i + 41} \<inter> status_area i = {}"
        by (auto simp: status_area_def)
      ultimately show "{slot_start i + 4 ..< slot_start i + 4 + 37} \<inter> (?P \<union> status_area i) = {}"
        by (simp add: Int_Un_distrib add.commute)
      show "slot_start i + 4 + 37 \<le> length (mem w3 ?p)" using slot_base_eq(3) [OF D3(1) i] by simp
    qed
    then have "slice (slot_start i + 4) 36 (mem w4 ?p) = req_id_field req_id"
      "get_u8 (slot_start i + 40) (mem w4 ?p) = method"
      using slice_eq_sub [of "slot_start i + 4" 37 "mem w4 ?p" "mem w3 ?p" "slot_start i + 4" 36]
        get_eq_sub(1) [of "slot_start i + 4" 37 "mem w4 ?p" "mem w3 ?p" "slot_start i + 40"] id3 m3
      by simp_all
    ultimately show ?thesis
      using inner Inr s4 m4 st new' big fit by (auto simp: write_request_def request_stored_def)
  qed
qed

lemma write_response_result:
  assumes doc: "shmem_documented X V" and lv: "live V r w" and i: "unat i < unat (r_num_slots r)"
    and lens: "slice_len_ok meta" "slice_len_ok body"
    and names: "names_total (response_overflow_name_gen pl c i)"
  shows "\<exists>res w'. write_response pl X r i status meta body c w = Some (res, w')
    \<and> (unat (snd (arena r Resp i)) < length meta \<longrightarrow> res = Inl (meta_too_big ''response'' meta (snd (arena r Resp i))))
    \<and> (payload_fits r Resp i meta body \<longrightarrow> res = Inr None)
    \<and> (\<forall>o1. res = Inr (Some o1) \<longrightarrow> fresh_handle V o1 w w')
    \<and> (case res of
         Inl e \<Rightarrow> touches V (r_ptr r) (response_area r i) w w'
       | Inr ovf \<Rightarrow> touches V (r_ptr r) (response_area r i \<union> status_area i) w w'
           \<and> status_at r i w' = SLOT_DONE \<and> meta_stored r Resp i meta w' \<and> (length meta < 2 ^ 16 \<longrightarrow> length body < 2 ^ 32 \<longrightarrow>
           response_stored V pl c r i status meta body ovf w'))"
proof -
  let ?p = "r_ptr r" and ?s = "slot_start i" and ?P = "payload_area r Resp i"
  let ?nf = "response_overflow_name_gen pl c i"
  note D = liveD [OF lv] note B = slot_base_eq [OF D(1) i]
  let ?w1 = "put ?p (?s + 64) (le16 status) w"
  have even: "(?s + 64) mod 2 = 0" using slot_start_mod4(1) [of i] by presburger
  have h: "write_u16 ?p (slot_base i + 64) status w = Some ?w1"
    using B even by (simp add: mem_simps)
  have t1: "touches V ?p {?s + 64 ..< ?s + 66} w ?w1"
    using B D by (intro touches_put [OF doc]) auto
  have g1: "get_u16 (?s + 64) (mem ?w1 ?p) = status" using B by (simp add: slice_simps)
  note D1 = liveD [OF live_touches [OF lv t1]]
  obtain res w4 where p: "write_payload pl X r Resp i ''response'' ?nf SLOT_DONE meta body ?w1 = Some (res, w4)"
    and big: "unat (snd (arena r Resp i)) < length meta \<Longrightarrow> res = Inl (meta_too_big ''response'' meta (snd (arena r Resp i)))"
    and fit: "payload_fits r Resp i meta body \<Longrightarrow> res = Inr None"
    and new: "\<And>o1. res = Inr (Some o1) \<Longrightarrow> fresh_handle V o1 ?w1 w4"
    and R: "case res of Inl e \<Rightarrow> touches V ?p ?P ?w1 w4
      | Inr ovf \<Rightarrow> touches V ?p (?P \<union> status_area i) ?w1 w4 \<and> status_at r i w4 = SLOT_DONE \<and> meta_stored r Resp i meta w4
        \<and> (length meta < 2 ^ 16 \<longrightarrow> length body < 2 ^ 32 \<longrightarrow> stored V ?nf r Resp i meta body ovf w4)"
    using write_payload_result [OF doc D1(1) i D1(2,3) lens names] unfolding payload_fits_def by metis
  have whole: "write_response pl X r i status meta body c w = Some (res, w4)"
    using h p i by (subst write_response_payload) (simp_all add: word_less_nat_alt)
  have H1: "touches V ?p (response_area r i) w ?w1"
    by (rule touches_mono [OF t1]) (auto simp: response_area_def)
  show ?thesis
  proof (cases res)
    case (Inl e)
    then have "touches V ?p (response_area r i) w w4"
      using R by (intro touches_trans [OF H1]) (auto simp: response_area_def elim!: touches_mono)
    then show ?thesis using whole Inl big fit by auto
  next
    case (Inr ovf)
    then have t14: "touches V ?p (?P \<union> status_area i) ?w1 w4" and s4: "status_at r i w4 = SLOT_DONE"
      and m4: "meta_stored r Resp i meta w4"
      and st: "length meta < 2 ^ 16 \<Longrightarrow> length body < 2 ^ 32 \<Longrightarrow> stored V ?nf r Resp i meta body ovf w4"
      using R by simp_all
    have "touches V ?p (response_area r i \<union> status_area i) w w4"
    proof -
      have "touches V ?p (response_area r i \<union> status_area i) w ?w1" using H1 by (rule touches_mono) blast
      moreover have "touches V ?p (response_area r i \<union> status_area i) ?w1 w4"
        using t14 by (rule touches_mono) (auto simp: response_area_def)
      ultimately show ?thesis by (rule touches_trans)
    qed
    moreover have new': "fresh_handle V o1 w w4" if "ovf = Some o1" for o1
      using new that Inr doc by (simp add: fresh_handle_def)
    moreover have "get_u16 (?s + 64) (mem w4 ?p) = get_u16 (?s + 64) (mem ?w1 ?p)"
    proof (rule unchanged_get(2) [OF touches_bytes [OF t14]])
      have "{?s + 64 ..< ?s + 66} \<inter> ?P = {}"
        by (rule head_payload_disjoint [OF D(1) i i]) (auto simp: field_base_def)
      moreover have "{?s + 64 ..< ?s + 66} \<inter> status_area i = {}" by (auto simp: status_area_def)
      ultimately show "{?s + 64 ..< ?s + 64 + 2} \<inter> (?P \<union> status_area i) = {}"
        by (simp add: Int_Un_distrib add.commute)
      show "?s + 64 + 2 \<le> length (mem ?w1 ?p)" using slot_base_eq(3) [OF D1(1) i] by simp
    qed
    ultimately show ?thesis
      using whole Inr s4 m4 st new' g1 big fit by (auto simp: response_stored_def)
  qed
qed

section \<open>The readers\<close>

lemma read_fields:
  assumes "control_region r w" and "unat i < unat (r_num_slots r)"
  shows "read_u32 (r_ptr r) (slot_base i + (field_base s + 0)) w = Some (get_u32 (fields_at s i) (mem w (r_ptr r)))"
    and "read_u16 (r_ptr r) (slot_base i + (field_base s + 4)) w = Some (get_u16 (fields_at s i + 4) (mem w (r_ptr r)))"
    and "read_u32 (r_ptr r) (slot_base i + (field_base s + 8)) w = Some (get_u32 (fields_at s i + 8) (mem w (r_ptr r)))"
    and "read_u32 (r_ptr r) (slot_base i + (field_base s + 12)) w = Some (get_u32 (fields_at s i + 12) (mem w (r_ptr r)))"
    and "read_u8 (r_ptr r) (slot_base i + (field_base s + 16)) w = Some (get_u8 (fields_at s i + 16) (mem w (r_ptr r)))"
proof -
  have "fields_at s i + 17 \<le> length (mem w (r_ptr r))"
    using arena_bounds(5) [OF assms, of s] slot_base_eq(3) [OF assms] by linarith
  then show "read_u32 (r_ptr r) (slot_base i + (field_base s + 0)) w = Some (get_u32 (fields_at s i) (mem w (r_ptr r)))"
    and "read_u16 (r_ptr r) (slot_base i + (field_base s + 4)) w = Some (get_u16 (fields_at s i + 4) (mem w (r_ptr r)))"
    and "read_u32 (r_ptr r) (slot_base i + (field_base s + 8)) w = Some (get_u32 (fields_at s i + 8) (mem w (r_ptr r)))"
    and "read_u32 (r_ptr r) (slot_base i + (field_base s + 12)) w = Some (get_u32 (fields_at s i + 12) (mem w (r_ptr r)))"
    and "read_u8 (r_ptr r) (slot_base i + (field_base s + 16)) w = Some (get_u8 (fields_at s i + 16) (mem w (r_ptr r)))"
    unfolding body_write_at [OF assms] by (simp_all add: mem_simps)
qed

lemma read_req_id_eq:
  assumes "control_region r w" and "unat i < unat (r_num_slots r)"
  shows "read_req_id r i w = Some (decode_req_id (slice (slot_start i + 4) 36 (mem w (r_ptr r))))"
  using slot_base_eq [OF assms] by (simp add: read_req_id_def mem_simps)

lemma read_heads:
  assumes "control_region r w" and "unat i < unat (r_num_slots r)"
  shows "read_u8 (r_ptr r) (slot_base i + 40) w = Some (get_u8 (slot_start i + 40) (mem w (r_ptr r)))"
    and "read_u16 (r_ptr r) (slot_base i + 64) w = Some (get_u16 (slot_start i + 64) (mem w (r_ptr r)))"
proof -
  note B = slot_base_eq [OF assms]
  have "(slot_start i + 64) mod 2 = 0" using slot_start_mod4(1) [of i] by presburger
  then show "read_u8 (r_ptr r) (slot_base i + 40) w = Some (get_u8 (slot_start i + 40) (mem w (r_ptr r)))"
    and "read_u16 (r_ptr r) (slot_base i + 64) w = Some (get_u16 (slot_start i + 64) (mem w (r_ptr r)))"
    using B by (simp_all add: mem_simps)
qed

lemmas req_fields = read_fields [where s = Req, unfolded field_base_def side.case, simplified]
lemmas resp_fields = read_fields [where s = Resp, unfolded field_base_def side.case, simplified]

text \<open>Both readers, as one chain over the fields.\<close>

lemma read_request_eq:
  assumes "control_region r w" and "unat i < unat (r_num_slots r)"
  shows "read_request pl X r i c w =
    (let b = mem w (r_ptr r); f = fields_at Req i in do {
       meta_res \<leftarrow> heap_read_checked r (get_u32 f b) (ucast (get_u16 (f + 4) b)) w;
       and_then (Some (meta_res, w)) (\<lambda>meta_bytes w1.
         and_then (Some (lift_postcard (request_from_bytes X meta_bytes), w1)) (\<lambda>meta w1. do {
           body_offset \<leftarrow> read_u32 (r_ptr r) (slot_base i + 52) w1;
           body_len \<leftarrow> read_u32 (r_ptr r) (slot_base i + 56) w1;
           body_overflow \<leftarrow> read_u8 (r_ptr r) (slot_base i + 60) w1;
           and_then (read_body X r (request_overflow_name_gen pl c i) body_offset body_len body_overflow w1)
             (\<lambda>body w1. Some (Inr (decode_req_id (slice (slot_start i + 4) 36 b),
                get_u8 (slot_start i + 40) b, meta, body), w1)) })) })"
  by (simp add: read_request_def read_req_id_eq [OF assms] read_heads [OF assms] req_fields [OF assms] Let_def)

lemma read_response_eq:
  assumes "control_region r w" and "unat i < unat (r_num_slots r)"
  shows "read_response pl X r i c w =
    (let b = mem w (r_ptr r); f = fields_at Resp i in do {
       meta_res \<leftarrow> heap_read_checked r (get_u32 f b) (ucast (get_u16 (f + 4) b)) w;
       and_then (Some (meta_res, w)) (\<lambda>meta_bytes w1.
         and_then (Some (lift_postcard (response_from_bytes X meta_bytes), w1)) (\<lambda>meta w1. do {
           body_offset \<leftarrow> read_u32 (r_ptr r) (slot_base i + 76) w1;
           body_len \<leftarrow> read_u32 (r_ptr r) (slot_base i + 80) w1;
           body_overflow \<leftarrow> read_u8 (r_ptr r) (slot_base i + 84) w1;
           and_then (read_body X r (response_overflow_name_gen pl c i) body_offset body_len body_overflow w1)
             (\<lambda>body w1. Some (Inr (get_u16 (slot_start i + 64) b, meta, body), w1)) })) })"
  by (simp add: read_response_def read_heads [OF assms] resp_fields [OF assms] Let_def)

lemma read_request_stored:
  assumes doc: "shmem_documented X V" and pc: "postcard_documented X" and cr: "control_region r w"
    and i: "unat i < unat (r_num_slots r)" and vec: "request_to_vec X m = Inr meta"
    and st: "request_stored V pl c r i req_id method meta body ovf w"
  shows "\<exists>w'. read_request pl X r i c w =
      Some (Inr (decode_req_id (req_id_field req_id), method, m, body), w') \<and> unobserved V w w'"
proof -
  have S: "meta_stored r Req i meta w" "body_stored V (request_overflow_name_gen pl c i) r Req i body ovf w"
    "slice (slot_start i + 4) 36 (mem w (r_ptr r)) = req_id_field req_id"
    "get_u8 (slot_start i + 40) (mem w (r_ptr r)) = method"
    using st by (simp_all add: request_stored_def stored_def)
  have l: "length meta < 2 ^ 16" using st by (simp add: request_stored_def stored_def)
  have "request_from_bytes X meta = Inr m" using pc vec by (simp add: postcard_documented_def)
  then show ?thesis
    using read_body_stored [OF doc cr i S(2)] S
    by (auto simp: read_request_eq [OF cr i] heap_read_meta [OF cr i S(1) l] req_fields [OF cr i] Let_def)
qed

lemma read_response_stored:
  assumes doc: "shmem_documented X V" and pc: "postcard_documented X" and cr: "control_region r w"
    and i: "unat i < unat (r_num_slots r)" and vec: "response_to_vec X m = Inr meta"
    and st: "response_stored V pl c r i status meta body ovf w"
  shows "\<exists>w'. read_response pl X r i c w = Some (Inr (status, m, body), w') \<and> unobserved V w w'"
proof -
  have S: "meta_stored r Resp i meta w" "body_stored V (response_overflow_name_gen pl c i) r Resp i body ovf w"
    "get_u16 (slot_start i + 64) (mem w (r_ptr r)) = status"
    using st by (simp_all add: response_stored_def stored_def)
  have l: "length meta < 2 ^ 16" using st by (simp add: response_stored_def stored_def)
  have "response_from_bytes X meta = Inr m" using pc vec by (simp add: postcard_documented_def)
  then show ?thesis
    using read_body_stored [OF doc cr i S(2)] S
    by (auto simp: read_response_eq [OF cr i] heap_read_meta [OF cr i S(1) l] resp_fields [OF cr i] Let_def)
qed

lemma and_then_total:
  assumes "\<exists>res w1. m = Some (res, w1) \<and> P w1"
    and "\<And>x w1. P w1 \<Longrightarrow> \<exists>res w2. f x w1 = Some (res, w2) \<and> P w2"
  shows "\<exists>res w2. and_then m f = Some (res, w2) \<and> P w2"
proof -
  obtain res w1 where m: "m = Some (res, w1)" "P w1" using assms(1) by blast
  then show ?thesis using assms(2) [OF m(2)] by (cases res) auto
qed

section \<open>The concrete region\<close>

lemma demo_arena: "arena demo_region Req 0 = (0, 32)" "arena demo_region Resp 0 = (32, 32)"
  by (simp_all add: arena_def region_slot_arenas_def slot_arenas_def arena_size_def)

lemma demo_live [simp]: "live ref_view demo_region demo_world"
proof -
  have "0 < handles ref_view demo_world 0"
    by (simp add: ref_defs demo_world_def demo_blank_def)
  then show ?thesis by (simp add: live_def heap_addressable_def)
qed

lemma demo_names [simp]:
  "names_total (request_overflow_name_gen Linux c i)" "names_total (response_overflow_name_gen Linux c i)"
  by (simp_all add: names_total_def name_defs)

definition demo_request :: request_meta where
  "demo_request = \<lparr>path = ''/x'', route_pattern = [], path_params = [], query = None, req_headers = []\<rparr>"

lemma demo_request_vec: "request_to_vec ref_externals demo_request = Inr (as_bytes ''/x'')"
  by (simp add: ref_externals_def ref_request_to_vec_def demo_request_def)

definition demo_response :: response_meta where
  "demo_response = \<lparr>content_type = ''t'', resp_headers = []\<rparr>"

lemma demo_response_vec: "response_to_vec ref_externals demo_response = Inr (as_bytes ''t'')"
  by (simp add: ref_externals_def ref_response_to_vec_def demo_response_def)

lemma demo_fits:
  "payload_fits demo_region Req 0 (as_bytes ''/x'') [1, 2, 3]"
  "payload_fits demo_region Resp 0 (as_bytes ''t'') [4]"
  by (simp_all add: payload_fits_def inline_fits_def demo_arena)

lemma demo_write:
  "\<exists>w1. write_request Linux ref_externals demo_region 0 ''a'' 1 (as_bytes ''/x'') [1, 2, 3] demo_config demo_world
     = Some (Inr None, w1)"
  using write_request_result [OF ref_shmem_documented demo_live, of 0 "as_bytes ''/x''" "[1, 2, 3]"
      Linux demo_config "''a''" 1] demo_fits
  by (auto simp: slice_len_ok_def)

lemma demo_respond:
  "\<exists>w1. write_response Linux ref_externals demo_region 0 200 (as_bytes ''t'') [4] demo_config demo_world
     = Some (Inr None, w1)"
  using write_response_result [OF ref_shmem_documented demo_live, of 0 "as_bytes ''t''" "[4]"
      Linux demo_config 200] demo_fits
  by (auto simp: slice_len_ok_def)

lemma small_len_ok: "length xs < 2 ^ 16 \<Longrightarrow> slice_len_ok xs"
  by (simp add: slice_len_ok_def)

section \<open>Properties\<close>

text \<open>
  C17: a request is read back exactly as it was written (empty, inline or overflow body alike), by any
  handle of the same segment with the same layout, even after other processes have done anything
  that leaves the request's own bytes and the overflow region's holder alone. Reading it changes
  nothing.
\<close>

theorem request_round_trip:
  assumes doc: "shmem_documented X V" and pc: "postcard_documented X" and lv: "live V r w"
    and i: "unat i < unat (r_num_slots r)" and q: "same_layout q r"
    and names: "names_total (request_overflow_name_gen pl c i)"
    and vec: "request_to_vec X m = Inr meta" and lens: "length meta < 2 ^ 16" "length body < 2 ^ 32"
    and id: "req_id_ok req_id"
    and wr: "write_request pl X r i req_id method meta body c w = Some (Inr ovf, w1)"
    and others: "touches V (r_ptr r) S w1 w2" and dis: "S \<inter> request_area r i = {}"
  shows "\<exists>w3. read_request pl X q i c w2 = Some (Inr (req_id, method, m, body), w3) \<and> unobserved V w2 w3"
proof -
  have l: "slice_len_ok meta" "slice_len_ok body" using lens by (simp_all add: slice_len_ok_def)
  have st: "request_stored V pl c r i req_id method meta body ovf w1"
    and t: "touches V (r_ptr r) (request_area r i \<union> status_area i) w w1"
    using write_request_result [OF doc lv i l names, of req_id "method"] wr lens by auto
  note lv1 = live_touches [OF lv t]
  have "ovf_kept V ovf w1 w2"
    using st others by (auto simp: request_stored_def intro: stored_ovf_kept)
  then have "request_stored V pl c r i req_id method meta body ovf w2"
    by (rule request_stored_frame [OF st liveD(1) [OF lv1] i touches_bytes [OF others] dis])
  then have sq: "request_stored V pl c q i req_id method meta body ovf w2"
    using same_layout_stored [OF q, of V "request_overflow_name_gen pl c i" Req i meta body ovf w2] q
    by (simp add: request_stored_def same_layout_def)
  have "control_region q w2" "unat i < unat (r_num_slots q)"
    using liveD(1) [OF live_touches [OF lv1 others]] q i
    by (simp_all add: same_layout_control) (simp add: same_layout_def)
  from read_request_stored [OF doc pc this vec sq] decode_req_id_field [OF id] show ?thesis by simp
qed

theorem request_round_trip_witness:
  "\<exists>w1 w3. write_request Linux ref_externals demo_region 0 ''a'' 1 (as_bytes ''/x'') [1, 2, 3] demo_config demo_world
       = Some (Inr None, w1)
     \<and> read_request Linux ref_externals demo_region 0 demo_config w1
       = Some (Inr (''a'', 1, demo_request, [1, 2, 3]), w3)"
proof -
  obtain w1 where w1: "write_request Linux ref_externals demo_region 0 ''a'' 1 (as_bytes ''/x'') [1, 2, 3]
      demo_config demo_world = Some (Inr None, w1)" using demo_write by blast
  have "touches ref_view (r_ptr demo_region) (request_area demo_region 0 \<union> status_area 0) demo_world w1"
    using write_request_result [OF ref_shmem_documented demo_live, of 0 "as_bytes ''/x''" "[1, 2, 3]"
        Linux demo_config "''a''" 1] w1
    by (auto simp: slice_len_ok_def)
  then have "touches ref_view (r_ptr demo_region) {} w1 w1" by (intro touches_refl touches_held)
  moreover have "req_id_ok ''a''"
    by (simp add: req_id_ok_def as_bytes_def) (rule valid_utf8_ascii, simp)
  ultimately show ?thesis
    using request_round_trip [OF ref_shmem_documented ref_postcard_documented demo_live _ same_layout_refl
        demo_names(1) demo_request_vec _ _ _ w1, of "{}" w1] w1 by auto
qed

text \<open>
  C18: a response is read back exactly as it was written, under the same conditions.
\<close>

theorem response_round_trip:
  assumes doc: "shmem_documented X V" and pc: "postcard_documented X" and lv: "live V r w"
    and i: "unat i < unat (r_num_slots r)" and q: "same_layout q r"
    and names: "names_total (response_overflow_name_gen pl c i)"
    and vec: "response_to_vec X m = Inr meta" and lens: "length meta < 2 ^ 16" "length body < 2 ^ 32"
    and wr: "write_response pl X r i status meta body c w = Some (Inr ovf, w1)"
    and others: "touches V (r_ptr r) S w1 w2" and dis: "S \<inter> response_area r i = {}"
  shows "\<exists>w3. read_response pl X q i c w2 = Some (Inr (status, m, body), w3) \<and> unobserved V w2 w3"
proof -
  have l: "slice_len_ok meta" "slice_len_ok body" using lens by (simp_all add: slice_len_ok_def)
  have st: "response_stored V pl c r i status meta body ovf w1"
    and t: "touches V (r_ptr r) (response_area r i \<union> status_area i) w w1"
    using write_response_result [OF doc lv i l names, of status] wr lens by auto
  note lv1 = live_touches [OF lv t]
  have "ovf_kept V ovf w1 w2"
    using st others by (auto simp: response_stored_def intro: stored_ovf_kept)
  then have "response_stored V pl c r i status meta body ovf w2"
    by (rule response_stored_frame [OF st liveD(1) [OF lv1] i touches_bytes [OF others] dis])
  then have sq: "response_stored V pl c q i status meta body ovf w2"
    using same_layout_stored [OF q, of V "response_overflow_name_gen pl c i" Resp i meta body ovf w2] q
    by (simp add: response_stored_def same_layout_def)
  have "control_region q w2" "unat i < unat (r_num_slots q)"
    using liveD(1) [OF live_touches [OF lv1 others]] q i
    by (simp_all add: same_layout_control) (simp add: same_layout_def)
  from read_response_stored [OF doc pc this vec sq] show ?thesis .
qed

theorem response_round_trip_witness:
  "\<exists>w1 w3. write_response Linux ref_externals demo_region 0 200 (as_bytes ''t'') [4] demo_config demo_world
       = Some (Inr None, w1)
     \<and> read_response Linux ref_externals demo_region 0 demo_config w1
       = Some (Inr (200, demo_response, [4]), w3)"
proof -
  obtain w1 where w1: "write_response Linux ref_externals demo_region 0 200 (as_bytes ''t'') [4]
      demo_config demo_world = Some (Inr None, w1)" using demo_respond by blast
  have "touches ref_view (r_ptr demo_region) (response_area demo_region 0 \<union> status_area 0) demo_world w1"
    using write_response_result [OF ref_shmem_documented demo_live, of 0 "as_bytes ''t''" "[4]"
        Linux demo_config 200] w1
    by (auto simp: slice_len_ok_def)
  then have "touches ref_view (r_ptr demo_region) {} w1 w1" by (intro touches_refl touches_held)
  then show ?thesis
    using response_round_trip [OF ref_shmem_documented ref_postcard_documented demo_live _ same_layout_refl
        demo_names(2) demo_response_vec _ _ w1, of "{}" w1] w1 by auto
qed

text \<open>
  C19: writing a request never leaves the mapping and always ends with the slot published or released:
  \<open>Ready\<close> on success, \<open>Free\<close> on any error. It succeeds without an overflow region when the message
  fits the slot's arena and fails when the metadata alone does not. It changes only the bytes of this
  slot's request and status, and no other segment that anyone holds.
\<close>

theorem write_request_outcome:
  assumes "shmem_documented X V" and "live V r w" and "unat i < unat (r_num_slots r)"
    and "slice_len_ok meta" and "slice_len_ok body" and "names_total (request_overflow_name_gen pl c i)"
  shows "\<exists>res w'. write_request pl X r i req_id method meta body c w = Some (res, w')
    \<and> slot_status r i w' = Some (case res of Inl e \<Rightarrow> SLOT_FREE | Inr ovf \<Rightarrow> SLOT_READY)
    \<and> (payload_fits r Req i meta body \<longrightarrow> res = Inr None)
    \<and> (unat (snd (arena r Req i)) < length meta \<longrightarrow> (\<exists>msg. res = Inl (SharedMemory msg)))
    \<and> (\<forall>k < length (mem w (r_ptr r)). k \<notin> request_area r i \<union> status_area i \<longrightarrow>
         mem w' (r_ptr r) ! k = mem w (r_ptr r) ! k)
    \<and> (\<forall>seg. seg \<noteq> r_ptr r \<and> 0 < handles V w seg \<longrightarrow> mem w' seg = mem w seg)"
proof -
  obtain res w' where W: "write_request pl X r i req_id method meta body c w = Some (res, w')"
    "touches V (r_ptr r) (request_area r i \<union> status_area i) w w'"
    "unat (snd (arena r Req i)) < length meta \<longrightarrow> res = Inl (meta_too_big ''request'' meta (snd (arena r Req i)))"
    "payload_fits r Req i meta body \<longrightarrow> res = Inr None"
    "status_at r i w' = (case res of Inl e \<Rightarrow> SLOT_FREE | Inr ovf \<Rightarrow> SLOT_READY)"
    using write_request_result [OF assms, of req_id "method"] by (fastforce split: sum.splits)
  note cr = liveD(1) [OF live_touches [OF assms(2) W(2)]]
  have "mem w' seg = mem w seg" if "seg \<noteq> r_ptr r" "0 < handles V w seg" for seg
    using W(2) that by (auto simp: touches_def kept_def)
  then show ?thesis
    using W status_ops(1) [OF cr assms(3)]
    by (auto simp: meta_too_big_def touches_def unchanged_except_def)
qed

theorem write_request_outcome_witness:
  "\<exists>msg w'. write_request Linux ref_externals demo_region 0 ''a'' 1 (replicate 40 7) [] demo_config demo_world
       = Some (Inl (SharedMemory msg), w')
     \<and> slot_status demo_region 0 w' = Some SLOT_FREE"
  using write_request_outcome [OF ref_shmem_documented demo_live, of 0 "replicate 40 7" "[]" Linux
      demo_config "''a''" 1]
  by (auto simp: slice_len_ok_def demo_arena)

text \<open>
  C21: no write disturbs another message. Writing a request to a slot keeps every response and every
  other slot's request; writing a response keeps every request (its own slot's included) and every
  other slot's response, whether the write succeeds or not.
\<close>

theorem messages_isolated:
  assumes doc: "shmem_documented X V" and lv: "live V r w"
    and i: "unat i < unat (r_num_slots r)" and j: "unat j < unat (r_num_slots r)"
    and lens: "slice_len_ok meta" "slice_len_ok body"
    and names: "names_total (request_overflow_name_gen pl c i)" "names_total (response_overflow_name_gen pl c i)"
    and wr: "write_request pl X r i req_id method meta body c w = Some (res1, w1)"
    and ws: "write_response pl X r i status meta body c w = Some (res2, w2)"
  shows "(\<forall>id' m' mt b ovf. i \<noteq> j \<longrightarrow> request_stored V pl c r j id' m' mt b ovf w \<longrightarrow>
           request_stored V pl c r j id' m' mt b ovf w1)
    \<and> (\<forall>st mt b ovf. response_stored V pl c r j st mt b ovf w \<longrightarrow> response_stored V pl c r j st mt b ovf w1)
    \<and> (\<forall>id' m' mt b ovf. request_stored V pl c r j id' m' mt b ovf w \<longrightarrow>
           request_stored V pl c r j id' m' mt b ovf w2)
    \<and> (\<forall>st mt b ovf. i \<noteq> j \<longrightarrow> response_stored V pl c r j st mt b ovf w \<longrightarrow>
           response_stored V pl c r j st mt b ovf w2)"
proof -
  note cr = liveD(1) [OF lv]
  note ij = areas_disjoint [OF cr i j] and ji = areas_disjoint [OF cr j i]
  have t1: "touches V (r_ptr r) (request_area r i \<union> status_area i) w w1"
    using write_request_result [OF doc lv i lens names(1), of req_id "method"] wr by auto
  have t2: "touches V (r_ptr r) (response_area r i \<union> status_area i) w w2"
  proof (cases res2)
    case (Inl e)
    then have "touches V (r_ptr r) (response_area r i) w w2"
      using write_response_result [OF doc lv i lens names(2), of status] ws by auto
    then show ?thesis by (rule touches_mono) blast
  next
    case (Inr ovf)
    then show ?thesis using write_response_result [OF doc lv i lens names(2), of status] ws by auto
  qed
  have rq: "request_stored V pl c r j id' m' mt b ovf w \<Longrightarrow> touches V (r_ptr r) S w w' \<Longrightarrow>
      S \<inter> request_area r j = {} \<Longrightarrow> request_stored V pl c r j id' m' mt b ovf w'" for id' m' mt b ovf S w'
    by (rule request_stored_frame [OF _ cr j touches_bytes])
      (auto simp: request_stored_def intro: stored_ovf_kept)
  have rs: "response_stored V pl c r j st mt b ovf w \<Longrightarrow> touches V (r_ptr r) S w w' \<Longrightarrow>
      S \<inter> response_area r j = {} \<Longrightarrow> response_stored V pl c r j st mt b ovf w'" for st mt b ovf S w'
    by (rule response_stored_frame [OF _ cr j touches_bytes])
      (auto simp: response_stored_def intro: stored_ovf_kept)
  have d: "i \<noteq> j \<Longrightarrow> (request_area r i \<union> status_area i) \<inter> request_area r j = {}"
    "(request_area r i \<union> status_area i) \<inter> response_area r j = {}"
    "(response_area r i \<union> status_area i) \<inter> request_area r j = {}"
    "i \<noteq> j \<Longrightarrow> (response_area r i \<union> status_area i) \<inter> response_area r j = {}"
    using ij ji by blast+
  show ?thesis
    using rq [OF _ t1 d(1)] rs [OF _ t1 d(2)] rq [OF _ t2 d(3)] rs [OF _ t2 d(4)] by blast
qed

theorem messages_isolated_witness:
  "\<exists>w1 w2. write_request Linux ref_externals demo_region 0 ''a'' 1 (as_bytes ''/x'') [1, 2, 3] demo_config demo_world
       = Some (Inr None, w1)
     \<and> write_response Linux ref_externals demo_region 0 200 (as_bytes ''t'') [4] demo_config w1 = Some (Inr None, w2)
     \<and> request_stored ref_view Linux demo_config demo_region 0 ''a'' 1 (as_bytes ''/x'') [1, 2, 3] None w2"
proof -
  have l: "slice_len_ok (as_bytes ''/x'')" "slice_len_ok (as_bytes ''t'')" "slice_len_ok [1, 2, 3 :: u8]"
    "slice_len_ok [4 :: u8]"
    by (simp_all add: slice_len_ok_def)
  obtain w1 where w1: "write_request Linux ref_externals demo_region 0 ''a'' 1 (as_bytes ''/x'') [1, 2, 3]
      demo_config demo_world = Some (Inr None, w1)" using demo_write by blast
  have t: "touches ref_view (r_ptr demo_region) (request_area demo_region 0 \<union> status_area 0) demo_world w1"
    and st: "request_stored ref_view Linux demo_config demo_region 0 ''a'' 1 (as_bytes ''/x'') [1, 2, 3] None w1"
    using write_request_result [OF ref_shmem_documented demo_live, of 0 "as_bytes ''/x''" "[1, 2, 3]"
        Linux demo_config "''a''" 1] w1 l by auto
  note lv1 = live_touches [OF demo_live t]
  obtain w2 where w2: "write_response Linux ref_externals demo_region 0 200 (as_bytes ''t'') [4]
      demo_config w1 = Some (Inr None, w2)"
    using write_response_result [OF ref_shmem_documented lv1, of 0 "as_bytes ''t''" "[4]" Linux demo_config 200]
      demo_fits l by auto
  obtain w3 where w3: "write_request Linux ref_externals demo_region 0 ''a'' 1 (as_bytes ''t'') [4]
      demo_config w1 = Some w3"
    using write_request_result [OF ref_shmem_documented lv1, of 0 "as_bytes ''t''" "[4]" Linux demo_config
        "''a''" 1] l by auto
  obtain res w4 where "w3 = (res, w4)" by fastforce
  with w3 have w4: "write_request Linux ref_externals demo_region 0 ''a'' 1 (as_bytes ''t'') [4]
      demo_config w1 = Some (res, w4)" by simp
  from messages_isolated [OF ref_shmem_documented lv1 _ _ l(2,4) demo_names w4 w2, of 0] st
  have "request_stored ref_view Linux demo_config demo_region 0 ''a'' 1 (as_bytes ''/x'') [1, 2, 3] None w2"
    by auto
  then show ?thesis using w1 w2 by blast
qed

lemma field_base_nums:
  "field_base Req + 8 = 52" "field_base Req + 12 = 56" "field_base Req + 16 = 60"
  "field_base Resp + 8 = 76" "field_base Resp + 12 = 80" "field_base Resp + 16 = 84"
  by (simp_all add: field_base_def)

lemma reader_chain_total:
  assumes doc: "shmem_documented X V" and cr: "control_region r w" and i: "unat i < unat (r_num_slots r)"
    and nf_ok: "names_total nf"
  shows "\<exists>res w'. (do { meta_res \<leftarrow> heap_read_checked r off len w;
      and_then (Some (meta_res, w)) (\<lambda>mb w1. and_then (Some (lift_postcard (decode mb), w1)) (\<lambda>m w1. do {
        bo \<leftarrow> read_u32 (r_ptr r) (slot_base i + (field_base s + 8)) w1;
        bl \<leftarrow> read_u32 (r_ptr r) (slot_base i + (field_base s + 12)) w1;
        bv \<leftarrow> read_u8 (r_ptr r) (slot_base i + (field_base s + 16)) w1;
        and_then (read_body X r nf bo bl bv w1) (\<lambda>body w1. Some (Inr (g m body), w1)) })) })
      = Some (res, w') \<and> kept V UNIV w w'"
proof -
  obtain h where h: "heap_read_checked r off len w = Some h" using heap_read_total [OF cr] by blast
  show ?thesis
  proof (cases h)
    case (Inl e)
    with h show ?thesis by simp
  next
    case (Inr mb)
    show ?thesis
    proof (cases "decode mb")
      case (Inl e)
      with h \<open>h = Inr mb\<close> show ?thesis by simp
    next
      case (Inr m)
      obtain res w' where "read_body X r nf (get_u32 (fields_at s i + 8) (mem w (r_ptr r)))
          (get_u32 (fields_at s i + 12) (mem w (r_ptr r))) (get_u8 (fields_at s i + 16) (mem w (r_ptr r))) w
          = Some (res, w')" "kept V UNIV w w'"
        using read_body_total [OF doc cr nf_ok] by blast
      with h \<open>h = Inr mb\<close> Inr show ?thesis
        by (cases res) (simp_all add: read_fields [OF cr i])
    qed
  qed
qed

lemma readers_total:
  assumes doc: "shmem_documented X V" and lv: "live V r w" and i: "unat i < unat (r_num_slots r)"
    and names: "names_total (request_overflow_name_gen pl c i)" "names_total (response_overflow_name_gen pl c i)"
  shows "(\<exists>res w'. read_request pl X r i c w = Some (res, w') \<and> kept V UNIV w w')
    \<and> (\<exists>res w'. read_response pl X r i c w = Some (res, w') \<and> kept V UNIV w w')"
proof -
  note cr = liveD(1) [OF lv]
  show ?thesis
    unfolding read_request_eq [OF cr i] read_response_eq [OF cr i] Let_def
    by (intro conjI reader_chain_total [OF doc cr i names(1), where s = Req, unfolded field_base_nums]
        reader_chain_total [OF doc cr i names(2), where s = Resp, unfolded field_base_nums])
qed

text \<open>
  C22: reading a slot never leaves the mapping, whatever the slot and the heap contain (torn,
  hostile or stale fields alike): both readers return a message or an error, and no segment that
  anyone holds changes.
\<close>

theorem readers_stay_in_bounds:
  assumes doc: "shmem_documented X V" and lv: "live V r w" and i: "unat i < unat (r_num_slots r)"
    and names: "names_total (request_overflow_name_gen pl c i)" "names_total (response_overflow_name_gen pl c i)"
  shows "(\<exists>res w'. read_request pl X r i c w = Some (res, w') \<and> kept V UNIV w w')
    \<and> (\<exists>res w'. read_response pl X r i c w = Some (res, w') \<and> kept V UNIV w w')"
  by (rule readers_total [OF assms])

theorem readers_stay_in_bounds_witness:
  "\<exists>res w'. read_request Linux ref_externals demo_region 0 demo_config demo_world = Some (res, w')"
  using readers_stay_in_bounds [OF ref_shmem_documented demo_live _ demo_names, of 0 demo_config] by auto

end
