(* ===== verification/Events.thy ===== *)
theory Events
  imports World Errors Config Utf8
begin

text \<open>
  The named events (\<^verbatim>\<open>slotbus/src/events.rs\<close>): creating, opening, signalling, waiting and dropping, on
  Windows with kernel events and on Linux and macOS with POSIX semaphores. The system calls are
  parameters, collected in a record; \<open>events_documented\<close> states what their documentation promises
  and the properties rely on. The arithmetic of the timed wait and the polling loop are the crate's.
\<close>

section \<open>The system calls\<close>

text \<open>
  A semaphore pointer is a number, \<^verbatim>\<open>SEM_FAILED\<close> is \<open>None\<close>; the waits return whether the call returned
  0; times of \<^verbatim>\<open>Instant\<close> and \<^verbatim>\<open>sleep\<close> are nanoseconds.
\<close>

record 'os event_os =
  CreateEventW :: "u16 list \<Rightarrow> 'os world \<Rightarrow> 64 word \<times> 'os world"
  OpenEventW :: "u16 list \<Rightarrow> 'os world \<Rightarrow> 64 word \<times> 'os world"
  SetEvent :: "64 word \<Rightarrow> 'os world \<Rightarrow> 'os world"
  WaitForSingleObject :: "64 word \<Rightarrow> u32 \<Rightarrow> 'os world \<Rightarrow> u32 \<times> 'os world"
  CloseHandle :: "64 word \<Rightarrow> 'os world \<Rightarrow> 'os world"
  sem_unlink :: "bytes \<Rightarrow> 'os world \<Rightarrow> 'os world"
  sem_open_create :: "bytes \<Rightarrow> 'os world \<Rightarrow> nat option \<times> 'os world"
  sem_open_existing :: "bytes \<Rightarrow> 'os world \<Rightarrow> nat option \<times> 'os world"
  sem_post :: "nat \<Rightarrow> 'os world \<Rightarrow> 'os world"
  sem_timedwait :: "nat \<Rightarrow> int \<times> int \<Rightarrow> 'os world \<Rightarrow> bool \<times> 'os world"
  sem_trywait :: "nat \<Rightarrow> 'os world \<Rightarrow> bool \<times> 'os world"
  sem_close :: "nat \<Rightarrow> 'os world \<Rightarrow> 'os world"
  clock_realtime :: "'os world \<Rightarrow> int \<times> int"
  instant_now :: "'os world \<Rightarrow> nat"
  thread_sleep :: "nat \<Rightarrow> 'os world \<Rightarrow> 'os world"
  last_os_error :: "'os world \<Rightarrow> string"

definition WAIT_OBJECT_0 :: u32 where "WAIT_OBJECT_0 = 0"

section \<open>The event\<close>

datatype named_event =
    WindowsEvent (ev_handle: "64 word")
  | UnixEvent (ev_sem: nat) (ev_name: bytes) (ev_created: bool)

text \<open>\<^verbatim>\<open>raw_handle\<close> exists on Windows only.\<close>

definition raw_handle :: "named_event \<Rightarrow> 64 word option" where
  "raw_handle ev = (case ev of WindowsEvent h \<Rightarrow> Some h | UnixEvent sem name created \<Rightarrow> None)"

text \<open>\<^verbatim>\<open>CString::new\<close> rejects a NUL byte, naming its position.\<close>

definition cstring_new :: "string \<Rightarrow> string + bytes" where
  "cstring_new s =
     (let bs = as_bytes s in
      case find (\<lambda>k. bs ! k = 0) [0 ..< length bs] of
        Some k \<Rightarrow> Inl (''nul byte found in provided data at position: '' @ show_nat k)
      | None \<Rightarrow> Inr bs)"

definition wide_name :: "string \<Rightarrow> u16 list" where
  "wide_name name = encode_utf16 (as_bytes name) @ [0]"

definition event_create ::
  "platform \<Rightarrow> 'os event_os \<Rightarrow> string \<Rightarrow> 'os world \<Rightarrow> named_event result \<times> 'os world" where
  "event_create pl E name w =
     (case pl of
        Windows \<Rightarrow>
          (case CreateEventW E (wide_name name) w of (handle, w') \<Rightarrow>
             if handle = 0
             then (Inl (EventError (''CreateEventW failed for '' @ CHR 0x27 # name @ [CHR 0x27])), w')
             else (Inr (WindowsEvent handle), w'))
      | _ \<Rightarrow>
          (case cstring_new (''/'' @ name) of
             Inl e \<Rightarrow> (Inl (EventError (''invalid name: '' @ e)), w)
           | Inr cname \<Rightarrow>
               (case sem_open_create E cname (sem_unlink E cname w) of
                  (None, w') \<Rightarrow>
                    (Inl (EventError (''sem_open(create) failed for '' @ CHR 0x27 # name @ CHR 0x27
                             # '': '' @ last_os_error E w')), w')
                | (Some sem, w') \<Rightarrow> (Inr (UnixEvent sem cname True), w'))))"

definition event_open ::
  "platform \<Rightarrow> 'os event_os \<Rightarrow> string \<Rightarrow> 'os world \<Rightarrow> named_event result \<times> 'os world" where
  "event_open pl E name w =
     (case pl of
        Windows \<Rightarrow>
          (case OpenEventW E (wide_name name) w of (handle, w') \<Rightarrow>
             if handle = 0
             then (Inl (EventError (''OpenEventW failed for '' @ CHR 0x27 # name @ [CHR 0x27])), w')
             else (Inr (WindowsEvent handle), w'))
      | _ \<Rightarrow>
          (case cstring_new (''/'' @ name) of
             Inl e \<Rightarrow> (Inl (EventError (''invalid name: '' @ e)), w)
           | Inr cname \<Rightarrow>
               (case sem_open_existing E cname w of
                  (None, w') \<Rightarrow>
                    (Inl (EventError (''sem_open(open) failed for '' @ CHR 0x27 # name @ [CHR 0x27])), w')
                | (Some sem, w') \<Rightarrow> (Inr (UnixEvent sem cname False), w'))))"

fun event_signal :: "'os event_os \<Rightarrow> named_event \<Rightarrow> 'os world \<Rightarrow> 'os world" where
  "event_signal E (WindowsEvent h) w = SetEvent E h w"
| "event_signal E (UnixEvent sem name created) w = sem_post E sem w"

text \<open>The absolute deadline of \<^verbatim>\<open>sem_timedwait\<close>, from the current time and a timeout in milliseconds.\<close>

definition deadline_timespec :: "int \<times> int \<Rightarrow> u32 \<Rightarrow> int \<times> int" where
  "deadline_timespec now ms =
     (let tv_sec = fst now + int (unat (ms div 1000));
          tv_nsec = snd now + int (unat (ms mod 1000)) * 1000000
      in if tv_nsec \<ge> 1000000000 then (tv_sec + 1, tv_nsec - 1000000000) else (tv_sec, tv_nsec))"

text \<open>The polling loop of the macOS wait; a loop that never ends is \<open>None\<close>.\<close>

partial_function (option) poll_wait ::
  "'os event_os \<Rightarrow> nat \<Rightarrow> nat \<Rightarrow> 'os world \<Rightarrow> (bool \<times> 'os world) option" where
  "poll_wait E sem deadline w =
     (let (taken, w') = sem_trywait E sem w in
      if taken then Some (True, w')
      else if instant_now E w' \<ge> deadline then Some (False, w')
      else poll_wait E sem deadline (thread_sleep E 1000000 w'))"

definition event_wait_timeout ::
  "platform \<Rightarrow> 'os event_os \<Rightarrow> named_event \<Rightarrow> u32 \<Rightarrow> 'os world \<Rightarrow> (bool \<times> 'os world) option" where
  "event_wait_timeout pl E ev ms w =
     (case ev of
        WindowsEvent h \<Rightarrow>
          (case WaitForSingleObject E h ms w of (r, w') \<Rightarrow> Some (r = WAIT_OBJECT_0, w'))
      | UnixEvent sem name created \<Rightarrow>
          if pl = MacOS
          then poll_wait E sem (instant_now E w + unat ms * 1000000) w
          else Some (sem_timedwait E sem (deadline_timespec (clock_realtime E w) ms) w))"

fun event_drop :: "'os event_os \<Rightarrow> named_event \<Rightarrow> 'os world \<Rightarrow> 'os world" where
  "event_drop E (WindowsEvent h) w = CloseHandle E h w"
| "event_drop E (UnixEvent sem name created) w =
     (let w = sem_close E sem w in if created then sem_unlink E name w else w)"

section \<open>Documented behaviour\<close>

text \<open>
  What an observer sees: a semaphore's value, and whether a kernel event is signalled. A post adds one;
  a wait takes one if there is one, at once. A kernel event is set by \<^verbatim>\<open>SetEvent\<close> and reset by the wait
  that returns. The monotonic clock advances by at least the time slept.
\<close>

record 'os event_view =
  sem_value :: "'os world \<Rightarrow> nat \<Rightarrow> nat"
  event_set :: "'os world \<Rightarrow> 64 word \<Rightarrow> bool"

definition semaphores_documented :: "'os event_os \<Rightarrow> 'os event_view \<Rightarrow> bool" where
  "semaphores_documented E V \<longleftrightarrow>
     (\<forall>s w. sem_value V (sem_post E s w) s = Suc (sem_value V w s))
   \<and> (\<forall>s w. 0 < sem_value V w s \<longrightarrow>
        (\<exists>w'. sem_trywait E s w = (True, w') \<and> sem_value V w' s = sem_value V w s - 1))
   \<and> (\<forall>s t w. 0 < sem_value V w s \<longrightarrow>
        (\<exists>w'. sem_timedwait E s t w = (True, w') \<and> sem_value V w' s = sem_value V w s - 1))"

definition kernel_events_documented :: "'os event_os \<Rightarrow> 'os event_view \<Rightarrow> bool" where
  "kernel_events_documented E V \<longleftrightarrow>
     (\<forall>h w. event_set V (SetEvent E h w) h)
   \<and> (\<forall>h ms w. event_set V w h \<longrightarrow>
        (\<exists>w'. WaitForSingleObject E h ms w = (WAIT_OBJECT_0, w') \<and> \<not> event_set V w' h))"

definition clock_documented :: "'os event_os \<Rightarrow> bool" where
  "clock_documented E \<longleftrightarrow>
     (\<forall>s w. instant_now E w \<le> instant_now E (snd (sem_trywait E s w)))
   \<and> (\<forall>n w. instant_now E w + n \<le> instant_now E (thread_sleep E n w))"

definition event_ready :: "'os event_view \<Rightarrow> named_event \<Rightarrow> 'os world \<Rightarrow> bool" where
  "event_ready V ev w =
     (case ev of WindowsEvent h \<Rightarrow> event_set V w h | UnixEvent sem name created \<Rightarrow> 0 < sem_value V w sem)"

lemma signal_ready:
  "semaphores_documented E V \<Longrightarrow> kernel_events_documented E V \<Longrightarrow> event_ready V ev (event_signal E ev w)"
  by (cases ev) (simp_all add: event_ready_def semaphores_documented_def kernel_events_documented_def)

lemma poll_wait_turn:
  "sem_trywait E sem w = (taken, w') \<Longrightarrow> poll_wait E sem deadline w =
     (if taken then Some (True, w')
      else if instant_now E w' \<ge> deadline then Some (False, w')
      else poll_wait E sem deadline (thread_sleep E 1000000 w'))"
  by (subst poll_wait.simps) simp

lemma wait_ready:
  assumes "semaphores_documented E V" and "kernel_events_documented E V" and "event_ready V ev w"
  shows "\<exists>w'. event_wait_timeout pl E ev ms w = Some (True, w')
    \<and> (case ev of WindowsEvent h \<Rightarrow> \<not> event_set V w' h
       | UnixEvent sem name created \<Rightarrow> sem_value V w' sem = sem_value V w sem - 1)"
proof (cases ev)
  case (WindowsEvent h)
  then have "event_set V w h" using assms(3) by (simp add: event_ready_def)
  then obtain w' where "WaitForSingleObject E h ms w = (WAIT_OBJECT_0, w')" "\<not> event_set V w' h"
    using assms(2) unfolding kernel_events_documented_def by blast
  then show ?thesis using WindowsEvent by (simp add: event_wait_timeout_def)
next
  case (UnixEvent sem name created)
  then have v: "0 < sem_value V w sem" using assms(3) by (simp add: event_ready_def)
  obtain w1 where t: "sem_trywait E sem w = (True, w1)" "sem_value V w1 sem = sem_value V w sem - 1"
    using v assms(1) unfolding semaphores_documented_def by blast
  obtain w2 where d: "sem_timedwait E sem (deadline_timespec (clock_realtime E w) ms) w = (True, w2)"
    "sem_value V w2 sem = sem_value V w sem - 1"
    using v assms(1) unfolding semaphores_documented_def by blast
  show ?thesis
  proof (cases "pl = MacOS")
    case True
    then show ?thesis using UnixEvent t(2) by (simp add: event_wait_timeout_def poll_wait_turn [OF t(1)])
  next
    case False
    then show ?thesis using UnixEvent d by (simp add: event_wait_timeout_def)
  qed
qed

lemma poll_wait_ends:
  assumes "clock_documented E"
  shows "deadline \<le> instant_now E w + n * 1000000 \<Longrightarrow> poll_wait E sem deadline w \<noteq> None"
proof (induction n arbitrary: w)
  case 0
  obtain b w' where t: "sem_trywait E sem w = (b, w')" by fastforce
  have "instant_now E w \<le> instant_now E w'" using assms t by (metis clock_documented_def snd_conv)
  then show ?case using 0 by (simp add: poll_wait_turn [OF t] del: not_None_eq)
next
  case (Suc n)
  obtain b w' where t: "sem_trywait E sem w = (b, w')" by fastforce
  have "instant_now E w \<le> instant_now E w'" using assms t by (metis clock_documented_def snd_conv)
  moreover have "instant_now E w' + 1000000 \<le> instant_now E (thread_sleep E 1000000 w')"
    using assms by (simp add: clock_documented_def)
  ultimately have "deadline \<le> instant_now E (thread_sleep E 1000000 w') + n * 1000000"
    using Suc.prems by simp
  then show ?case using Suc.IH by (simp add: poll_wait_turn [OF t] del: not_None_eq)
qed

section \<open>Properties\<close>

text \<open>
  C34: the deadline of the Linux wait is a valid timespec, exactly the timeout after the current
  time: from a normalised time it is normalised again, and no field leaves the range of \<^verbatim>\<open>i64\<close>.
\<close>

theorem deadline_exact:
  assumes "0 \<le> nsec" and "nsec < 1000000000" and "0 \<le> sec" and "sec < 2 ^ 62"
  shows "0 \<le> snd (deadline_timespec (sec, nsec) ms) \<and> snd (deadline_timespec (sec, nsec) ms) < 1000000000
    \<and> fst (deadline_timespec (sec, nsec) ms) < 2 ^ 63
    \<and> fst (deadline_timespec (sec, nsec) ms) * 1000000000 + snd (deadline_timespec (sec, nsec) ms)
      = sec * 1000000000 + nsec + int (unat ms) * 1000000"
proof -
  have d: "unat (ms div 1000) = unat ms div 1000" "unat (ms mod 1000) = unat ms mod 1000"
    by (simp_all add: unat_div_distrib unat_mod_distrib)
  have m: "int (unat ms) = 1000 * int (unat ms div 1000) + int (unat ms mod 1000)"
    by (metis mult_div_mod_eq of_nat_add of_nat_mult of_nat_numeral)
  have "unat ms < 2 ^ 32" using unsigned_less [of ms] by simp
  moreover have "unat ms div 1000 \<le> unat ms" by simp
  ultimately have "unat ms div 1000 < 4294967296" by simp
  then have lim: "int (unat ms div 1000) < 2 ^ 32" by simp
  define q k where "q = int (unat ms div 1000)" and "k = int (unat ms mod 1000)"
  then have "0 \<le> k" "k < 1000" "0 \<le> q" "q < 2 ^ 32" "int (unat ms) = 1000 * q + k" using lim m by simp_all
  moreover have "deadline_timespec (sec, nsec) ms =
      (if nsec + k * 1000000 \<ge> 1000000000 then (sec + q + 1, nsec + k * 1000000 - 1000000000)
       else (sec + q, nsec + k * 1000000))"
    unfolding q_def k_def by (simp add: deadline_timespec_def Let_def d)
  ultimately show ?thesis using assms by simp
qed

theorem deadline_exact_witness:
  "deadline_timespec (10, 999999999) 1500 = (12, 499999999) \<and> snd (deadline_timespec (10, 999999999) 1500) < 1000000000"
  using deadline_exact [of 999999999 10 1500] by (simp add: deadline_timespec_def)


text \<open>One implementation of the system calls, in which nobody else acts: one semaphore and one kernel event.\<close>

record event_box =
  box_count :: nat
  box_set :: bool
  box_time :: nat

definition box_take :: "event_box world \<Rightarrow> bool \<times> event_box world" where
  "box_take w =
     (if 0 < box_count (ext w) then (True, w\<lparr>ext := (ext w)\<lparr>box_count := box_count (ext w) - 1\<rparr>\<rparr>)
      else (False, w))"

definition box_events :: "event_box event_os" where
  "box_events =
     \<lparr>CreateEventW = (\<lambda>n w. (1, w)), OpenEventW = (\<lambda>n w. (1, w)),
      SetEvent = (\<lambda>h w. w\<lparr>ext := (ext w)\<lparr>box_set := True\<rparr>\<rparr>),
      WaitForSingleObject = (\<lambda>h ms w. (if box_set (ext w) then 0 else 258, w\<lparr>ext := (ext w)\<lparr>box_set := False\<rparr>\<rparr>)),
      CloseHandle = (\<lambda>h w. w), sem_unlink = (\<lambda>n w. w),
      sem_open_create = (\<lambda>n w. (Some 0, w\<lparr>ext := (ext w)\<lparr>box_count := 0\<rparr>\<rparr>)),
      sem_open_existing = (\<lambda>n w. (Some 0, w)),
      sem_post = (\<lambda>s w. w\<lparr>ext := (ext w)\<lparr>box_count := Suc (box_count (ext w))\<rparr>\<rparr>),
      sem_timedwait = (\<lambda>s t w. box_take w), sem_trywait = (\<lambda>s w. box_take w),
      sem_close = (\<lambda>s w. w), clock_realtime = (\<lambda>w. (0, 0)), instant_now = (\<lambda>w. box_time (ext w)),
      thread_sleep = (\<lambda>n w. w\<lparr>ext := (ext w)\<lparr>box_time := box_time (ext w) + n\<rparr>\<rparr>),
      last_os_error = (\<lambda>w. ''error'')\<rparr>"

definition box_view :: "event_box event_view" where
  "box_view = \<lparr>sem_value = (\<lambda>w s. box_count (ext w)), event_set = (\<lambda>w h. box_set (ext w))\<rparr>"

definition box_world :: "event_box world" where
  "box_world = \<lparr>mem = (\<lambda>_. []), ext = \<lparr>box_count = 0, box_set = False, box_time = 0\<rparr>\<rparr>"

lemma box_documented:
  "semaphores_documented box_events box_view" "kernel_events_documented box_events box_view"
  "clock_documented box_events"
  by (auto simp: semaphores_documented_def kernel_events_documented_def clock_documented_def box_events_def
      box_view_def box_take_def WAIT_OBJECT_0_def)


text \<open>
  The events of the two platforms differ. Two signals before a wait leave a Windows event
  unsignalled after one wait, but a POSIX semaphore counts them: the next wait returns at once too,
  although the module describes auto-reset events.
\<close>

theorem semaphores_count_signals:
  assumes "semaphores_documented E V" and "kernel_events_documented E V"
    and "event_wait_timeout pl E ev ms (event_signal E ev (event_signal E ev w)) = Some (True, w1)"
  shows "case ev of
      WindowsEvent h \<Rightarrow> \<not> event_set V w1 h
    | UnixEvent sem name created \<Rightarrow> \<exists>w2. event_wait_timeout pl E ev ms' w1 = Some (True, w2)"
proof (cases ev)
  case (WindowsEvent h)
  then show ?thesis
    using wait_ready [OF assms(1,2) signal_ready [OF assms(1,2)], of pl ev ms "event_signal E ev w"] assms(3) by simp
next
  case (UnixEvent sem name created)
  have "sem_value V (event_signal E ev (event_signal E ev w)) sem = Suc (Suc (sem_value V w sem))"
    using assms(1) UnixEvent by (simp add: semaphores_documented_def)
  then have "event_ready V ev w1"
    using wait_ready [OF assms(1,2) signal_ready [OF assms(1,2)], of pl ev ms "event_signal E ev w"] assms(3) UnixEvent
    by (simp add: event_ready_def)
  then show ?thesis using wait_ready [OF assms(1,2)] UnixEvent by fastforce
qed

theorem semaphores_count_signals_witness:
  "\<exists>w1 w2. event_wait_timeout Linux box_events (UnixEvent 0 [] True) 5
      (event_signal box_events (UnixEvent 0 [] True) (event_signal box_events (UnixEvent 0 [] True) box_world))
      = Some (True, w1)
    \<and> event_wait_timeout Linux box_events (UnixEvent 0 [] True) 5 w1 = Some (True, w2)"
proof -
  obtain w1 where w1: "event_wait_timeout Linux box_events (UnixEvent 0 [] True) 5
      (event_signal box_events (UnixEvent 0 [] True) (event_signal box_events (UnixEvent 0 [] True) box_world))
      = Some (True, w1)"
    using wait_ready [OF box_documented(1,2) signal_ready [OF box_documented(1,2)]] by blast
  from semaphores_count_signals [OF box_documented(1,2) w1, of 5] w1 show ?thesis by auto
qed

end
