(* ===== verification/Transport.thy ===== *)
theory Transport
  imports Exchange Events
begin

text \<open>
  The two ends of a bus (\<^verbatim>\<open>slotbus/src/transport.rs\<close>): \<open>SlotBus\<close> on the hub, which dispatches requests
  and resolves their oneshot channels from the responses, and \<open>SlotWorker\<close>, which claims requests,
  hands them to a handler and sends responses. An operation takes the end's state and the world. The
  calls on the channels of \<^verbatim>\<open>tokio\<close> are recorded in the order they are made; logging has no effect.
\<close>

section \<open>Messages and channels\<close>

text \<open>A decoded request; \<^verbatim>\<open>collect()\<close> into a \<^verbatim>\<open>HashMap\<close> keeps the last value of a repeated key.\<close>

record request =
  rq_id :: string
  rq_method :: string
  rq_path :: string
  rq_route_pattern :: string
  rq_path_params :: "string \<Rightarrow> string option"
  rq_query :: "string option"
  rq_body :: bytes
  rq_headers :: "string \<Rightarrow> string option"

record response =
  rs_status :: u16
  rs_body :: bytes
  rs_content_type :: string
  rs_headers :: "(string \<times> string) list"

definition collect_map :: "(string \<times> string) list \<Rightarrow> string \<Rightarrow> string option" where
  "collect_map kvs = map_of (rev kvs)"

text \<open>A oneshot channel is a number; its sender is used once or dropped unused.\<close>

datatype channel_call = SendResponse nat response | DropSender nat

type_synonym pending_entry = "nat \<times> string \<times> nat"

section \<open>The hub\<close>

record bus =
  bus_config :: config
  bus_region :: shm_region
  bus_req_event :: named_event
  bus_rsp_event :: named_event
  bus_pending :: "string \<Rightarrow> pending_entry option"
  bus_overflow :: "usize \<Rightarrow> shm_region option"
  bus_running :: bool
  bus_calls :: "channel_call list"
  bus_next_channel :: nat

definition bus_create ::
  "platform \<Rightarrow> 'os externals \<Rightarrow> 'os event_os \<Rightarrow> config \<Rightarrow> 'os world \<Rightarrow> (bus result \<times> 'os world) option" where
  "bus_create pl X E c w = do {
     rname \<leftarrow> region_name pl c;
     case create_or_open pl X rname (cfg_region_size c) w of
       (Inl e, w) \<Rightarrow> Some (Inl e, w)
     | (Inr region, w) \<Rightarrow> do {
         (res, region, w) \<leftarrow> init_control c region w;
         case res of
           Inl e \<Rightarrow> Some (Inl e, region_drop X region w)
         | Inr _ \<Rightarrow> do {
             qname \<leftarrow> request_event_name pl c;
             case event_create pl E qname w of
               (Inl e, w) \<Rightarrow> Some (Inl e, region_drop X region w)
             | (Inr req_event, w) \<Rightarrow> do {
                 sname \<leftarrow> response_event_name pl c;
                 case event_create pl E sname w of
                   (Inl e, w) \<Rightarrow> Some (Inl e, region_drop X region (event_drop E req_event w))
                 | (Inr rsp_event, w) \<Rightarrow>
                     Some (Inr \<lparr>bus_config = c, bus_region = region, bus_req_event = req_event,
                                bus_rsp_event = rsp_event, bus_pending = (\<lambda>_. None),
                                bus_overflow = (\<lambda>_. None), bus_running = True, bus_calls = [],
                                bus_next_channel = 0\<rparr>, w) } } } }"

text \<open>The name a worker opens.\<close>

definition bus_region_name :: "platform \<Rightarrow> bus \<Rightarrow> string option" where
  "bus_region_name pl bus = region_name pl (bus_config bus)"

text \<open>\<^verbatim>\<open>overflow_regions.lock().unwrap().remove(&i)\<close> and \<^verbatim>\<open>insert(i, ovf)\<close>; a region taken out is dropped.\<close>

definition drop_opt :: "'os externals \<Rightarrow> shm_region option \<Rightarrow> 'os world \<Rightarrow> 'os world" where
  "drop_opt X ovf w = (case ovf of None \<Rightarrow> w | Some r \<Rightarrow> region_drop X r w)"

definition bus_forget :: "'os externals \<Rightarrow> usize \<Rightarrow> bus \<times> 'os world \<Rightarrow> bus \<times> 'os world" where
  "bus_forget X i s =
     (case s of (bus, w) \<Rightarrow>
        (bus\<lparr>bus_overflow := (bus_overflow bus)(i := None)\<rparr>, drop_opt X (bus_overflow bus i) w))"

definition bus_keep :: "'os externals \<Rightarrow> usize \<Rightarrow> shm_region option \<Rightarrow> bus \<times> 'os world \<Rightarrow> bus \<times> 'os world" where
  "bus_keep X i overflow s =
     (case overflow of
        None \<Rightarrow> s
      | Some ovf \<Rightarrow>
          (case s of (bus, w) \<Rightarrow>
             (bus\<lparr>bus_overflow := (bus_overflow bus)(i \<mapsto> ovf)\<rparr>, drop_opt X (bus_overflow bus i) w)))"

text \<open>
  \<open>dispatch\<close> in its three stages: reserve a slot (\<open>claim_free_slot\<close>), fill and publish it, and register
  the caller's channel. Other threads and processes act between the stages.
\<close>

definition dispatch_fill ::
  "platform \<Rightarrow> 'os externals \<Rightarrow> usize \<Rightarrow> string \<Rightarrow> string \<Rightarrow> request_meta \<Rightarrow> bytes \<Rightarrow>
   bus \<times> 'os world \<Rightarrow> (unit result \<times> bus \<times> 'os world) option" where
  "dispatch_fill pl X slot_index req_id method meta body s =
     and_then (Some (lift_postcard (request_to_vec X meta), s)) (\<lambda>meta_bytes s.
       let method_u8 = method_to_u8 method;
           (bus, w) = bus_forget X slot_index s
       in do { (res, w) \<leftarrow> write_request pl X (bus_region bus) slot_index req_id method_u8 meta_bytes body
                            (bus_config bus) w;
               case res of
                 Inl e \<Rightarrow> Some (Inl e, bus, w)
               | Inr overflow \<Rightarrow> Some (Inr (), bus_keep X slot_index overflow (bus, w)) })"

definition dispatch_register ::
  "'os event_os \<Rightarrow> string \<Rightarrow> string \<Rightarrow> request_meta \<Rightarrow> bus \<times> 'os world \<Rightarrow> nat result \<times> bus \<times> 'os world" where
  "dispatch_register E req_id method meta s =
     (case s of (bus, w) \<Rightarrow>
        let ch = bus_next_channel bus;
            label = method @ '' '' @ path meta;
            replaced = (case bus_pending bus req_id of None \<Rightarrow> [] | Some (t0, l, tx) \<Rightarrow> [DropSender tx]);
            bus = bus\<lparr>bus_next_channel := Suc ch,
                      bus_pending := (bus_pending bus)(req_id \<mapsto> (instant_now E w, label, ch)),
                      bus_calls := bus_calls bus @ replaced\<rparr>
        in (Inr ch, bus, event_signal E (bus_req_event bus) w))"

definition bus_dispatch ::
  "platform \<Rightarrow> 'os externals \<Rightarrow> 'os event_os \<Rightarrow> string \<Rightarrow> string \<Rightarrow> request_meta \<Rightarrow> bytes \<Rightarrow>
   bus \<times> 'os world \<Rightarrow> (nat result \<times> bus \<times> 'os world) option" where
  "bus_dispatch pl X E req_id method meta body s =
     (case s of (bus, w) \<Rightarrow> do {
        (slot, w) \<leftarrow> claim_free_slot (bus_region bus) w;
        case slot of
          None \<Rightarrow> Some (Inl (NoFreeSlots (cfg_num_slots (bus_config bus))), bus, w)
        | Some slot_index \<Rightarrow>
            and_then (dispatch_fill pl X slot_index req_id method meta body (bus, w))
              (\<lambda>_ s. Some (dispatch_register E req_id method meta s)) })"

section \<open>The response watcher\<close>

text \<open>
  One slot of the watcher's scan: read the response and release the slot (\<open>watch_release\<close>), drop the slot's
  overflow region (\<open>bus_forget\<close>), resolve the caller (\<open>watch_send\<close>). Other threads may act in between.
\<close>

definition watch_release ::
  "platform \<Rightarrow> 'os externals \<Rightarrow> usize \<Rightarrow> bus \<Rightarrow> 'os world \<Rightarrow>
   ((string \<times> (u16 \<times> response_meta \<times> bytes) result) option \<times> 'os world) option" where
  "watch_release pl X i bus w =
     (let r = bus_region bus in do {
        st \<leftarrow> slot_status r i w;
        if st \<noteq> SLOT_DONE then Some (None, w)
        else do {
          req_id \<leftarrow> read_req_id r i w;
          (resp_result, w) \<leftarrow> read_response pl X r i (bus_config bus) w;
          (cas, w) \<leftarrow> cas_status r i SLOT_DONE SLOT_FREE w;
          case cas of
            Inl _ \<Rightarrow> Some (None, w)
          | Inr _ \<Rightarrow> Some (Some (req_id, resp_result), w) } })"

definition watch_send :: "string \<Rightarrow> (u16 \<times> response_meta \<times> bytes) result \<Rightarrow> bus \<Rightarrow> bus" where
  "watch_send req_id resp_result bus =
     (case resp_result of
        Inl e \<Rightarrow> bus
      | Inr (status, meta, body) \<Rightarrow>
          (case bus_pending bus req_id of
             None \<Rightarrow> bus
           | Some (t0, label, tx) \<Rightarrow>
               bus\<lparr>bus_pending := (bus_pending bus)(req_id := None),
                   bus_calls := bus_calls bus @ [SendResponse tx
                     \<lparr>rs_status = status, rs_body = body,
                      rs_content_type = content_type meta,
                      rs_headers = resp_headers meta\<rparr>]\<rparr>))"

definition watch_resolve ::
  "'os externals \<Rightarrow> usize \<Rightarrow> string \<Rightarrow> (u16 \<times> response_meta \<times> bytes) result \<Rightarrow> bus \<times> 'os world \<Rightarrow> bus \<times> 'os world" where
  "watch_resolve X i req_id resp_result s =
     (case bus_forget X i s of (bus, w) \<Rightarrow> (watch_send req_id resp_result bus, w))"

definition watch_slot ::
  "platform \<Rightarrow> 'os externals \<Rightarrow> usize \<Rightarrow> bus \<times> 'os world \<Rightarrow> (bus \<times> 'os world) option" where
  "watch_slot pl X i s =
     (case s of (bus, w) \<Rightarrow> do {
        (got, w) \<leftarrow> watch_release pl X i bus w;
        case got of
          None \<Rightarrow> Some (bus, w)
        | Some (req_id, resp_result) \<Rightarrow> Some (watch_resolve X i req_id resp_result (bus, w)) })"

lemmas watch_slot_defs = watch_slot_def watch_release_def watch_resolve_def watch_send_def

fun watch_scan ::
  "platform \<Rightarrow> 'os externals \<Rightarrow> usize list \<Rightarrow> bus \<times> 'os world \<Rightarrow> (bus \<times> 'os world) option" where
  "watch_scan pl X [] s = Some s"
| "watch_scan pl X (i # is) s = do { s \<leftarrow> watch_slot pl X i s; watch_scan pl X is s }"

definition watch_turn ::
  "platform \<Rightarrow> 'os externals \<Rightarrow> 'os event_os \<Rightarrow> bus \<times> 'os world \<Rightarrow> (bus \<times> 'os world) option" where
  "watch_turn pl X E s =
     (case s of (bus, w) \<Rightarrow> do {
        (woken, w) \<leftarrow> event_wait_timeout pl E (bus_rsp_event bus) (cfg_wait_timeout_ms (bus_config bus)) w;
        watch_scan pl X (slot_indices (bus_region bus)) (bus, w) })"

text \<open>
  The watcher's loop. \<open>others k\<close> is what the rest of the world (\<open>stop\<close> included) does before turn \<open>k\<close>;
  a loop that never ends is \<open>None\<close>.
\<close>

partial_function (option) watch_loop ::
  "(nat \<Rightarrow> bus \<times> 'os world \<Rightarrow> bus \<times> 'os world) \<Rightarrow> nat \<Rightarrow> platform \<Rightarrow> 'os externals \<Rightarrow> 'os event_os \<Rightarrow>
   bus \<times> 'os world \<Rightarrow> (bus \<times> 'os world) option" where
  "watch_loop others k pl X E s =
     (let s = others k s in
      if \<not> bus_running (fst s) then Some s
      else do { s \<leftarrow> watch_turn pl X E s; watch_loop others (Suc k) pl X E s })"

fun diagnose :: "shm_region \<Rightarrow> usize list \<Rightarrow> 'os world \<Rightarrow> (usize \<times> u32) list option" where
  "diagnose r [] w = Some []"
| "diagnose r (i # is) w =
     do { st \<leftarrow> slot_status r i w; rest \<leftarrow> diagnose r is w; Some ((i, st) # rest) }"

definition slot_diagnostics :: "bus \<Rightarrow> 'os world \<Rightarrow> (usize \<times> u32) list option" where
  "slot_diagnostics bus w = diagnose (bus_region bus) (slot_indices (bus_region bus)) w"

definition bus_stop :: "'os event_os \<Rightarrow> bus \<times> 'os world \<Rightarrow> bus \<times> 'os world" where
  "bus_stop E s = (case s of (bus, w) \<Rightarrow> (bus\<lparr>bus_running := False\<rparr>, event_signal E (bus_rsp_event bus) w))"

text \<open>\<^verbatim>\<open>impl Drop for SlotBus\<close>; the fields it shares with the watcher outlive it there.\<close>

definition bus_drop :: "'os event_os \<Rightarrow> bus \<times> 'os world \<Rightarrow> bus \<times> 'os world" where
  "bus_drop E s = (case s of (bus, w) \<Rightarrow> (bus\<lparr>bus_running := False\<rparr>, event_signal E (bus_rsp_event bus) w))"

section \<open>The worker\<close>

record worker =
  wk_config :: config
  wk_region :: shm_region
  wk_req_event :: named_event
  wk_rsp_event :: named_event
  wk_overflow :: "usize \<Rightarrow> shm_region option"
  wk_running :: bool

definition worker_open ::
  "platform \<Rightarrow> 'os externals \<Rightarrow> 'os event_os \<Rightarrow> config \<Rightarrow> 'os world \<Rightarrow> (worker result \<times> 'os world) option" where
  "worker_open pl X E c w = do {
     rname \<leftarrow> region_name pl c;
     case region_open X rname w of
       (Inl e, w) \<Rightarrow> Some (Inl e, w)
     | (Inr region, w) \<Rightarrow> do {
         (res, region) \<leftarrow> validate_control region w;
         case res of
           Inl e \<Rightarrow> Some (Inl e, region_drop X region w)
         | Inr _ \<Rightarrow> do {
             qname \<leftarrow> request_event_name pl c;
             case event_open pl E qname w of
               (Inl e, w) \<Rightarrow> Some (Inl e, region_drop X region w)
             | (Inr req_event, w) \<Rightarrow> do {
                 sname \<leftarrow> response_event_name pl c;
                 case event_open pl E sname w of
                   (Inl e, w) \<Rightarrow> Some (Inl e, region_drop X region (event_drop E req_event w))
                 | (Inr rsp_event, w) \<Rightarrow>
                     Some (Inr \<lparr>wk_config = c, wk_region = region, wk_req_event = req_event,
                                wk_rsp_event = rsp_event, wk_overflow = (\<lambda>_. None),
                                wk_running = True\<rparr>, w) } } } }"

definition worker_forget :: "'os externals \<Rightarrow> usize \<Rightarrow> worker \<times> 'os world \<Rightarrow> worker \<times> 'os world" where
  "worker_forget X i s =
     (case s of (wk, w) \<Rightarrow>
        (wk\<lparr>wk_overflow := (wk_overflow wk)(i := None)\<rparr>, drop_opt X (wk_overflow wk i) w))"

definition worker_keep ::
  "'os externals \<Rightarrow> usize \<Rightarrow> shm_region option \<Rightarrow> worker \<times> 'os world \<Rightarrow> worker \<times> 'os world" where
  "worker_keep X i overflow s =
     (case overflow of
        None \<Rightarrow> s
      | Some ovf \<Rightarrow>
          (case s of (wk, w) \<Rightarrow>
             (wk\<lparr>wk_overflow := (wk_overflow wk)(i \<mapsto> ovf)\<rparr>, drop_opt X (wk_overflow wk i) w)))"

definition send_response ::
  "platform \<Rightarrow> 'os externals \<Rightarrow> 'os event_os \<Rightarrow> usize \<Rightarrow> u16 \<Rightarrow> bytes \<Rightarrow> string \<Rightarrow> (string \<times> string) list \<Rightarrow>
   worker \<times> 'os world \<Rightarrow> (unit result \<times> worker \<times> 'os world) option" where
  "send_response pl X E slot_index status body ctype headers s =
     and_then (Some (lift_postcard (response_to_vec X \<lparr>content_type = ctype, resp_headers = headers\<rparr>), s))
       (\<lambda>meta_bytes s. case worker_forget X slot_index s of (wk, w) \<Rightarrow> do {
          (res, w) \<leftarrow> write_response pl X (wk_region wk) slot_index status meta_bytes body (wk_config wk) w;
          case res of
            Inr overflow \<Rightarrow>
              (case worker_keep X slot_index overflow (wk, w) of (wk, w) \<Rightarrow>
                 Some (Inr (), wk, event_signal E (wk_rsp_event wk) w))
          | Inl e \<Rightarrow> do { w \<leftarrow> store_status (wk_region wk) slot_index SLOT_FREE w; Some (Inl e, wk, w) } })"

section \<open>The receive loop\<close>

text \<open>What a handler is given, and what it does: it is called with the worker, the slot and the request.\<close>

type_synonym 'os handler = "usize \<Rightarrow> request \<Rightarrow> worker \<times> 'os world \<Rightarrow> (worker \<times> 'os world) option"

definition decode_request :: "string \<Rightarrow> u8 \<Rightarrow> request_meta \<Rightarrow> bytes \<Rightarrow> request" where
  "decode_request req_id method meta body =
     \<lparr>rq_id = req_id, rq_method = u8_to_method method, rq_path = path meta,
      rq_route_pattern = route_pattern meta, rq_path_params = collect_map (path_params meta),
      rq_query = query meta, rq_body = body, rq_headers = collect_map (req_headers meta)\<rparr>"

definition receive_slot ::
  "platform \<Rightarrow> 'os externals \<Rightarrow> 'os handler \<Rightarrow> usize \<Rightarrow> worker \<times> 'os world \<Rightarrow> (worker \<times> 'os world) option" where
  "receive_slot pl X handler i s =
     (case s of (wk, w) \<Rightarrow> let r = wk_region wk in do {
        (cas, w) \<leftarrow> cas_status r i SLOT_READY SLOT_CLAIMED w;
        case cas of
          Inl _ \<Rightarrow> Some (wk, w)
        | Inr _ \<Rightarrow> do {
            (res, w) \<leftarrow> read_request pl X r i (wk_config wk) w;
            case res of
              Inr (req_id, method, meta, body) \<Rightarrow> handler i (decode_request req_id method meta body) (wk, w)
            | Inl e \<Rightarrow> do { w \<leftarrow> store_status r i SLOT_FREE w; Some (wk, w) } } })"

fun receive_scan ::
  "platform \<Rightarrow> 'os externals \<Rightarrow> 'os handler \<Rightarrow> usize list \<Rightarrow> worker \<times> 'os world \<Rightarrow> (worker \<times> 'os world) option" where
  "receive_scan pl X handler [] s = Some s"
| "receive_scan pl X handler (i # is) s =
     do { s \<leftarrow> receive_slot pl X handler i s; receive_scan pl X handler is s }"

definition receive_turn ::
  "platform \<Rightarrow> 'os externals \<Rightarrow> 'os event_os \<Rightarrow> 'os handler \<Rightarrow> worker \<times> 'os world \<Rightarrow> (worker \<times> 'os world) option" where
  "receive_turn pl X E handler s =
     (case s of (wk, w) \<Rightarrow> do {
        (woken, w) \<leftarrow> event_wait_timeout pl E (wk_req_event wk) (cfg_wait_timeout_ms (wk_config wk)) w;
        receive_scan pl X handler (slot_indices (wk_region wk)) (wk, w) })"

partial_function (option) receive_loop ::
  "(nat \<Rightarrow> worker \<times> 'os world \<Rightarrow> worker \<times> 'os world) \<Rightarrow> nat \<Rightarrow> platform \<Rightarrow> 'os externals \<Rightarrow> 'os event_os \<Rightarrow>
   'os handler \<Rightarrow> worker \<times> 'os world \<Rightarrow> (worker \<times> 'os world) option" where
  "receive_loop others k pl X E handler s =
     (let s = others k s in
      if \<not> wk_running (fst s) then Some s
      else do { s \<leftarrow> receive_turn pl X E handler s; receive_loop others (Suc k) pl X E handler s })"

definition worker_stop :: "'os event_os \<Rightarrow> worker \<times> 'os world \<Rightarrow> worker \<times> 'os world" where
  "worker_stop E s = (case s of (wk, w) \<Rightarrow> (wk\<lparr>wk_running := False\<rparr>, event_signal E (wk_req_event wk) w))"

definition worker_drop :: "'os event_os \<Rightarrow> worker \<times> 'os world \<Rightarrow> worker \<times> 'os world" where
  "worker_drop E s = (case s of (wk, w) \<Rightarrow> (wk\<lparr>wk_running := False\<rparr>, event_signal E (wk_req_event wk) w))"

end
