(* ===== verification/Protocol.thy ===== *)
theory Protocol
  imports Transport
begin

text \<open>
  Hub and worker together. The system is the hub's and the worker's state, the world they share and,
  for every thread, where it is inside \<open>dispatch\<close>, \<open>send_response\<close>, the receive loop or the watcher; a step is what
  one thread does between two points at which others can act: one compare-exchange, one access to a map
  under its lock, or work on a slot the thread owns. \<open>spec_step\<close> is the protocol an application relies on: per
  slot a phase with the message in it. \<open>simulates\<close> relates the two; every step of the system is a step of the
  protocol.
\<close>

section \<open>The protocol\<close>

record call =
  cl_id :: string
  cl_method :: string
  cl_meta :: request_meta
  cl_body :: bytes

record reply =
  rp_status :: u16
  rp_meta :: response_meta
  rp_body :: bytes

datatype phase = Free | Writing | Ready call | Claimed call | Done call reply

definition request_of :: "call \<Rightarrow> request" where
  "request_of c = decode_request (cl_id c) (method_to_u8 (cl_method c)) (cl_meta c) (cl_body c)"

definition response_of :: "reply \<Rightarrow> response" where
  "response_of p = \<lparr>rs_status = rp_status p, rs_body = rp_body p, rs_content_type = content_type (rp_meta p),
     rs_headers = resp_headers (rp_meta p)\<rparr>"

text \<open>
  \<open>Release\<close> and \<open>Resolve\<close> are the watcher's: it takes a reply from its slot, then resolves the caller. \<open>Drop s i\<close> is
  the removal of the overflow region kept for slot \<open>i\<close> on side \<open>s\<close>, \<open>Unread i\<close> a request the worker cannot read.
\<close>

datatype event =
    Claim usize | Publish usize call | Abort usize | Stuck usize | Register string nat
  | Take usize | Deliver usize request | Unread usize | Reply usize reply | Refuse usize
  | Release usize | Resolve "channel_call list" | Drop side usize | Idle

text \<open>
  \<open>sp_lost i\<close>: the message in slot \<open>i\<close> has lost the overflow region that may hold its body. \<open>sp_taken\<close>: the id and the
  reply the watcher has read from a slot it released (no reply when it could not be read).
\<close>

record spec =
  sp_phase :: "usize \<Rightarrow> phase"
  sp_pending :: "string \<Rightarrow> nat option"
  sp_lost :: "usize \<Rightarrow> bool"
  sp_taken :: "(string \<times> reply option) option"

definition set_phase :: "usize \<Rightarrow> phase \<Rightarrow> spec \<Rightarrow> spec" where
  "set_phase i p S = S\<lparr>sp_phase := (sp_phase S)(i := p)\<rparr>"

text \<open>A message just written is complete.\<close>

definition put_message :: "usize \<Rightarrow> phase \<Rightarrow> spec \<Rightarrow> spec" where
  "put_message i p S = (set_phase i p S)\<lparr>sp_lost := (sp_lost S)(i := False)\<rparr>"

text \<open>The regions that matter in a phase: the request's until the reply is there, then the response's.\<close>

fun carries :: "side \<Rightarrow> phase \<Rightarrow> bool" where
  "carries Req (Ready c) = True"
| "carries Req (Claimed c) = True"
| "carries Resp (Done c p) = True"
| "carries s ph = False"

definition lose :: "side \<Rightarrow> usize \<Rightarrow> spec \<Rightarrow> spec" where
  "lose s i S = (if carries s (sp_phase S i) then S\<lparr>sp_lost := (sp_lost S)(i := True)\<rparr> else S)"

text \<open>What may be read of a message: all of it, or with its region lost any body or an error.\<close>

definition reads_request :: "bool \<Rightarrow> call \<Rightarrow> request \<Rightarrow> bool" where
  "reads_request lost c rq \<longleftrightarrow> (if lost then \<exists>body. rq = (request_of c)\<lparr>rq_body := body\<rparr> else rq = request_of c)"

definition reads_reply :: "bool \<Rightarrow> reply \<Rightarrow> reply option \<Rightarrow> bool" where
  "reads_reply lost p q \<longleftrightarrow>
     (if lost then q = None \<or> (\<exists>body. q = Some (p\<lparr>rp_body := body\<rparr>)) else q = Some p)"

text \<open>The answers of the hub to a collected reply: at most one channel is resolved, with that reply.\<close>

definition resolution :: "nat option \<Rightarrow> reply \<Rightarrow> channel_call list" where
  "resolution ch p = (case ch of None \<Rightarrow> [] | Some tx \<Rightarrow> [SendResponse tx (response_of p)])"

fun resolved :: "(string \<Rightarrow> nat option) \<Rightarrow> string \<times> reply option \<Rightarrow> channel_call list \<times> (string \<Rightarrow> nat option)" where
  "resolved pending (req_id, None) = ([], pending)"
| "resolved pending (req_id, Some p) = (resolution (pending req_id) p, pending(req_id := None))"

inductive spec_step :: "spec \<Rightarrow> event \<Rightarrow> spec \<Rightarrow> bool" where
  sp_claim: "sp_phase S i = Free \<Longrightarrow> spec_step S (Claim i) (set_phase i Writing S)"
| sp_publish: "sp_phase S i = Writing \<Longrightarrow> spec_step S (Publish i c) (put_message i (Ready c) S)"
| sp_abort: "sp_phase S i = Writing \<Longrightarrow> spec_step S (Abort i) (set_phase i Free S)"
| sp_stuck: "sp_phase S i = Writing \<or> sp_phase S i = Claimed c \<Longrightarrow> spec_step S (Stuck i) S"
| sp_register: "spec_step S (Register req_id ch) (S\<lparr>sp_pending := (sp_pending S)(req_id \<mapsto> ch)\<rparr>)"
| sp_take: "sp_phase S i = Ready c \<Longrightarrow> spec_step S (Take i) (set_phase i (Claimed c) S)"
| sp_deliver: "sp_phase S i = Claimed c \<Longrightarrow> reads_request (sp_lost S i) c rq \<Longrightarrow> spec_step S (Deliver i rq) S"
| sp_unread: "sp_phase S i = Claimed c \<Longrightarrow> sp_lost S i \<Longrightarrow> spec_step S (Unread i) (set_phase i Free S)"
| sp_reply: "sp_phase S i = Claimed c \<Longrightarrow> spec_step S (Reply i p) (put_message i (Done c p) S)"
| sp_refuse: "sp_phase S i = Claimed c \<Longrightarrow> spec_step S (Refuse i) (set_phase i Free S)"
| sp_release: "sp_phase S i = Done c p \<Longrightarrow> sp_taken S = None \<Longrightarrow> reads_reply (sp_lost S i) p q \<Longrightarrow>
    spec_step S (Release i) ((set_phase i Free S)\<lparr>sp_taken := Some (cl_id c, q)\<rparr>)"
| sp_resolve: "sp_taken S = Some tk \<Longrightarrow> resolved (sp_pending S) tk = (calls, pending) \<Longrightarrow>
    spec_step S (Resolve calls) (S\<lparr>sp_taken := None, sp_pending := pending\<rparr>)"
| sp_drop: "spec_step S (Drop s i) (lose s i S)"
| sp_idle: "spec_step S Idle S"

inductive_cases spec_deliverE: "spec_step S (Deliver i rq) S'"
inductive_cases spec_releaseE: "spec_step S (Release i) S'"
inductive_cases spec_resolveE: "spec_step S (Resolve calls) S'"
inductive_cases spec_claimE: "spec_step S (Claim i) S'"
inductive_cases spec_dropE: "spec_step S (Drop s i) S'"

section \<open>The system\<close>

text \<open>
  Where a thread is. In \<open>dispatch\<close>: after \<open>claim_free_slot\<close> (\<open>Filling\<close>), after the stale overflow region is removed
  (\<open>Cleared\<close>), after the request is published and before its overflow region is in the map (\<open>Keeping\<close>), before
  the registration (\<open>Registering\<close>). In the receive loop: after the compare-exchange (\<open>Reading\<close>), inside the handler
  (\<open>Handling\<close>). In \<open>send_response\<close>: after the stale region is removed (\<open>Answering\<close>), after the response is published
  and before its region is in the map (\<open>Replying\<close>).
\<close>

datatype activity =
    Filling usize call | Cleared usize call | Keeping usize call "shm_region option" | Registering call
  | Reading usize | Handling usize request | Answering usize reply | Replying usize "shm_region option"

fun slot_of :: "activity \<Rightarrow> usize option" where
  "slot_of (Filling i c) = Some i"
| "slot_of (Cleared i c) = Some i"
| "slot_of (Keeping i c ovf) = None"
| "slot_of (Registering c) = None"
| "slot_of (Reading i) = Some i"
| "slot_of (Handling i rq) = Some i"
| "slot_of (Answering i p) = Some i"
| "slot_of (Replying i ovf) = None"

text \<open>Where the watcher is: between slots, after a release, after the removal of the slot's overflow region.\<close>

datatype watching =
    Scanning | Released usize string "(u16 \<times> response_meta \<times> bytes) result"
  | Resolving string "(u16 \<times> response_meta \<times> bytes) result"

record 'os system =
  sy_bus :: bus
  sy_worker :: worker
  sy_world :: "'os world"
  sy_threads :: "nat \<Rightarrow> activity option"
  sy_watcher :: watching

text \<open>
  The calls and replies the protocol's guarantees cover: a request id of at most 36 bytes without NUL,
  bodies below 4 GiB, serialised metadata below 64 KiB. (The theory \<open>Hazards\<close> shows what happens
  outside.)
\<close>

definition call_ok :: "'os externals \<Rightarrow> call \<Rightarrow> bool" where
  "call_ok X c \<longleftrightarrow>
     req_id_ok (cl_id c) \<and> length (cl_body c) < 2 ^ 32
     \<and> (\<forall>mb. request_to_vec X (cl_meta c) = Inr mb \<longrightarrow> length mb < 2 ^ 16)"

definition reply_ok :: "'os externals \<Rightarrow> reply \<Rightarrow> bool" where
  "reply_ok X p \<longleftrightarrow>
     length (rp_body p) < 2 ^ 32 \<and> (\<forall>mb. response_to_vec X (rp_meta p) = Inr mb \<longrightarrow> length mb < 2 ^ 16)"

definition slots_of :: "'os system \<Rightarrow> nat" where
  "slots_of \<sigma> = unat (r_num_slots (bus_region (sy_bus \<sigma>)))"

text \<open>The event of a removal from a map of overflow regions: nothing happens when there is no entry.\<close>

definition dropped :: "side \<Rightarrow> usize \<Rightarrow> shm_region option \<Rightarrow> event" where
  "dropped s i ovf = (if ovf = None then Idle else Drop s i)"

text \<open>An insertion replaces the entry that is there; without a region it is skipped.\<close>

definition replaced :: "shm_region option \<Rightarrow> side \<Rightarrow> usize \<Rightarrow> shm_region option \<Rightarrow> event" where
  "replaced new s i ovf = (if new = None then Idle else dropped s i ovf)"

inductive sys_step ::
  "platform \<Rightarrow> 'os externals \<Rightarrow> 'os event_os \<Rightarrow> 'os system \<Rightarrow> event \<Rightarrow> 'os system \<Rightarrow> bool"
  for pl :: platform and X :: "'os externals" and E :: "'os event_os" where
  claim: "sy_threads \<sigma> t = None \<Longrightarrow> unat i < slots_of \<sigma> \<Longrightarrow> call_ok X c \<Longrightarrow>
    cas_status (bus_region (sy_bus \<sigma>)) i SLOT_FREE SLOT_WRITING (sy_world \<sigma>) = Some (Inr old, w) \<Longrightarrow>
    sys_step pl X E \<sigma> (Claim i) (\<sigma>\<lparr>sy_world := w, sy_threads := (sy_threads \<sigma>)(t \<mapsto> Filling i c)\<rparr>)"
| unserialisable: "sy_threads \<sigma> t = Some (Filling i c) \<Longrightarrow> request_to_vec X (cl_meta c) = Inl pe \<Longrightarrow>
    sys_step pl X E \<sigma> (Stuck i) (\<sigma>\<lparr>sy_threads := (sy_threads \<sigma>)(t := None)\<rparr>)"
| clear: "sy_threads \<sigma> t = Some (Filling i c) \<Longrightarrow> request_to_vec X (cl_meta c) = Inr mb \<Longrightarrow>
    bus_forget X i (sy_bus \<sigma>, sy_world \<sigma>) = (bus, w) \<Longrightarrow>
    sys_step pl X E \<sigma> (dropped Req i (bus_overflow (sy_bus \<sigma>) i))
      (\<sigma>\<lparr>sy_bus := bus, sy_world := w, sy_threads := (sy_threads \<sigma>)(t \<mapsto> Cleared i c)\<rparr>)"
| publish: "sy_threads \<sigma> t = Some (Cleared i c) \<Longrightarrow> request_to_vec X (cl_meta c) = Inr mb \<Longrightarrow>
    write_request pl X (bus_region (sy_bus \<sigma>)) i (cl_id c) (method_to_u8 (cl_method c)) mb (cl_body c)
      (bus_config (sy_bus \<sigma>)) (sy_world \<sigma>) = Some (Inr ovf, w) \<Longrightarrow>
    sys_step pl X E \<sigma> (Publish i c) (\<sigma>\<lparr>sy_world := w, sy_threads := (sy_threads \<sigma>)(t \<mapsto> Keeping i c ovf)\<rparr>)"
| abort: "sy_threads \<sigma> t = Some (Cleared i c) \<Longrightarrow> request_to_vec X (cl_meta c) = Inr mb \<Longrightarrow>
    write_request pl X (bus_region (sy_bus \<sigma>)) i (cl_id c) (method_to_u8 (cl_method c)) mb (cl_body c)
      (bus_config (sy_bus \<sigma>)) (sy_world \<sigma>) = Some (Inl e, w) \<Longrightarrow>
    sys_step pl X E \<sigma> (Abort i) (\<sigma>\<lparr>sy_world := w, sy_threads := (sy_threads \<sigma>)(t := None)\<rparr>)"
| keep: "sy_threads \<sigma> t = Some (Keeping i c ovf) \<Longrightarrow> bus_keep X i ovf (sy_bus \<sigma>, sy_world \<sigma>) = (bus, w) \<Longrightarrow>
    sys_step pl X E \<sigma> (replaced ovf Req i (bus_overflow (sy_bus \<sigma>) i))
      (\<sigma>\<lparr>sy_bus := bus, sy_world := w, sy_threads := (sy_threads \<sigma>)(t \<mapsto> Registering c)\<rparr>)"
| register: "sy_threads \<sigma> t = Some (Registering c) \<Longrightarrow>
    dispatch_register E (cl_id c) (cl_method c) (cl_meta c) (sy_bus \<sigma>, sy_world \<sigma>) = (Inr ch, bus, w) \<Longrightarrow>
    sys_step pl X E \<sigma> (Register (cl_id c) ch)
      (\<sigma>\<lparr>sy_bus := bus, sy_world := w, sy_threads := (sy_threads \<sigma>)(t := None)\<rparr>)"
| take: "sy_threads \<sigma> t = None \<Longrightarrow> unat i < slots_of \<sigma> \<Longrightarrow>
    cas_status (wk_region (sy_worker \<sigma>)) i SLOT_READY SLOT_CLAIMED (sy_world \<sigma>) = Some (Inr old, w) \<Longrightarrow>
    sys_step pl X E \<sigma> (Take i) (\<sigma>\<lparr>sy_world := w, sy_threads := (sy_threads \<sigma>)(t \<mapsto> Reading i)\<rparr>)"
| deliver: "sy_threads \<sigma> t = Some (Reading i) \<Longrightarrow>
    read_request pl X (wk_region (sy_worker \<sigma>)) i (wk_config (sy_worker \<sigma>)) (sy_world \<sigma>)
      = Some (Inr (req_id, m, meta, body), w) \<Longrightarrow>
    sys_step pl X E \<sigma> (Deliver i (decode_request req_id m meta body))
      (\<sigma>\<lparr>sy_world := w, sy_threads := (sy_threads \<sigma>)(t \<mapsto> Handling i (decode_request req_id m meta body))\<rparr>)"
| unreadable: "sy_threads \<sigma> t = Some (Reading i) \<Longrightarrow>
    read_request pl X (wk_region (sy_worker \<sigma>)) i (wk_config (sy_worker \<sigma>)) (sy_world \<sigma>) = Some (Inl e, w1) \<Longrightarrow>
    store_status (wk_region (sy_worker \<sigma>)) i SLOT_FREE w1 = Some w \<Longrightarrow>
    sys_step pl X E \<sigma> (Unread i) (\<sigma>\<lparr>sy_world := w, sy_threads := (sy_threads \<sigma>)(t := None)\<rparr>)"
| unanswerable: "sy_threads \<sigma> t = Some (Handling i rq) \<Longrightarrow> response_to_vec X (rp_meta (p :: reply)) = Inl pe \<Longrightarrow>
    sys_step pl X E \<sigma> (Stuck i) (\<sigma>\<lparr>sy_threads := (sy_threads \<sigma>)(t := None)\<rparr>)"
| empty: "sy_threads \<sigma> t = Some (Handling i rq) \<Longrightarrow> reply_ok X p \<Longrightarrow> response_to_vec X (rp_meta p) = Inr mb \<Longrightarrow>
    worker_forget X i (sy_worker \<sigma>, sy_world \<sigma>) = (wk, w) \<Longrightarrow>
    sys_step pl X E \<sigma> (dropped Resp i (wk_overflow (sy_worker \<sigma>) i))
      (\<sigma>\<lparr>sy_worker := wk, sy_world := w, sy_threads := (sy_threads \<sigma>)(t \<mapsto> Answering i p)\<rparr>)"
| reply: "sy_threads \<sigma> t = Some (Answering i p) \<Longrightarrow> response_to_vec X (rp_meta p) = Inr mb \<Longrightarrow>
    write_response pl X (wk_region (sy_worker \<sigma>)) i (rp_status p) mb (rp_body p) (wk_config (sy_worker \<sigma>))
      (sy_world \<sigma>) = Some (Inr ovf, w) \<Longrightarrow>
    sys_step pl X E \<sigma> (Reply i p) (\<sigma>\<lparr>sy_world := w, sy_threads := (sy_threads \<sigma>)(t \<mapsto> Replying i ovf)\<rparr>)"
| refuse: "sy_threads \<sigma> t = Some (Answering i p) \<Longrightarrow> response_to_vec X (rp_meta p) = Inr mb \<Longrightarrow>
    write_response pl X (wk_region (sy_worker \<sigma>)) i (rp_status p) mb (rp_body p) (wk_config (sy_worker \<sigma>))
      (sy_world \<sigma>) = Some (Inl e, w1) \<Longrightarrow>
    store_status (wk_region (sy_worker \<sigma>)) i SLOT_FREE w1 = Some w \<Longrightarrow>
    sys_step pl X E \<sigma> (Refuse i) (\<sigma>\<lparr>sy_world := w, sy_threads := (sy_threads \<sigma>)(t := None)\<rparr>)"
| store: "sy_threads \<sigma> t = Some (Replying i ovf) \<Longrightarrow> worker_keep X i ovf (sy_worker \<sigma>, sy_world \<sigma>) = (wk, w) \<Longrightarrow>
    sys_step pl X E \<sigma> (replaced ovf Resp i (wk_overflow (sy_worker \<sigma>) i))
      (\<sigma>\<lparr>sy_worker := wk, sy_world := event_signal E (wk_rsp_event wk) w, sy_threads := (sy_threads \<sigma>)(t := None)\<rparr>)"
| release: "sy_watcher \<sigma> = Scanning \<Longrightarrow> unat i < slots_of \<sigma> \<Longrightarrow>
    watch_release pl X i (sy_bus \<sigma>) (sy_world \<sigma>) = Some (Some (req_id, res), w) \<Longrightarrow>
    sys_step pl X E \<sigma> (Release i) (\<sigma>\<lparr>sy_world := w, sy_watcher := Released i req_id res\<rparr>)"
| skip: "sy_watcher \<sigma> = Scanning \<Longrightarrow> unat i < slots_of \<sigma> \<Longrightarrow>
    watch_release pl X i (sy_bus \<sigma>) (sy_world \<sigma>) = Some (None, w) \<Longrightarrow>
    sys_step pl X E \<sigma> Idle (\<sigma>\<lparr>sy_world := w\<rparr>)"
| forget: "sy_watcher \<sigma> = Released i req_id res \<Longrightarrow> bus_forget X i (sy_bus \<sigma>, sy_world \<sigma>) = (bus, w) \<Longrightarrow>
    sys_step pl X E \<sigma> (dropped Req i (bus_overflow (sy_bus \<sigma>) i))
      (\<sigma>\<lparr>sy_bus := bus, sy_world := w, sy_watcher := Resolving req_id res\<rparr>)"
| resolve: "sy_watcher \<sigma> = Resolving req_id res \<Longrightarrow>
    bus_calls (watch_send req_id res (sy_bus \<sigma>)) = bus_calls (sy_bus \<sigma>) @ calls \<Longrightarrow>
    sys_step pl X E \<sigma> (Resolve calls) (\<sigma>\<lparr>sy_bus := watch_send req_id res (sy_bus \<sigma>), sy_watcher := Scanning\<rparr>)"
| wait: "event_wait_timeout pl E ev ms (sy_world \<sigma>) = Some (woken, w) \<Longrightarrow>
    sys_step pl X E \<sigma> Idle (\<sigma>\<lparr>sy_world := w\<rparr>)"

text \<open>The operations that run these stages in one go, for a thread that nobody interrupts.\<close>

definition fill :: "platform \<Rightarrow> 'os externals \<Rightarrow> usize \<Rightarrow> call \<Rightarrow> 'os system \<Rightarrow> (unit result \<times> bus \<times> 'os world) option" where
  "fill pl X i c \<sigma> = dispatch_fill pl X i (cl_id c) (cl_method c) (cl_meta c) (cl_body c) (sy_bus \<sigma>, sy_world \<sigma>)"

definition respond ::
  "platform \<Rightarrow> 'os externals \<Rightarrow> 'os event_os \<Rightarrow> usize \<Rightarrow> reply \<Rightarrow> 'os system \<Rightarrow> (unit result \<times> worker \<times> 'os world) option" where
  "respond pl X E i p \<sigma> = send_response pl X E i (rp_status p) (rp_body p) (content_type (rp_meta p))
     (resp_headers (rp_meta p)) (sy_worker \<sigma>, sy_world \<sigma>)"

end
