(* ===== verification/Simulation.thy ===== *)
theory Simulation
  imports Protocol
begin

text \<open>
  The system simulates the protocol. \<open>slot_matches\<close> says what the shared memory holds for a slot in each
  phase, \<open>regions_apart\<close> that every overflow region has one owner (a map entry, or a thread that has published
  a message and not yet entered its region into the map), \<open>threads_match\<close> that a thread inside an operation owns
  its slot, \<open>watcher_matches\<close> what the watcher has taken; \<open>simulates\<close> is their conjunction. Each step keeps it
  and is the protocol step of the same name.
\<close>

section \<open>Effects that may release a region\<close>

text \<open>\<open>affects V seg A D\<close>: like \<open>touches\<close>, but the segments in \<open>D\<close> may have been released.\<close>

definition affects :: "'os shm_view \<Rightarrow> nat \<Rightarrow> nat set \<Rightarrow> nat set \<Rightarrow> 'os world \<Rightarrow> 'os world \<Rightarrow> bool" where
  "affects V seg A D w w' \<longleftrightarrow>
     unchanged_except A (mem w seg) (mem w' seg) \<and> kept V (- insert seg D) w w' \<and> 0 < handles V w' seg"

lemma affects_refl [simp]: "0 < handles V w seg \<Longrightarrow> affects V seg A D w w"
  by (simp add: affects_def)

lemma affects_trans: "affects V seg A D w1 w2 \<Longrightarrow> affects V seg A D w2 w3 \<Longrightarrow> affects V seg A D w1 w3"
  by (auto simp: affects_def intro: unchanged_trans kept_trans)

lemma affects_mono: "affects V seg A D w w' \<Longrightarrow> A \<subseteq> B \<Longrightarrow> D \<subseteq> F \<Longrightarrow> affects V seg B F w w'"
  by (auto simp: affects_def intro: unchanged_mono elim!: kept_mono)

lemma touches_affects: "touches V seg A w w' \<Longrightarrow> affects V seg A D w w'"
  by (auto simp: touches_def affects_def elim!: kept_mono)

lemma affects_live:
  "live V r w \<Longrightarrow> affects V (r_ptr r) A D w w' \<Longrightarrow> live V r w'"
  by (auto simp: live_def affects_def dest: unchanged_length intro: control_region_bytes)

lemma affects_same:
  assumes "mem w' = mem w" and "bound V w' = bound V w" and "handles V w' = handles V w"
    and "0 < handles V w seg"
  shows "affects V seg A D w w'"
  using assms by (simp add: affects_def kept_def)

definition seg_of :: "shm_region option \<Rightarrow> nat set" where
  "seg_of ovf = (case ovf of None \<Rightarrow> {} | Some r \<Rightarrow> {r_ptr r})"

lemma seg_of_simps [simp]: "seg_of None = {}" "seg_of (Some r) = {r_ptr r}"
  by (simp_all add: seg_of_def)

lemma drop_affects:
  assumes doc: "shmem_documented X V" and held: "0 < handles V w seg"
    and own: "\<And>r. ovf = Some r \<Longrightarrow> r_ptr r \<noteq> seg \<and> shm_seg (r_shmem r) = r_ptr r"
  shows "affects V seg A (seg_of ovf) w (drop_opt X ovf w)"
proof (cases ovf)
  case None
  then show ?thesis using held by (simp add: drop_opt_def)
next
  case (Some r)
  have k: "kept V (- {r_ptr r}) w (region_drop X r w)"
    using kept_drop [OF doc, of "r_shmem r" w] own Some by (simp add: region_drop_def)
  have "seg \<in> - {r_ptr r}" using own Some by auto
  from keptD [OF k this held] have "mem (region_drop X r w) seg = mem w seg" "0 < handles V (region_drop X r w) seg"
    by simp_all
  moreover have "kept V (- insert seg {r_ptr r}) w (region_drop X r w)" using k by (rule kept_mono) blast
  ultimately show ?thesis using Some by (simp add: affects_def drop_opt_def)
qed

section \<open>What the memory holds\<close>

definition slot_area :: "shm_region \<Rightarrow> usize \<Rightarrow> nat set" where
  "slot_area r i = status_area i \<union> request_area r i \<union> response_area r i"

lemma slot_areas_disjoint:
  assumes "control_region r w" and "unat i < unat (r_num_slots r)" and "unat j < unat (r_num_slots r)"
    and "i \<noteq> j"
  shows "slot_area r i \<inter> slot_area r j = {}"
proof -
  have "status_area i \<inter> status_area j = {}"
    using slot_starts_apart [OF assms(4)] by (auto simp: status_area_def)
  moreover have "request_area r i \<inter> status_area j = {}" "response_area r i \<inter> status_area j = {}"
    "response_area r i \<inter> request_area r j = {}"
    using areas_disjoint(1,4,5) [OF assms(1,3,2)] by (simp_all only: Int_commute)
  ultimately show ?thesis
    using areas_disjoint [OF assms(1,2,3)] assms(4)
    by (simp add: slot_area_def Int_Un_distrib Int_Un_distrib2)
qed

lemma same_layout_areas:
  assumes "same_layout q r"
  shows "request_area q i = request_area r i" and "response_area q i = response_area r i"
    and "slot_area q i = slot_area r i"
proof -
  show rq: "request_area q i = request_area r i" and rs: "response_area q i = response_area r i"
    using same_layout_arena [OF assms] by (simp_all add: request_area_def response_area_def payload_area_def)
  show "slot_area q i = slot_area r i" by (simp add: slot_area_def rq rs)
qed

definition id_stored :: "shm_region \<Rightarrow> usize \<Rightarrow> string \<Rightarrow> 'os world \<Rightarrow> bool" where
  "id_stored r i req_id w \<longleftrightarrow> slice (slot_start i + 4) 36 (mem w (r_ptr r)) = req_id_field req_id"

text \<open>A message without its body, which stays in the slot whatever happens to the overflow region.\<close>

definition request_head :: "shm_region \<Rightarrow> usize \<Rightarrow> call \<Rightarrow> bytes \<Rightarrow> 'os world \<Rightarrow> bool" where
  "request_head r i c mb w \<longleftrightarrow>
     id_stored r i (cl_id c) w \<and> get_u8 (slot_start i + 40) (mem w (r_ptr r)) = method_to_u8 (cl_method c)
     \<and> meta_stored r Req i mb w \<and> length mb < 2 ^ 16"

definition reply_head :: "shm_region \<Rightarrow> usize \<Rightarrow> reply \<Rightarrow> bytes \<Rightarrow> 'os world \<Rightarrow> bool" where
  "reply_head r i p mb w \<longleftrightarrow>
     get_u16 (slot_start i + 64) (mem w (r_ptr r)) = rp_status p \<and> meta_stored r Resp i mb w \<and> length mb < 2 ^ 16"

text \<open>
  The owners of a slot's overflow regions, per side: \<open>None\<close> is the map of that side, \<open>Some t\<close> the thread \<open>t\<close>. The
  body of a message that has not lost its region is stored, and its region, if any, has an owner.
\<close>

type_synonym owners = "side \<Rightarrow> nat option \<Rightarrow> shm_region option"

definition carried :: "owners \<Rightarrow> side \<Rightarrow> shm_region option \<Rightarrow> bool" where
  "carried G s ovf \<longleftrightarrow> (\<forall>o1. ovf = Some o1 \<longrightarrow> (\<exists>x. G s x = Some o1))"

definition call_stored ::
  "'os shm_view \<Rightarrow> platform \<Rightarrow> 'os externals \<Rightarrow> config \<Rightarrow> shm_region \<Rightarrow> usize \<Rightarrow> call \<Rightarrow> owners \<Rightarrow> bool \<Rightarrow>
   'os world \<Rightarrow> bool" where
  "call_stored V pl X cfg r i c G lost w \<longleftrightarrow> call_ok X c \<and> (\<exists>mb. request_to_vec X (cl_meta c) = Inr mb \<and> request_head r i c mb w
     \<and> (\<not> lost \<longrightarrow> (\<exists>ovf. carried G Req ovf
          \<and> request_stored V pl cfg r i (cl_id c) (method_to_u8 (cl_method c)) mb (cl_body c) ovf w)))"

definition reply_stored ::
  "'os shm_view \<Rightarrow> platform \<Rightarrow> 'os externals \<Rightarrow> config \<Rightarrow> shm_region \<Rightarrow> usize \<Rightarrow> reply \<Rightarrow> owners \<Rightarrow> bool \<Rightarrow>
   'os world \<Rightarrow> bool" where
  "reply_stored V pl X cfg r i p G lost w \<longleftrightarrow> (\<exists>mb. response_to_vec X (rp_meta p) = Inr mb \<and> reply_head r i p mb w
     \<and> (\<not> lost \<longrightarrow> (\<exists>ovf. carried G Resp ovf \<and> response_stored V pl cfg r i (rp_status p) mb (rp_body p) ovf w)))"

definition slot_matches ::
  "'os shm_view \<Rightarrow> platform \<Rightarrow> 'os externals \<Rightarrow> config \<Rightarrow> shm_region \<Rightarrow> owners \<Rightarrow> 'os world \<Rightarrow> usize \<Rightarrow> bool \<Rightarrow>
   phase \<Rightarrow> bool" where
  "slot_matches V pl X cfg r G w i lost ph \<longleftrightarrow>
     (case ph of
        Free \<Rightarrow> status_at r i w = SLOT_FREE
      | Writing \<Rightarrow> status_at r i w = SLOT_WRITING
      | Ready c \<Rightarrow> status_at r i w = SLOT_READY \<and> call_stored V pl X cfg r i c G lost w
      | Claimed c \<Rightarrow> status_at r i w = SLOT_CLAIMED \<and> call_stored V pl X cfg r i c G lost w
      | Done c p \<Rightarrow> status_at r i w = SLOT_DONE \<and> call_ok X c \<and> id_stored r i (cl_id c) w
          \<and> reply_stored V pl X cfg r i p G lost w)"

lemma ovf_kept_affects:
  assumes "stored V nf r s i meta body ovf w" and "affects V (r_ptr r) A D w w'" and "seg_of ovf \<inter> D = {}"
  shows "ovf_kept V ovf w w'"
proof (cases ovf)
  case (Some o1)
  then have "r_ptr o1 \<noteq> r_ptr r" using assms(1) by (simp add: stored_def body_stored_def Let_def)
  then have "{r_ptr o1} \<subseteq> - insert (r_ptr r) D" using assms(3) Some by auto
  with assms(2) show ?thesis using Some by (auto simp: ovf_kept_def affects_def elim: kept_mono)
qed (simp add: ovf_kept_def)

lemma id_stored_frame:
  assumes "id_stored r i req_id w" and "control_region r w" and "unat i < unat (r_num_slots r)"
    and "unchanged_except A (mem w (r_ptr r)) (mem w' (r_ptr r))" and "A \<inter> request_area r i = {}"
  shows "id_stored r i req_id w'"
proof -
  have "{slot_start i + 4 ..< slot_start i + 4 + 36} \<subseteq> request_area r i" by (auto simp: request_area_def)
  then have "{slot_start i + 4 ..< slot_start i + 4 + 36} \<inter> A = {}" using assms(5) by blast
  then show ?thesis
    using unchanged_slice [OF assms(4)] slot_base_eq(3) [OF assms(2,3)] assms(1) by (simp add: id_stored_def)
qed

lemma meta_frame:
  assumes "meta_stored r s i mb w" and "control_region r w" and "unat i < unat (r_num_slots r)"
    and "unchanged_except A (mem w (r_ptr r)) (mem w' (r_ptr r))" and "A \<inter> payload_area r s i = {}"
  shows "meta_stored r s i mb w'"
proof -
  have "{fields_at s i ..< fields_at s i + 6} \<union> {arena_start r s i ..< arena_start r s i + length mb} \<subseteq> payload_area r s i"
    using assms(1) by (auto simp: payload_area_def meta_stored_def Let_def)
  then show ?thesis using assms(5) by (intro meta_stored_frame [OF assms(1-4)]) blast
qed

lemma request_head_frame:
  assumes "request_head r i c mb w" and cr: "control_region r w" and i: "unat i < unat (r_num_slots r)"
    and un: "unchanged_except A (mem w (r_ptr r)) (mem w' (r_ptr r))" and dis: "A \<inter> request_area r i = {}"
  shows "request_head r i c mb w'"
proof -
  have d: "A \<inter> payload_area r Req i = {}" "{slot_start i + 40 ..< slot_start i + 40 + 1} \<inter> A = {}"
    using dis by (auto simp: request_area_def)
  have "get_u8 (slot_start i + 40) (mem w' (r_ptr r)) = get_u8 (slot_start i + 40) (mem w (r_ptr r))"
    using slot_base_eq(3) [OF cr i] d(2) by (intro unchanged_get(1) [OF un]) simp_all
  then show ?thesis
    using assms(1) id_stored_frame [OF _ cr i un dis] meta_frame [OF _ cr i un d(1)] by (auto simp: request_head_def)
qed

lemma reply_head_frame:
  assumes "reply_head r i p mb w" and cr: "control_region r w" and i: "unat i < unat (r_num_slots r)"
    and un: "unchanged_except A (mem w (r_ptr r)) (mem w' (r_ptr r))" and dis: "A \<inter> response_area r i = {}"
  shows "reply_head r i p mb w'"
proof -
  have d: "A \<inter> payload_area r Resp i = {}" "{slot_start i + 64 ..< slot_start i + 64 + 2} \<inter> A = {}"
    using dis by (auto simp: response_area_def)
  have "get_u16 (slot_start i + 64) (mem w' (r_ptr r)) = get_u16 (slot_start i + 64) (mem w (r_ptr r))"
    using slot_base_eq(3) [OF cr i] d(2) by (intro unchanged_get(2) [OF un]) simp_all
  then show ?thesis using assms(1) meta_frame [OF _ cr i un d(1)] by (auto simp: reply_head_def)
qed

text \<open>
  \<open>survives\<close>: the body of a message on side \<open>s\<close> of a slot whose owners change from \<open>G\<close> to \<open>G'\<close> while the segments in
  \<open>D\<close> are released; a message that is not lost afterwards was not lost before, and its region keeps an owner.
\<close>

definition survives :: "owners \<Rightarrow> bool \<Rightarrow> nat set \<Rightarrow> owners \<Rightarrow> bool \<Rightarrow> side \<Rightarrow> bool" where
  "survives G lost D G' lost' s \<longleftrightarrow>
     (\<not> lost' \<longrightarrow> \<not> lost \<and> (\<forall>x o1. G s x = Some o1 \<longrightarrow> r_ptr o1 \<notin> D \<and> (\<exists>y. G' s y = Some o1)))"

lemma survives_same: "(\<And>x o1. G s x = Some o1 \<Longrightarrow> r_ptr o1 \<notin> D) \<Longrightarrow> survives G lost D G lost s"
  by (auto simp: survives_def)

lemma survives_carried:
  assumes "survives G lost D G' lost' s" and "carried G s ovf" and "\<not> lost'"
  shows "carried G' s ovf" and "seg_of ovf \<inter> D = {}" and "\<not> lost"
  using assms by (cases ovf; auto simp: survives_def carried_def)+

lemma call_stored_frame:
  assumes "call_stored V pl X cfg r i c G lost w" and cr: "control_region r w" and i: "unat i < unat (r_num_slots r)"
    and af: "affects V (r_ptr r) A D w w'" and dis: "A \<inter> request_area r i = {}" and sv: "survives G lost D G' lost' Req"
  shows "call_stored V pl X cfg r i c G' lost' w'"
proof -
  obtain mb where m: "call_ok X c" "request_to_vec X (cl_meta c) = Inr mb" "request_head r i c mb w"
    and st: "\<not> lost \<Longrightarrow> \<exists>ovf. carried G Req ovf
      \<and> request_stored V pl cfg r i (cl_id c) (method_to_u8 (cl_method c)) mb (cl_body c) ovf w"
    using assms(1) by (auto simp: call_stored_def)
  have un: "unchanged_except A (mem w (r_ptr r)) (mem w' (r_ptr r))" using af by (simp add: affects_def)
  have "\<exists>ovf. carried G' Req ovf \<and> request_stored V pl cfg r i (cl_id c) (method_to_u8 (cl_method c)) mb (cl_body c) ovf w'"
    if nl: "\<not> lost'"
  proof -
    have "\<not> lost" using sv nl by (simp add: survives_def)
    then obtain ovf where ovf: "carried G Req ovf"
      and rs: "request_stored V pl cfg r i (cl_id c) (method_to_u8 (cl_method c)) mb (cl_body c) ovf w" using st by blast
    note S = survives_carried [OF sv ovf nl]
    have "ovf_kept V ovf w w'" using rs unfolding request_stored_def by (blast intro: ovf_kept_affects [OF _ af S(2)])
    from request_stored_frame [OF rs cr i un dis this] S(1) show ?thesis by blast
  qed
  then show ?thesis using m request_head_frame [OF m(3) cr i un dis] by (auto simp: call_stored_def)
qed

lemma reply_stored_frame:
  assumes "reply_stored V pl X cfg r i p G lost w" and cr: "control_region r w" and i: "unat i < unat (r_num_slots r)"
    and af: "affects V (r_ptr r) A D w w'" and dis: "A \<inter> response_area r i = {}" and sv: "survives G lost D G' lost' Resp"
  shows "reply_stored V pl X cfg r i p G' lost' w'"
proof -
  obtain mb where m: "response_to_vec X (rp_meta p) = Inr mb" "reply_head r i p mb w"
    and st: "\<not> lost \<Longrightarrow> \<exists>ovf. carried G Resp ovf \<and> response_stored V pl cfg r i (rp_status p) mb (rp_body p) ovf w"
    using assms(1) by (auto simp: reply_stored_def)
  have un: "unchanged_except A (mem w (r_ptr r)) (mem w' (r_ptr r))" using af by (simp add: affects_def)
  have "\<exists>ovf. carried G' Resp ovf \<and> response_stored V pl cfg r i (rp_status p) mb (rp_body p) ovf w'"
    if nl: "\<not> lost'"
  proof -
    have "\<not> lost" using sv nl by (simp add: survives_def)
    then obtain ovf where ovf: "carried G Resp ovf"
      and rs: "response_stored V pl cfg r i (rp_status p) mb (rp_body p) ovf w" using st by blast
    note S = survives_carried [OF sv ovf nl]
    have "ovf_kept V ovf w w'" using rs unfolding response_stored_def by (blast intro: ovf_kept_affects [OF _ af S(2)])
    from response_stored_frame [OF rs cr i un dis this] S(1) show ?thesis by blast
  qed
  then show ?thesis using m reply_head_frame [OF m(2) cr i un dis] by (auto simp: reply_stored_def)
qed

lemma status_frame:
  assumes "control_region r w" and "unat i < unat (r_num_slots r)"
    and "unchanged_except A (mem w (r_ptr r)) (mem w' (r_ptr r))" and "A \<inter> status_area i = {}"
  shows "status_at r i w' = status_at r i w"
  using assms(4) slot_base_eq(3) [OF assms(1,2)]
  by (intro unchanged_get(3) [OF assms(3)]) (auto simp: status_area_def)

text \<open>A slot keeps its phase under whatever leaves its area and its regions alone.\<close>

lemma slot_matches_frame:
  assumes st: "slot_matches V pl X cfg r G w i lost ph" and cr: "control_region r w"
    and i: "unat i < unat (r_num_slots r)" and af: "affects V (r_ptr r) A D w w'"
    and dis: "A \<inter> slot_area r i = {}" and own: "\<And>s. carries s ph \<Longrightarrow> survives G lost D G' lost' s"
  shows "slot_matches V pl X cfg r G' w' i lost' ph"
proof -
  have un: "unchanged_except A (mem w (r_ptr r)) (mem w' (r_ptr r))" using af by (simp add: affects_def)
  have d: "A \<inter> status_area i = {}" "A \<inter> request_area r i = {}" "A \<inter> response_area r i = {}"
    using dis by (auto simp: slot_area_def)
  note s = status_frame [OF cr i un d(1)]
  show ?thesis
    using st call_stored_frame [OF _ cr i af d(2)] reply_stored_frame [OF _ cr i af d(3)]
      id_stored_frame [OF _ cr i un d(2)] own
    by (cases ph) (auto simp: slot_matches_def s)
qed

section \<open>Who owns what\<close>

type_synonym regions = "side \<Rightarrow> usize \<Rightarrow> nat option \<Rightarrow> shm_region option"

fun hands :: "activity option \<Rightarrow> side \<Rightarrow> usize \<Rightarrow> shm_region option" where
  "hands (Some (Keeping j c ovf)) s i = (if s = Req \<and> i = j then ovf else None)"
| "hands (Some (Replying j ovf)) s i = (if s = Resp \<and> i = j then ovf else None)"
| "hands a s i = None"

definition owned :: "bus \<Rightarrow> worker \<Rightarrow> (nat \<Rightarrow> activity option) \<Rightarrow> regions" where
  "owned b k th s i x =
     (case x of
        None \<Rightarrow> (case s of Req \<Rightarrow> bus_overflow b i | Resp \<Rightarrow> wk_overflow k i)
      | Some t \<Rightarrow> hands (th t) s i)"

abbreviation regions_of :: "'os system \<Rightarrow> regions" where
  "regions_of \<sigma> \<equiv> owned (sy_bus \<sigma>) (sy_worker \<sigma>) (sy_threads \<sigma>)"

definition regions_apart :: "'os shm_view \<Rightarrow> nat \<Rightarrow> regions \<Rightarrow> 'os world \<Rightarrow> bool" where
  "regions_apart V seg H w \<longleftrightarrow>
     (\<forall>s i x o1. H s i x = Some o1 \<longrightarrow>
        r_ptr o1 \<noteq> seg \<and> 0 < handles V w (r_ptr o1) \<and> shm_seg (r_shmem o1) = r_ptr o1)
   \<and> (\<forall>s i x t j y o1 o2. H s i x = Some o1 \<longrightarrow> H t j y = Some o2 \<longrightarrow> r_ptr o1 = r_ptr o2 \<longrightarrow> s = t \<and> i = j \<and> x = y)"

definition put_region :: "side \<Rightarrow> usize \<Rightarrow> nat option \<Rightarrow> shm_region option \<Rightarrow> regions \<Rightarrow> regions" where
  "put_region s i x v H = (\<lambda>t j y. if t = s \<and> j = i \<and> y = x then v else H t j y)"

lemma owned_simps [simp]:
  "owned (b\<lparr>bus_overflow := (bus_overflow b)(i := v)\<rparr>) k th = put_region Req i None v (owned b k th)"
  "owned b (k\<lparr>wk_overflow := (wk_overflow k)(i := v)\<rparr>) th = put_region Resp i None v (owned b k th)"
  "owned b k th Req i None = bus_overflow b i" "owned b k th Resp i None = wk_overflow k i"
  "owned b k th s i (Some t) = hands (th t) s i"
  by (auto simp: owned_def put_region_def fun_eq_iff split: side.splits option.splits)

lemma put_region_simps [simp]:
  "put_region s i x v (put_region s i x u H) = put_region s i x v H" "put_region s i x (H s i x) H = H"
  "put_region s i x v H s i x = v" "(t, j, y) \<noteq> (s, i, x) \<Longrightarrow> put_region s i x v H t j y = H t j y"
  by (auto simp: put_region_def fun_eq_iff)

lemma put_region_swap: "x \<noteq> y \<Longrightarrow> put_region s i x v (put_region s i y u H) = put_region s i y u (put_region s i x v H)"
  by (auto simp: put_region_def fun_eq_iff)

lemma owned_bookkeeping:
  "bus_overflow b' = bus_overflow b \<Longrightarrow> wk_overflow k' = wk_overflow k \<Longrightarrow> owned b' k' th = owned b k th"
  by (auto simp: owned_def fun_eq_iff split: side.splits option.splits)

text \<open>What a thread's move makes of the owners.\<close>

lemma owned_thread: "(\<And>s i. hands a s i = hands (th t) s i) \<Longrightarrow> owned b k (th(t := a)) = owned b k th"
  by (auto simp: owned_def fun_eq_iff split: side.splits option.splits)

lemma owned_taken:
  assumes "\<And>s i. hands (th t) s i = None"
  shows "owned b k (th(t \<mapsto> Keeping i c ovf)) = put_region Req i (Some t) ovf (owned b k th)"
    and "owned b k (th(t \<mapsto> Replying i ovf)) = put_region Resp i (Some t) ovf (owned b k th)"
  using assms by (auto simp: owned_def put_region_def fun_eq_iff split: side.splits option.splits)

lemma owned_left:
  assumes "\<And>s i. hands a s i = None"
  shows "th t = Some (Keeping i c ovf) \<Longrightarrow> owned b k (th(t := a)) = put_region Req i (Some t) None (owned b k th)"
    and "th t = Some (Replying i ovf) \<Longrightarrow> owned b k (th(t := a)) = put_region Resp i (Some t) None (owned b k th)"
  using assms by (auto simp: owned_def put_region_def fun_eq_iff split: side.splits option.splits)

lemma regions_apartD:
  assumes "regions_apart V seg H w" and "H s i x = Some o1"
  shows "r_ptr o1 \<noteq> seg" and "0 < handles V w (r_ptr o1)" and "shm_seg (r_shmem o1) = r_ptr o1"
    and "H t j y = Some o2 \<Longrightarrow> (s, i, x) \<noteq> (t, j, y) \<Longrightarrow> r_ptr o2 \<noteq> r_ptr o1"
  using assms unfolding regions_apart_def by blast+

lemma affects_held:
  "affects V seg A D w w' \<Longrightarrow> s \<noteq> seg \<Longrightarrow> s \<notin> D \<Longrightarrow> 0 < handles V w s \<Longrightarrow> 0 < handles V w' s"
  by (simp add: affects_def kept_def)

lemma regions_apart_affects:
  assumes "regions_apart V seg H w" and "affects V seg A D w w'"
    and "\<And>s i x o1. H s i x = Some o1 \<Longrightarrow> r_ptr o1 \<notin> D"
  shows "regions_apart V seg H w'"
  using assms affects_held [OF assms(2)] unfolding regions_apart_def by blast

lemma regions_apart_others:
  assumes "regions_apart V seg H w" and "H t j y = Some o1" and "(t, j, y) \<noteq> (s, i, x)"
  shows "r_ptr o1 \<notin> seg_of (H s i x)"
  using regions_apartD(4) [OF assms(1), of s i x _ t j y o1] assms(2,3) by (cases "H s i x") auto

lemma regions_apart_sub:
  assumes "regions_apart V seg H w" and "\<And>t j y o1. H' t j y = Some o1 \<Longrightarrow> H t j y = Some o1"
  shows "regions_apart V seg H' w"
  using assms unfolding regions_apart_def by blast

lemma regions_apart_forget:
  assumes ap: "regions_apart V seg H w" and af: "affects V seg A (seg_of (H s i x)) w w'"
  shows "regions_apart V seg (put_region s i x None H) w'"
proof -
  have sub: "put_region s i x None H t j y = Some o1 \<Longrightarrow> H t j y = Some o1 \<and> (t, j, y) \<noteq> (s, i, x)" for t j y o1
    by (auto simp: put_region_def split: if_splits)
  have "regions_apart V seg (put_region s i x None H) w" using sub by (blast intro: regions_apart_sub [OF ap])
  then show ?thesis
    using sub regions_apart_others [OF ap, of _ _ _ _ s i x] by (blast intro: regions_apart_affects [OF _ af])
qed

lemma regions_apart_put:
  assumes ap: "regions_apart V seg H w" and own: "r_ptr o1 \<noteq> seg" "0 < handles V w (r_ptr o1)" "shm_seg (r_shmem o1) = r_ptr o1"
    and other: "\<And>t j y o2. H t j y = Some o2 \<Longrightarrow> (t, j, y) \<noteq> (s, i, x) \<Longrightarrow> r_ptr o2 \<noteq> r_ptr o1"
  shows "regions_apart V seg (put_region s i x (Some o1) H) w"
proof -
  have cases: "put_region s i x (Some o1) H t j y = Some o2 \<Longrightarrow>
      (t = s \<and> j = i \<and> y = x \<and> o2 = o1) \<or> (H t j y = Some o2 \<and> (t, j, y) \<noteq> (s, i, x))" for t j y o2
    by (auto simp: put_region_def split: if_splits)
  show ?thesis
    unfolding regions_apart_def
  proof (intro conjI allI impI)
    fix t j y o2
    assume a: "put_region s i x (Some o1) H t j y = Some o2"
    show "r_ptr o2 \<noteq> seg" "0 < handles V w (r_ptr o2)" "shm_seg (r_shmem o2) = r_ptr o2"
      using cases [OF a] regions_apartD [OF ap] own by blast+
  next
    fix t j y u k z o2 o3
    assume a: "put_region s i x (Some o1) H t j y = Some o2" and b: "put_region s i x (Some o1) H u k z = Some o3"
      and e: "r_ptr o2 = r_ptr o3"
    then have "(t, j, y) = (u, k, z)"
      using cases [OF a] cases [OF b] other regions_apartD(4) [OF ap, of t j y o2 u k z o3] by metis
    then show "t = u" "j = k" "y = z" by simp_all
  qed
qed

text \<open>A new region, a region that moves from a thread to the map.\<close>

lemma regions_apart_keep:
  assumes ap: "regions_apart V seg H w" and t: "touches V seg A w w'" and new: "\<And>o1. v = Some o1 \<Longrightarrow> fresh_handle V o1 w w'"
    and held: "0 < handles V w seg" and none: "H s i x = None"
  shows "regions_apart V seg (put_region s i x v H) w'"
proof (cases v)
  case None
  then show ?thesis
    using put_region_simps(2) [of s i x H] none regions_apart_affects [OF ap touches_affects [OF t, of "{}"]] by simp
next
  case (Some o1)
  have "r_ptr o2 \<noteq> r_ptr o1" if "H u j y = Some o2" for u j y o2
    using regions_apartD(2) [OF ap that] new [OF Some] by (auto simp: fresh_handle_def)
  then show ?thesis
    using new [OF Some] held unfolding Some
    by (intro regions_apart_put [OF regions_apart_affects [OF ap touches_affects [OF t, of "{}"]]]) (auto simp: fresh_handle_def)
qed

lemma regions_apart_move:
  assumes ap: "regions_apart V seg H w" and v: "H s i x = Some o1" and af: "affects V seg A (seg_of (H s i y)) w w'" and xy: "x \<noteq> y"
  shows "regions_apart V seg (put_region s i y (Some o1) (put_region s i x None H)) w'"
proof -
  let ?H = "put_region s i x None H"
  have y: "?H s i y = H s i y" using xy by (simp add: put_region_def)
  have "regions_apart V seg ?H w" by (rule regions_apart_sub [OF ap]) (auto simp: put_region_def split: if_splits)
  from regions_apart_forget [OF this, of A s i y w'] af y
  have ap1: "regions_apart V seg (put_region s i y None ?H) w'" by simp
  have "r_ptr o1 \<notin> seg_of (H s i y)" using xy by (intro regions_apart_others [OF ap v]) simp
  then have "0 < handles V w' (r_ptr o1)" using affects_held [OF af] regions_apartD(1,2) [OF ap v] by blast
  moreover have "r_ptr o2 \<noteq> r_ptr o1" if "put_region s i y None ?H t j z = Some o2" for t j z o2
  proof -
    have "H t j z = Some o2" "(s, i, x) \<noteq> (t, j, z)" using that by (auto simp: put_region_def split: if_splits)
    then show ?thesis using regions_apartD(4) [OF ap v] by blast
  qed
  ultimately have "regions_apart V seg (put_region s i y (Some o1) (put_region s i y None ?H)) w'"
    using regions_apartD(1,3) [OF ap v] by (blast intro: regions_apart_put [OF ap1])
  then show ?thesis by simp
qed

section \<open>Threads\<close>

definition activity_ok :: "nat \<Rightarrow> 'os externals \<Rightarrow> (usize \<Rightarrow> phase) \<Rightarrow> activity \<Rightarrow> bool" where
  "activity_ok n X ph a \<longleftrightarrow>
     (case a of
        Filling i c \<Rightarrow> unat i < n \<and> ph i = Writing \<and> call_ok X c
      | Cleared i c \<Rightarrow> unat i < n \<and> ph i = Writing \<and> call_ok X c
      | Keeping i c ovf \<Rightarrow> unat i < n
      | Registering c \<Rightarrow> True
      | Reading i \<Rightarrow> unat i < n \<and> (\<exists>c. ph i = Claimed c)
      | Handling i rq \<Rightarrow> unat i < n \<and> (\<exists>c lost. ph i = Claimed c \<and> reads_request lost c rq)
      | Answering i p \<Rightarrow> unat i < n \<and> (\<exists>c. ph i = Claimed c) \<and> reply_ok X p
      | Replying i ovf \<Rightarrow> unat i < n)"

definition threads_match ::
  "nat \<Rightarrow> 'os externals \<Rightarrow> (usize \<Rightarrow> phase) \<Rightarrow> (nat \<Rightarrow> activity option) \<Rightarrow> bool" where
  "threads_match n X ph th \<longleftrightarrow>
     (\<forall>t a. th t = Some a \<longrightarrow> activity_ok n X ph a)
   \<and> (\<forall>t u a b i. th t = Some a \<longrightarrow> th u = Some b \<longrightarrow> slot_of a = Some i \<longrightarrow> slot_of b = Some i \<longrightarrow> t = u)"

definition nobody_else :: "(nat \<Rightarrow> activity option) \<Rightarrow> nat \<Rightarrow> usize \<Rightarrow> bool" where
  "nobody_else th t i \<longleftrightarrow> (\<forall>u a. u \<noteq> t \<longrightarrow> th u = Some a \<longrightarrow> slot_of a \<noteq> Some i)"

lemma owner_alone:
  "threads_match n X ph th \<Longrightarrow> th t = Some a \<Longrightarrow> slot_of a = Some i \<Longrightarrow> nobody_else th t i"
  unfolding threads_match_def nobody_else_def by blast

lemma unowned_phase:
  assumes "threads_match n X ph th" and "ph i \<noteq> Writing" and "\<And>c. ph i \<noteq> Claimed c"
  shows "th u = Some a \<Longrightarrow> slot_of a \<noteq> Some i" and "nobody_else th t i"
proof -
  show no: "slot_of a \<noteq> Some i" if "th u = Some a" for u a
  proof -
    have "activity_ok n X ph a" using assms(1) that unfolding threads_match_def by blast
    then show ?thesis using assms(2,3) by (cases a) (auto simp: activity_ok_def)
  qed
  show "nobody_else th t i" using no unfolding nobody_else_def by blast
qed

lemma activity_ok_other:
  "activity_ok n X ph a \<Longrightarrow> slot_of a \<noteq> Some i \<Longrightarrow> activity_ok n X (ph(i := p)) a"
  by (cases a) (auto simp: activity_ok_def)

lemma threads_update:
  assumes "threads_match n X ph th" and "nobody_else th t i"
    and "\<And>a. x = Some a \<Longrightarrow> activity_ok n X (ph(i := p)) a \<and> slot_of a \<in> {None, Some i}"
  shows "threads_match n X (ph(i := p)) (th(t := x))"
  unfolding threads_match_def
proof (intro conjI allI impI)
  fix u a
  assume a: "(th(t := x)) u = Some a"
  show "activity_ok n X (ph(i := p)) a"
  proof (cases "u = t")
    case True
    then show ?thesis using a assms(3) by simp
  next
    case False
    then have "th u = Some a" using a by simp
    then show ?thesis
      using assms(1,2) False activity_ok_other unfolding threads_match_def nobody_else_def by blast
  qed
next
  fix u v a b j
  assume "(th(t := x)) u = Some a" "(th(t := x)) v = Some b" "slot_of a = Some j" "slot_of b = Some j"
  then show "u = v"
    using assms unfolding threads_match_def nobody_else_def
    by (cases "u = t"; cases "v = t") (fastforce split: if_splits)+
qed

lemma threads_phase:
  assumes "threads_match n X ph th" and "\<And>u a. th u = Some a \<Longrightarrow> slot_of a \<noteq> Some i"
  shows "threads_match n X (ph(i := p)) th"
  using assms activity_ok_other unfolding threads_match_def by blast

section \<open>The simulation relation\<close>

definition linked :: "platform \<Rightarrow> bus \<Rightarrow> worker \<Rightarrow> bool" where
  "linked pl b k \<longleftrightarrow>
     same_layout (wk_region k) (bus_region b)
     \<and> (\<forall>i. request_overflow_name_gen pl (wk_config k) i = request_overflow_name_gen pl (bus_config b) i
          \<and> response_overflow_name_gen pl (wk_config k) i = response_overflow_name_gen pl (bus_config b) i
          \<and> names_total (request_overflow_name_gen pl (bus_config b) i)
          \<and> names_total (response_overflow_name_gen pl (bus_config b) i))"

definition slots_match ::
  "'os shm_view \<Rightarrow> platform \<Rightarrow> 'os externals \<Rightarrow> bus \<Rightarrow> regions \<Rightarrow> 'os world \<Rightarrow> (usize \<Rightarrow> phase) \<Rightarrow> (usize \<Rightarrow> bool) \<Rightarrow> bool" where
  "slots_match V pl X b H w ph lost \<longleftrightarrow>
     (\<forall>i. unat i < unat (r_num_slots (bus_region b)) \<longrightarrow>
        slot_matches V pl X (bus_config b) (bus_region b) (\<lambda>s. H s i) w i (lost i) (ph i))"

text \<open>What the watcher carries from a slot to the caller.\<close>

definition same_reply :: "reply option \<Rightarrow> (u16 \<times> response_meta \<times> bytes) result \<Rightarrow> bool" where
  "same_reply q res \<longleftrightarrow>
     (case q of None \<Rightarrow> \<exists>e. res = Inl e | Some p \<Rightarrow> res = Inr (rp_status p, rp_meta p, rp_body p))"

fun watcher_matches :: "nat \<Rightarrow> watching \<Rightarrow> (string \<times> reply option) option \<Rightarrow> bool" where
  "watcher_matches n Scanning tk = (tk = None)"
| "watcher_matches n (Released i req_id res) tk = (unat i < n \<and> (\<exists>q. tk = Some (req_id, q) \<and> same_reply q res))"
| "watcher_matches n (Resolving req_id res) tk = (\<exists>q. tk = Some (req_id, q) \<and> same_reply q res)"

definition simulates :: "'os shm_view \<Rightarrow> platform \<Rightarrow> 'os externals \<Rightarrow> spec \<Rightarrow> 'os system \<Rightarrow> bool" where
  "simulates V pl X S \<sigma> \<longleftrightarrow>
     live V (bus_region (sy_bus \<sigma>)) (sy_world \<sigma>) \<and> linked pl (sy_bus \<sigma>) (sy_worker \<sigma>)
     \<and> regions_apart V (r_ptr (bus_region (sy_bus \<sigma>))) (regions_of \<sigma>) (sy_world \<sigma>)
     \<and> slots_match V pl X (sy_bus \<sigma>) (regions_of \<sigma>) (sy_world \<sigma>) (sp_phase S) (sp_lost S)
     \<and> sp_pending S = (\<lambda>req_id. map_option (snd \<circ> snd) (bus_pending (sy_bus \<sigma>) req_id))
     \<and> threads_match (slots_of \<sigma>) X (sp_phase S) (sy_threads \<sigma>)
     \<and> watcher_matches (slots_of \<sigma>) (sy_watcher \<sigma>) (sp_taken S)"

lemma simulatesD:
  assumes "simulates V pl X S \<sigma>"
  shows "live V (bus_region (sy_bus \<sigma>)) (sy_world \<sigma>)" and "linked pl (sy_bus \<sigma>) (sy_worker \<sigma>)"
    and "regions_apart V (r_ptr (bus_region (sy_bus \<sigma>))) (regions_of \<sigma>) (sy_world \<sigma>)"
    and "slots_match V pl X (sy_bus \<sigma>) (regions_of \<sigma>) (sy_world \<sigma>) (sp_phase S) (sp_lost S)"
    and "sp_pending S = (\<lambda>req_id. map_option (snd \<circ> snd) (bus_pending (sy_bus \<sigma>) req_id))"
    and "threads_match (slots_of \<sigma>) X (sp_phase S) (sy_threads \<sigma>)"
    and "watcher_matches (slots_of \<sigma>) (sy_watcher \<sigma>) (sp_taken S)"
  using assms by (simp_all add: simulates_def)

lemma sim_slot:
  assumes "simulates V pl X S \<sigma>" and "unat i < slots_of \<sigma>"
  shows "slot_matches V pl X (bus_config (sy_bus \<sigma>)) (bus_region (sy_bus \<sigma>)) (\<lambda>s. regions_of \<sigma> s i) (sy_world \<sigma>) i
    (sp_lost S i) (sp_phase S i)"
  using simulatesD(4) [OF assms(1)] assms(2) by (simp add: slots_match_def slots_of_def)

text \<open>A step on one slot leaves the phases of the others.\<close>

lemma slots_match_step:
  assumes sm: "slots_match V pl X b H w ph lost" and lv: "live V (bus_region b) w"
    and af: "affects V (r_ptr (bus_region b)) A D w w'" and A: "A \<subseteq> slot_area (bus_region b) i"
    and D: "\<And>s j x o1. j \<noteq> i \<Longrightarrow> H s j x = Some o1 \<Longrightarrow> r_ptr o1 \<notin> D"
    and i: "unat i < unat (r_num_slots (bus_region b))"
    and b': "bus_region b' = bus_region b" "bus_config b' = bus_config b"
    and same: "\<And>s j x. j \<noteq> i \<Longrightarrow> H' s j x = H s j x"
    and new: "slot_matches V pl X (bus_config b) (bus_region b) (\<lambda>s. H' s i) w' i l p"
  shows "slots_match V pl X b' H' w' (ph(i := p)) (lost(i := l))"
  unfolding slots_match_def
proof (intro allI impI)
  fix j :: usize
  assume "unat j < unat (r_num_slots (bus_region b'))"
  then have j: "unat j < unat (r_num_slots (bus_region b))" using b' by simp
  show "slot_matches V pl X (bus_config b') (bus_region b') (\<lambda>s. H' s j) w' j ((lost(i := l)) j) ((ph(i := p)) j)"
  proof (cases "j = i")
    case True
    then show ?thesis using new b' by simp
  next
    case False
    note cr = liveD(1) [OF lv]
    have dis: "A \<inter> slot_area (bus_region b) j = {}"
      using A slot_areas_disjoint [OF cr i j] False by auto
    have sv: "survives (\<lambda>s. H s j) (lost j) D (\<lambda>s. H' s j) (lost j) s" for s
      using D [OF False] same [OF False] by (auto simp: survives_def)
    have "slot_matches V pl X (bus_config b) (bus_region b) (\<lambda>s. H s j) w j (lost j) (ph j)"
      using sm j by (simp add: slots_match_def)
    from slot_matches_frame [OF this cr j af dis sv] show ?thesis using False b' by simp
  qed
qed

lemma simulates_step:
  assumes sim: "simulates V pl X S \<sigma>" and i: "unat i < slots_of \<sigma>"
    and af: "affects V (r_ptr (bus_region (sy_bus \<sigma>))) A D (sy_world \<sigma>) (sy_world \<sigma>')"
    and A: "A \<subseteq> slot_area (bus_region (sy_bus \<sigma>)) i"
    and D: "\<And>s j x o1. j \<noteq> i \<Longrightarrow> regions_of \<sigma> s j x = Some o1 \<Longrightarrow> r_ptr o1 \<notin> D"
    and b': "bus_region (sy_bus \<sigma>') = bus_region (sy_bus \<sigma>)" "bus_config (sy_bus \<sigma>') = bus_config (sy_bus \<sigma>)"
    and k': "wk_region (sy_worker \<sigma>') = wk_region (sy_worker \<sigma>)" "wk_config (sy_worker \<sigma>') = wk_config (sy_worker \<sigma>)"
    and same: "\<And>s j x. j \<noteq> i \<Longrightarrow> regions_of \<sigma>' s j x = regions_of \<sigma> s j x"
    and ap': "regions_apart V (r_ptr (bus_region (sy_bus \<sigma>))) (regions_of \<sigma>') (sy_world \<sigma>')"
    and new: "slot_matches V pl X (bus_config (sy_bus \<sigma>)) (bus_region (sy_bus \<sigma>)) (\<lambda>s. regions_of \<sigma>' s i) (sy_world \<sigma>') i
      (sp_lost S' i) (sp_phase S' i)"
    and ph: "sp_phase S' = (sp_phase S)(i := sp_phase S' i)" "sp_lost S' = (sp_lost S)(i := sp_lost S' i)"
    and pending: "sp_pending S' = (\<lambda>req_id. map_option (snd \<circ> snd) (bus_pending (sy_bus \<sigma>') req_id))"
    and th: "threads_match (slots_of \<sigma>) X (sp_phase S') (sy_threads \<sigma>')"
    and wt: "watcher_matches (slots_of \<sigma>) (sy_watcher \<sigma>') (sp_taken S')"
  shows "simulates V pl X S' \<sigma>'"
proof -
  note sD = simulatesD [OF sim]
  have "linked pl (sy_bus \<sigma>') (sy_worker \<sigma>')" using sD(2) b' k' by (simp add: linked_def)
  moreover have "live V (bus_region (sy_bus \<sigma>')) (sy_world \<sigma>')" using affects_live [OF sD(1) af] b' by simp
  moreover have ir: "unat i < unat (r_num_slots (bus_region (sy_bus \<sigma>)))" using i by (simp add: slots_of_def)
  have "slots_match V pl X (sy_bus \<sigma>') (regions_of \<sigma>') (sy_world \<sigma>') ((sp_phase S)(i := sp_phase S' i))
      ((sp_lost S)(i := sp_lost S' i))"
    by (rule slots_match_step [OF sD(4,1) af A D ir b' same new])
  then have "slots_match V pl X (sy_bus \<sigma>') (regions_of \<sigma>') (sy_world \<sigma>') (sp_phase S') (sp_lost S')"
    using ph by simp
  ultimately show ?thesis using ap' th pending wt b' by (simp add: simulates_def slots_of_def)
qed

text \<open>Steps that change nothing but the hub's bookkeeping, the threads and the operating system.\<close>

lemma quiet_simulated:
  assumes sim: "simulates V pl X S \<sigma>"
    and af: "affects V (r_ptr (bus_region (sy_bus \<sigma>))) {} {} (sy_world \<sigma>) (sy_world \<sigma>')"
    and b: "bus_region (sy_bus \<sigma>') = bus_region (sy_bus \<sigma>)" "bus_config (sy_bus \<sigma>') = bus_config (sy_bus \<sigma>)"
    and k: "sy_worker \<sigma>' = sy_worker \<sigma>" and own: "regions_of \<sigma>' = regions_of \<sigma>"
    and S': "sp_phase S' = sp_phase S" "sp_lost S' = sp_lost S"
      "sp_pending S' = (\<lambda>req_id. map_option (snd \<circ> snd) (bus_pending (sy_bus \<sigma>') req_id))"
    and th: "threads_match (slots_of \<sigma>) X (sp_phase S) (sy_threads \<sigma>')"
    and wt: "watcher_matches (slots_of \<sigma>) (sy_watcher \<sigma>') (sp_taken S')"
  shows "simulates V pl X S' \<sigma>'"
proof -
  note sD = simulatesD [OF sim]
  have "regions_apart V (r_ptr (bus_region (sy_bus \<sigma>'))) (regions_of \<sigma>') (sy_world \<sigma>')"
    using regions_apart_affects [OF sD(3) af] b own by simp
  moreover have "slots_match V pl X (sy_bus \<sigma>') (regions_of \<sigma>') (sy_world \<sigma>') (sp_phase S') (sp_lost S')"
    unfolding slots_match_def b S' own
  proof (intro allI impI)
    fix i :: usize
    assume i: "unat i < unat (r_num_slots (bus_region (sy_bus \<sigma>)))"
    then have j: "unat i < slots_of \<sigma>" by (simp add: slots_of_def)
    show "slot_matches V pl X (bus_config (sy_bus \<sigma>)) (bus_region (sy_bus \<sigma>)) (\<lambda>s. regions_of \<sigma> s i) (sy_world \<sigma>') i
      (sp_lost S i) (sp_phase S i)"
      by (rule slot_matches_frame [OF sim_slot [OF sim j] liveD(1) [OF sD(1)] i af]) (simp_all add: survives_same)
  qed
  ultimately show ?thesis
    using affects_live [OF sD(1) af] sD(2) th wt S' b k by (simp add: simulates_def slots_of_def linked_def)
qed

section \<open>The steps\<close>

text \<open>
  The system calls on events leave the shared memory alone: a semaphore or a kernel event object is
  neither a segment nor the name of one.
\<close>

definition leaves_memory :: "'os shm_view \<Rightarrow> ('os world \<Rightarrow> 'os world) \<Rightarrow> bool" where
  "leaves_memory V f \<longleftrightarrow>
     (\<forall>w. mem (f w) = mem w \<and> bound V (f w) = bound V w \<and> handles V (f w) = handles V w)"

definition events_separate :: "'os event_os \<Rightarrow> 'os shm_view \<Rightarrow> bool" where
  "events_separate E V \<longleftrightarrow>
     (\<forall>n. leaves_memory V (snd \<circ> CreateEventW E n)) \<and> (\<forall>n. leaves_memory V (snd \<circ> OpenEventW E n))
   \<and> (\<forall>h. leaves_memory V (SetEvent E h)) \<and> (\<forall>h ms. leaves_memory V (snd \<circ> WaitForSingleObject E h ms))
   \<and> (\<forall>h. leaves_memory V (CloseHandle E h)) \<and> (\<forall>n. leaves_memory V (sem_unlink E n))
   \<and> (\<forall>n. leaves_memory V (snd \<circ> sem_open_create E n)) \<and> (\<forall>n. leaves_memory V (snd \<circ> sem_open_existing E n))
   \<and> (\<forall>s. leaves_memory V (sem_post E s)) \<and> (\<forall>s t. leaves_memory V (snd \<circ> sem_timedwait E s t))
   \<and> (\<forall>s. leaves_memory V (snd \<circ> sem_trywait E s)) \<and> (\<forall>s. leaves_memory V (sem_close E s))
   \<and> (\<forall>n. leaves_memory V (thread_sleep E n))"

definition same_memory :: "'os shm_view \<Rightarrow> 'os world \<Rightarrow> 'os world \<Rightarrow> bool" where
  "same_memory V w w' \<longleftrightarrow> mem w' = mem w \<and> bound V w' = bound V w \<and> handles V w' = handles V w"

lemma same_memory_refl [simp]: "same_memory V w w"
  by (simp add: same_memory_def)

lemma same_memory_trans: "same_memory V w1 w2 \<Longrightarrow> same_memory V w2 w3 \<Longrightarrow> same_memory V w1 w3"
  by (simp add: same_memory_def)

lemma leaves_same: "leaves_memory V f \<Longrightarrow> same_memory V w (f w)"
  by (simp add: leaves_memory_def same_memory_def)

lemma leaves_snd_same: "leaves_memory V (snd \<circ> f) \<Longrightarrow> f w = (x, w') \<Longrightarrow> same_memory V w w'"
  using leaves_same [of V "snd \<circ> f" w] by simp

lemma same_affects: "same_memory V w w' \<Longrightarrow> 0 < handles V w seg \<Longrightarrow> affects V seg A D w w'"
  by (simp add: affects_same same_memory_def)

lemma signal_same: "events_separate E V \<Longrightarrow> same_memory V w (event_signal E ev w)"
  by (cases ev) (simp_all add: events_separate_def leaves_same)

lemma signal_affects:
  "events_separate E V \<Longrightarrow> 0 < handles V w seg \<Longrightarrow> affects V seg A D w (event_signal E ev w)"
  by (rule same_affects [OF signal_same])

lemma separate_calls:
  assumes "events_separate E V"
  shows "WaitForSingleObject E h ms w = (x, w') \<Longrightarrow> same_memory V w w'"
    and "sem_timedwait E s d w = (y, w') \<Longrightarrow> same_memory V w w'"
    and "sem_trywait E s w = (y, w') \<Longrightarrow> same_memory V w w'"
    and "same_memory V w (thread_sleep E n w)"
  using assms unfolding events_separate_def by (blast intro: leaves_snd_same leaves_same)+

lemma poll_same:
  assumes "poll_wait E sem deadline w = Some r"
  shows "events_separate E V \<longrightarrow> same_memory V w (snd r)"
proof (rule poll_wait.raw_induct [where P = "\<lambda>E sem d w r. events_separate E V \<longrightarrow> same_memory V w (snd r)", OF _ assms])
  fix poll E sem deadline w r
  assume IH: "\<And>E sem d w y. poll E sem d w = Some y \<Longrightarrow> events_separate E V \<longrightarrow> same_memory V w (snd y)"
    and run: "(let (taken, w') = sem_trywait E sem w in if taken then Some (True, w')
      else if instant_now E w' \<ge> deadline then Some (False, w')
      else poll E sem deadline (thread_sleep E 1000000 w')) = Some r"
  obtain taken w1 where t: "sem_trywait E sem w = (taken, w1)" by (cases "sem_trywait E sem w")
  show "events_separate E V \<longrightarrow> same_memory V w (snd r)"
  proof
    assume sep: "events_separate E V"
    note w1 = separate_calls(3) [OF sep t]
    show "same_memory V w (snd r)"
    proof (cases "taken \<or> instant_now E w1 \<ge> deadline")
      case True
      have "(if taken then Some (True, w1) else if instant_now E w1 \<ge> deadline then Some (False, w1)
          else poll E sem deadline (thread_sleep E 1000000 w1)) = Some r" using run t by simp
      then have "r = (True, w1) \<or> r = (False, w1)" using True by (cases taken) simp_all
      then show ?thesis using w1 by auto
    next
      case False
      then have "poll E sem deadline (thread_sleep E 1000000 w1) = Some r" using run t by simp
      then have "same_memory V (thread_sleep E 1000000 w1) (snd r)" using IH sep by blast
      with w1 separate_calls(4) [OF sep] show ?thesis by (blast intro: same_memory_trans)
    qed
  qed
qed

lemma wait_same:
  assumes sep: "events_separate E V" and run: "event_wait_timeout pl E ev ms w = Some (b, w')"
  shows "same_memory V w w'"
proof (cases ev)
  case (WindowsEvent h)
  then show ?thesis
    using run separate_calls(1) [OF sep] by (auto simp: event_wait_timeout_def split: prod.splits)
next
  case (UnixEvent sem name created)
  then have "event_wait_timeout pl E ev ms w = (if pl = MacOS then poll_wait E sem (instant_now E w + unat ms * 1000000) w
      else Some (sem_timedwait E sem (deadline_timespec (clock_realtime E w) ms) w))"
    by (simp add: event_wait_timeout_def)
  then show ?thesis
    using run poll_same [of E sem _ w "(b, w')" V] sep separate_calls(2) [OF sep, of sem _ w b w']
    by (auto split: if_splits)
qed

lemma unobserved_affects:
  assumes "unobserved V w w'" and "0 < handles V w seg"
  shows "affects V seg A D w w'"
proof (rule affects_same)
  show "bound V w' = bound V w"
  proof
    fix name
    show "bound V w' name = bound V w name"
      using assms(1) unfolding unobserved_def by (cases "bound V w' name"; cases "bound V w name") force+
  qed
qed (use assms in \<open>simp_all add: unobserved_def\<close>)

lemma slot_matches_phase:
  assumes "slot_matches V pl X cfg r G w i lost ph"
  shows "status_at r i w = SLOT_FREE \<longleftrightarrow> ph = Free" and "status_at r i w = SLOT_READY \<longleftrightarrow> (\<exists>c. ph = Ready c)"
    and "status_at r i w = SLOT_DONE \<longleftrightarrow> (\<exists>c p. ph = Done c p)"
  using assms by (cases ph; simp add: slot_matches_def protocol_consts)+

lemma set_status_touches:
  assumes "shmem_documented X V" and "live V r w" and "unat i < unat (r_num_slots r)"
  shows "touches V (r_ptr r) (status_area i) w (put (r_ptr r) (slot_start i) (le32 v) w)"
    and "status_at r i (put (r_ptr r) (slot_start i) (le32 v) w) = v"
proof -
  note D = liveD [OF assms(2)]
  have "slot_start i + 4 \<le> length (mem w (r_ptr r))" using slot_base_eq(3) [OF D(1) assms(3)] by simp
  then show "touches V (r_ptr r) (status_area i) w (put (r_ptr r) (slot_start i) (le32 v) w)"
    and "status_at r i (put (r_ptr r) (slot_start i) (le32 v) w) = v"
    using D assms(1) by (auto simp: status_area_def slice_simps intro!: touches_put)
qed

lemma cas_taken:
  assumes "live V r w" and "unat i < unat (r_num_slots r)" and "cas_status r i cur v w = Some (Inr old, w')"
  shows "status_at r i w = cur" and "w' = put (r_ptr r) (slot_start i) (le32 v) w"
  using assms status_ops(3) [OF liveD(1) [OF assms(1)] assms(2), of cur v] by (auto split: if_splits)

text \<open>
  The overflow region a map holds for a slot is dropped: nothing comes in its place (\<open>v = None\<close>), or the region a
  thread has held since it published its message.
\<close>

definition after_drop :: "side \<Rightarrow> usize \<Rightarrow> shm_region option \<Rightarrow> spec \<Rightarrow> spec" where
  "after_drop s i ovf S = (if ovf = None then S else lose s i S)"

lemma after_drop_step: "spec_step S (dropped s i ovf) (after_drop s i ovf S)"
  by (simp add: dropped_def after_drop_def sp_idle sp_drop)

lemma after_drop_simps [simp]:
  "after_drop s i None S = S" "sp_phase (after_drop s i ovf S) = sp_phase S"
  "sp_pending (after_drop s i ovf S) = sp_pending S" "sp_taken (after_drop s i ovf S) = sp_taken S"
  "\<not> carries s (sp_phase S i) \<Longrightarrow> after_drop s i ovf S = S"
  by (simp_all add: after_drop_def lose_def)

lemma after_drop_lost: "sp_lost (after_drop s i ovf S) = (sp_lost S)(i := sp_lost S i \<or> ovf \<noteq> None \<and> carries s (sp_phase S i))"
  by (auto simp: after_drop_def lose_def)

lemma swap_simulated:
  assumes sim: "simulates V pl X S \<sigma>" and i: "unat i < slots_of \<sigma>"
    and af: "affects V (r_ptr (bus_region (sy_bus \<sigma>))) {} (seg_of (regions_of \<sigma> s i None)) (sy_world \<sigma>) (sy_world \<sigma>')"
    and b': "bus_region (sy_bus \<sigma>') = bus_region (sy_bus \<sigma>)" "bus_config (sy_bus \<sigma>') = bus_config (sy_bus \<sigma>)"
      "bus_pending (sy_bus \<sigma>') = bus_pending (sy_bus \<sigma>)"
    and k': "wk_region (sy_worker \<sigma>') = wk_region (sy_worker \<sigma>)" "wk_config (sy_worker \<sigma>') = wk_config (sy_worker \<sigma>)"
    and own: "v = None \<and> regions_of \<sigma>' = put_region s i None None (regions_of \<sigma>) \<or>
      v \<noteq> None \<and> v = regions_of \<sigma> s i (Some t)
        \<and> regions_of \<sigma>' = put_region s i None v (put_region s i (Some t) None (regions_of \<sigma>))"
    and th: "threads_match (slots_of \<sigma>) X (sp_phase S) (sy_threads \<sigma>')"
    and wt: "watcher_matches (slots_of \<sigma>) (sy_watcher \<sigma>') (sp_taken S)"
  shows "simulates V pl X (after_drop s i (regions_of \<sigma> s i None) S) \<sigma>'"
proof -
  let ?H = "regions_of \<sigma>" and ?H' = "regions_of \<sigma>'" and ?p = "r_ptr (bus_region (sy_bus \<sigma>))"
  let ?S = "after_drop s i (?H s i None) S" and ?D = "seg_of (?H s i None)"
  note sD = simulatesD [OF sim]
  have ir: "unat i < unat (r_num_slots (bus_region (sy_bus \<sigma>)))" using i by (simp add: slots_of_def)
  have ap: "regions_apart V ?p ?H' (sy_world \<sigma>')"
  proof (cases v)
    case None
    then show ?thesis using own regions_apart_forget [OF sD(3) af] by simp
  next
    case (Some o1)
    then show ?thesis using own regions_apart_move [OF sD(3) _ af, of "Some t" o1] by simp
  qed
  have out: "r_ptr o1 \<notin> ?D" if "?H u j x = Some o1" "(u, j, x) \<noteq> (s, i, None)" for u j x o1
    by (rule regions_apart_others [OF sD(3) that])
  have same: "?H' u j x = ?H u j x" if "(u, j) \<noteq> (s, i)" for u j x
    using own that by (auto simp: put_region_def)
  have stay: "\<exists>y. ?H' s i y = Some o1" if "?H s i None = None" "?H s i x = Some o1" for x o1
  proof (cases "v \<noteq> None \<and> x = Some t")
    case True
    then show ?thesis using own that by (intro exI [of _ None]) auto
  next
    case False
    have "x \<noteq> None" using that by (cases x) simp_all
    then have "?H' s i x = Some o1" using own that False by (auto simp: put_region_def split: if_splits)
    then show ?thesis ..
  qed
  have sv: "survives (\<lambda>s. ?H s i) (sp_lost S i) ?D (\<lambda>s. ?H' s i) (sp_lost ?S i) u" if u: "carries u (sp_phase S i)" for u
    unfolding survives_def
  proof (intro impI conjI allI)
    assume nl: "\<not> sp_lost ?S i"
    then show "\<not> sp_lost S i" by (simp add: after_drop_lost)
    have none: "u = s \<Longrightarrow> ?H s i None = None" using nl u by (auto simp: after_drop_lost)
    fix x o1
    assume x: "?H u i x = Some o1"
    have "(u, i, x) \<noteq> (s, i, None)" using x none by (cases x) auto
    then show "r_ptr o1 \<notin> ?D" by (rule out [OF x])
    show "\<exists>y. ?H' u i y = Some o1"
    proof (cases "u = s")
      case True
      then show ?thesis using stay [OF none] x by blast
    next
      case False
      then show ?thesis using same [of u i x] x by auto
    qed
  qed
  have m: "slot_matches V pl X (bus_config (sy_bus \<sigma>)) (bus_region (sy_bus \<sigma>)) (\<lambda>s. ?H' s i) (sy_world \<sigma>') i
      (sp_lost ?S i) (sp_phase ?S i)"
    using slot_matches_frame [OF sim_slot [OF sim i] liveD(1) [OF sD(1)] ir af _ sv] by simp
  show ?thesis
    by (rule simulates_step [OF sim i af _ _ b'(1,2) k' same ap m])
      (use out th wt sD(5) b'(3) in \<open>auto simp: after_drop_lost\<close>)
qed

end
