(* ===== verification/Refinement.thy ===== *)
theory Refinement
  imports Simulation
begin

text \<open>
  Every step of the system is the protocol step of the same name: one lemma per rule of \<open>sys_step\<close>, and the
  refinement theorem that joins them.
\<close>

section \<open>Claims\<close>

lemma claim_simulated:
  assumes doc: "shmem_documented X V" and sim: "simulates V pl X S \<sigma>"
    and t: "sy_threads \<sigma> t = None" and i: "unat i < slots_of \<sigma>" and c: "call_ok X c"
    and cas: "cas_status (bus_region (sy_bus \<sigma>)) i SLOT_FREE SLOT_WRITING (sy_world \<sigma>) = Some (Inr old, w)"
  shows "sp_phase S i = Free"
    and "simulates V pl X (set_phase i Writing S)
      (\<sigma>\<lparr>sy_world := w, sy_threads := (sy_threads \<sigma>)(t \<mapsto> Filling i c)\<rparr>)"
proof -
  let ?r = "bus_region (sy_bus \<sigma>)" and ?\<sigma>' = "\<sigma>\<lparr>sy_world := w, sy_threads := (sy_threads \<sigma>)(t \<mapsto> Filling i c)\<rparr>"
  note sD = simulatesD [OF sim]
  have ir: "unat i < unat (r_num_slots ?r)" using i by (simp add: slots_of_def)
  note C = cas_taken [OF sD(1) ir cas] note T = set_status_touches [OF doc sD(1) ir, of SLOT_WRITING, folded C(2)]
  show free: "sp_phase S i = Free" using C(1) slot_matches_phase(1) [OF sim_slot [OF sim i]] by simp
  have af: "affects V (r_ptr ?r) (status_area i) {} (sy_world \<sigma>) w" using T(1) by (rule touches_affects)
  have own: "regions_of ?\<sigma>' = regions_of \<sigma>" using t by (simp add: owned_thread)
  have "nobody_else (sy_threads \<sigma>) t i" using unowned_phase(2) [OF sD(6)] free by simp
  then have "threads_match (slots_of \<sigma>) X ((sp_phase S)(i := Writing)) ((sy_threads \<sigma>)(t \<mapsto> Filling i c))"
    using i c by (intro threads_update [OF sD(6)]) (auto simp: activity_ok_def)
  then show "simulates V pl X (set_phase i Writing S) ?\<sigma>'"
    using af own T(2) sD(5,7) regions_apart_affects [OF sD(3) af]
    by (intro simulates_step [OF sim i, where A = "status_area i" and D = "{}"])
      (auto simp: slot_area_def slot_matches_def set_phase_def)
qed

lemma call_stored_mark:
  assumes "call_stored V pl X cfg r i c G lost w" and lv: "live V r w" and i: "unat i < unat (r_num_slots r)"
    and t: "touches V (r_ptr r) (status_area i) w w'"
  shows "call_stored V pl X cfg r i c G lost w'"
proof -
  have "status_area i \<inter> request_area r i = {}" by (rule areas_disjoint(4) [OF liveD(1) [OF lv] i i])
  then show ?thesis
    by (rule call_stored_frame [OF assms(1) liveD(1) [OF lv] i touches_affects [OF t, of "{}"]]) (simp add: survives_same)
qed

lemma take_simulated:
  assumes doc: "shmem_documented X V" and sim: "simulates V pl X S \<sigma>"
    and t: "sy_threads \<sigma> t = None" and i: "unat i < slots_of \<sigma>"
    and cas: "cas_status (wk_region (sy_worker \<sigma>)) i SLOT_READY SLOT_CLAIMED (sy_world \<sigma>) = Some (Inr old, w)"
  shows "\<exists>c. sp_phase S i = Ready c \<and> simulates V pl X (set_phase i (Claimed c) S)
      (\<sigma>\<lparr>sy_world := w, sy_threads := (sy_threads \<sigma>)(t \<mapsto> Reading i)\<rparr>)"
proof -
  let ?r = "bus_region (sy_bus \<sigma>)" and ?q = "wk_region (sy_worker \<sigma>)"
  let ?\<sigma>' = "\<sigma>\<lparr>sy_world := w, sy_threads := (sy_threads \<sigma>)(t \<mapsto> Reading i)\<rparr>"
  note sD = simulatesD [OF sim]
  have q: "same_layout ?q ?r" using sD(2) by (simp add: linked_def)
  then have qp: "r_ptr ?q = r_ptr ?r" "r_num_slots ?q = r_num_slots ?r" by (simp_all add: same_layout_def)
  have lq: "live V ?q (sy_world \<sigma>)" using sD(1) same_layout_live [OF q] by blast
  have ir: "unat i < unat (r_num_slots ?r)" "unat i < unat (r_num_slots ?q)" using i qp by (simp_all add: slots_of_def)
  note C = cas_taken [OF lq ir(2) cas]
  note T = set_status_touches [OF doc sD(1) ir(1), of SLOT_CLAIMED, folded C(2) [unfolded qp]]
  have "\<exists>c. sp_phase S i = Ready c" using C(1) qp slot_matches_phase(2) [OF sim_slot [OF sim i]] by simp
  then obtain c where ph: "sp_phase S i = Ready c" ..
  have st: "call_stored V pl X (bus_config (sy_bus \<sigma>)) ?r i c (\<lambda>s. regions_of \<sigma> s i) (sp_lost S i) (sy_world \<sigma>)"
    using sim_slot [OF sim i] ph by (simp add: slot_matches_def)
  have af: "affects V (r_ptr ?r) (status_area i) {} (sy_world \<sigma>) w" using T(1) by (rule touches_affects)
  have own: "regions_of ?\<sigma>' = regions_of \<sigma>" using t by (simp add: owned_thread)
  have "nobody_else (sy_threads \<sigma>) t i" using unowned_phase(2) [OF sD(6)] ph by simp
  then have "threads_match (slots_of \<sigma>) X ((sp_phase S)(i := Claimed c)) ((sy_threads \<sigma>)(t \<mapsto> Reading i))"
    using i by (intro threads_update [OF sD(6)]) (auto simp: activity_ok_def)
  then have "simulates V pl X (set_phase i (Claimed c) S) ?\<sigma>'"
    using af own T(2) sD(5,7) regions_apart_affects [OF sD(3) af] call_stored_mark [OF st sD(1) ir(1) T(1)]
    by (intro simulates_step [OF sim i, where A = "status_area i" and D = "{}"])
      (auto simp: slot_area_def slot_matches_def set_phase_def)
  then show ?thesis using ph by blast
qed

lemma stored_names:
  assumes "linked pl b k"
  shows "request_stored V pl (wk_config k) (wk_region k) i req_id m meta body ovf w \<longleftrightarrow>
      request_stored V pl (bus_config b) (bus_region b) i req_id m meta body ovf w"
    and "response_stored V pl (wk_config k) (wk_region k) i status meta body ovf w \<longleftrightarrow>
      response_stored V pl (bus_config b) (bus_region b) i status meta body ovf w"
proof -
  have q: "same_layout (wk_region k) (bus_region b)"
    and n: "request_overflow_name_gen pl (wk_config k) i = request_overflow_name_gen pl (bus_config b) i"
      "response_overflow_name_gen pl (wk_config k) i = response_overflow_name_gen pl (bus_config b) i"
    using assms by (simp_all add: linked_def)
  have "r_ptr (wk_region k) = r_ptr (bus_region b)" using q by (simp add: same_layout_def)
  then show "request_stored V pl (wk_config k) (wk_region k) i req_id m meta body ovf w \<longleftrightarrow>
      request_stored V pl (bus_config b) (bus_region b) i req_id m meta body ovf w"
    and "response_stored V pl (wk_config k) (wk_region k) i status meta body ovf w \<longleftrightarrow>
      response_stored V pl (bus_config b) (bus_region b) i status meta body ovf w"
    using n same_layout_stored [OF q, of V] by (simp_all add: request_stored_def response_stored_def)
qed

lemma linked_live:
  assumes "linked pl b k" and "live V (bus_region b) w"
  shows "live V (wk_region k) w" and "r_ptr (wk_region k) = r_ptr (bus_region b)"
    and "r_num_slots (wk_region k) = r_num_slots (bus_region b)"
    and "response_area (wk_region k) i = response_area (bus_region b) i"
proof -
  have q: "same_layout (wk_region k) (bus_region b)" using assms(1) by (simp add: linked_def)
  show "live V (wk_region k) w" using assms(2) same_layout_live [OF q] by blast
  show "r_ptr (wk_region k) = r_ptr (bus_region b)" "r_num_slots (wk_region k) = r_num_slots (bus_region b)"
    using q by (simp_all add: same_layout_def)
  show "response_area (wk_region k) i = response_area (bus_region b) i" by (rule same_layout_areas(2) [OF q])
qed

text \<open>A thread that moves without touching anything.\<close>

lemma thread_moves:
  assumes sim: "simulates V pl X S \<sigma>" and own: "\<And>s i. hands a s i = hands (sy_threads \<sigma> t) s i"
    and th: "threads_match (slots_of \<sigma>) X (sp_phase S) ((sy_threads \<sigma>)(t := a))"
  shows "simulates V pl X S (\<sigma>\<lparr>sy_threads := (sy_threads \<sigma>)(t := a)\<rparr>)"
  using th owned_thread [where a = a and t = t and th = "sy_threads \<sigma>", OF own] simulatesD(5,7) [OF sim] liveD(3) [OF simulatesD(1) [OF sim]]
  by (intro quiet_simulated [OF sim]) simp_all

lemma threads_leave: "threads_match n X ph th \<Longrightarrow> threads_match n X ph (th(t := None))"
  unfolding threads_match_def by (auto split: if_splits)

lemma thread_leaves:
  assumes "simulates V pl X S \<sigma>" and "\<And>s i. hands (sy_threads \<sigma> t) s i = None"
  shows "simulates V pl X S (\<sigma>\<lparr>sy_threads := (sy_threads \<sigma>)(t := None)\<rparr>)"
  using assms(2) by (intro thread_moves [OF assms(1)] threads_leave [OF simulatesD(6) [OF assms(1)]]) simp

text \<open>The thread that owns a slot.\<close>

lemma thread_facts:
  assumes "simulates V pl X S \<sigma>" and "sy_threads \<sigma> t = Some a"
  shows "activity_ok (slots_of \<sigma>) X (sp_phase S) a" and "slot_of a = Some i \<Longrightarrow> nobody_else (sy_threads \<sigma>) t i"
  using simulatesD(6) [OF assms(1)] assms(2) owner_alone [OF simulatesD(6) [OF assms(1)] assms(2)]
  unfolding threads_match_def by blast+

section \<open>Reading a request\<close>

text \<open>Whatever the reader makes of the body, it gets the id, the method and the metadata of the call.\<close>

lemma read_request_of_head:
  assumes pc: "postcard_documented X" and cr: "control_region r w" and i: "unat i < unat (r_num_slots r)"
    and vec: "request_to_vec X (cl_meta c) = Inr mb" and hd: "request_head r i c mb w" and ok: "req_id_ok (cl_id c)"
    and rd: "read_request pl X r i cfg w = Some (Inr (req_id, m, meta, body), w')"
  shows "req_id = cl_id c" and "m = method_to_u8 (cl_method c)" and "meta = cl_meta c"
proof -
  have h: "meta_stored r Req i mb w" "length mb < 2 ^ 16" using hd by (simp_all add: request_head_def)
  have "request_from_bytes X mb = Inr (cl_meta c)" using pc vec by (simp add: postcard_documented_def)
  then have "req_id = decode_req_id (slice (slot_start i + 4) 36 (mem w (r_ptr r)))
      \<and> m = get_u8 (slot_start i + 40) (mem w (r_ptr r)) \<and> meta = cl_meta c"
    using rd by (auto simp: read_request_eq [OF cr i] heap_read_meta [OF cr i h] Let_def and_then_def
        split: bind_splits sum.splits)
  then show "req_id = cl_id c" "m = method_to_u8 (cl_method c)" "meta = cl_meta c"
    using hd decode_req_id_field [OF ok] by (simp_all add: request_head_def id_stored_def)
qed

lemma read_response_of_head:
  assumes pc: "postcard_documented X" and cr: "control_region r w" and i: "unat i < unat (r_num_slots r)"
    and vec: "response_to_vec X (rp_meta p) = Inr mb" and hd: "reply_head r i p mb w"
    and rd: "read_response pl X r i cfg w = Some (Inr (status, meta, body), w')"
  shows "status = rp_status p" and "meta = rp_meta p"
proof -
  have h: "meta_stored r Resp i mb w" "length mb < 2 ^ 16" using hd by (simp_all add: reply_head_def)
  have "response_from_bytes X mb = Inr (rp_meta p)" using pc vec by (simp add: postcard_documented_def)
  then have "status = get_u16 (slot_start i + 64) (mem w (r_ptr r)) \<and> meta = rp_meta p"
    using rd by (auto simp: read_response_eq [OF cr i] heap_read_meta [OF cr i h] Let_def and_then_def
        split: bind_splits sum.splits)
  then show "status = rp_status p" "meta = rp_meta p" using hd by (simp_all add: reply_head_def)
qed

lemma kept_affects:
  assumes "kept V UNIV w w'" and "0 < handles V w seg"
  shows "affects V seg A D w w'"
proof -
  have "mem w' seg = mem w seg" "0 < handles V w' seg" using keptD [OF assms(1) _ assms(2)] by simp_all
  moreover have "kept V (- insert seg D) w w'" using assms(1) by (rule kept_mono) simp
  ultimately show ?thesis by (simp add: affects_def)
qed

lemma same_layout_heads:
  assumes "same_layout q r"
  shows "request_head q i c mb w \<longleftrightarrow> request_head r i c mb w" and "reply_head q i p mb w \<longleftrightarrow> reply_head r i p mb w"
proof -
  have "r_ptr q = r_ptr r" "r_heap_offset q = r_heap_offset r" using assms by (simp_all add: same_layout_def)
  then show "request_head q i c mb w \<longleftrightarrow> request_head r i c mb w" and "reply_head q i p mb w \<longleftrightarrow> reply_head r i p mb w"
    by (simp_all add: request_head_def reply_head_def id_stored_def meta_stored_def same_layout_arena [OF assms])
qed

text \<open>The worker's read of a slot it claimed.\<close>

lemma claimed_slot:
  assumes sim: "simulates V pl X S \<sigma>" and th: "sy_threads \<sigma> t = Some (Reading i)"
  obtains c mb where "unat i < slots_of \<sigma>" and "sp_phase S i = Claimed c" and "request_to_vec X (cl_meta c) = Inr mb"
    and "call_ok X c" and "request_head (wk_region (sy_worker \<sigma>)) i c mb (sy_world \<sigma>)"
    and "\<not> sp_lost S i \<longrightarrow> (\<exists>ovf. request_stored V pl (wk_config (sy_worker \<sigma>)) (wk_region (sy_worker \<sigma>)) i (cl_id c)
      (method_to_u8 (cl_method c)) mb (cl_body c) ovf (sy_world \<sigma>))"
proof -
  let ?q = "wk_region (sy_worker \<sigma>)" and ?r = "bus_region (sy_bus \<sigma>)"
  note sD = simulatesD [OF sim] note L = linked_live [OF sD(2,1)]
  obtain c where i: "unat i < slots_of \<sigma>" and ph: "sp_phase S i = Claimed c"
    using thread_facts(1) [OF sim th] by (auto simp: activity_ok_def)
  have st: "call_stored V pl X (bus_config (sy_bus \<sigma>)) ?r i c (\<lambda>s. regions_of \<sigma> s i) (sp_lost S i) (sy_world \<sigma>)"
    using sim_slot [OF sim i] ph by (simp add: slot_matches_def)
  then obtain mb where m: "request_to_vec X (cl_meta c) = Inr mb" "call_ok X c" "request_head ?r i c mb (sy_world \<sigma>)"
    and body: "\<not> sp_lost S i \<longrightarrow> (\<exists>ovf. request_stored V pl (wk_config (sy_worker \<sigma>)) ?q i (cl_id c)
      (method_to_u8 (cl_method c)) mb (cl_body c) ovf (sy_world \<sigma>))"
    unfolding call_stored_def stored_names(1) [OF sD(2)] by blast
  have "same_layout ?q ?r" using sD(2) by (simp add: linked_def)
  then have "request_head ?q i c mb (sy_world \<sigma>)" using m(3) same_layout_heads(1) by blast
  then show ?thesis using that i ph m(1,2) body by blast
qed

lemma claimed_read:
  assumes doc: "shmem_documented X V" "postcard_documented X" and sim: "simulates V pl X S \<sigma>"
    and th: "sy_threads \<sigma> t = Some (Reading i)"
  obtains c res w where "unat i < slots_of \<sigma>" and "sp_phase S i = Claimed c"
    and "read_request pl X (wk_region (sy_worker \<sigma>)) i (wk_config (sy_worker \<sigma>)) (sy_world \<sigma>) = Some (res, w)"
    and "affects V (r_ptr (bus_region (sy_bus \<sigma>))) {} {} (sy_world \<sigma>) w"
    and "\<not> sp_lost S i \<longrightarrow> res = Inr (cl_id c, method_to_u8 (cl_method c), cl_meta c, cl_body c)"
    and "\<forall>req_id m meta body. res = Inr (req_id, m, meta, body) \<longrightarrow>
      reads_request (sp_lost S i) c (decode_request req_id m meta body)"
proof -
  let ?k = "sy_worker \<sigma>" and ?q = "wk_region (sy_worker \<sigma>)" and ?w = "sy_world \<sigma>"
  note sD = simulatesD [OF sim] note L = linked_live [OF sD(2,1)]
  obtain c mb where i: "unat i < slots_of \<sigma>" and ph: "sp_phase S i = Claimed c"
    and m: "request_to_vec X (cl_meta c) = Inr mb" "call_ok X c" "request_head ?q i c mb ?w"
    and body: "\<not> sp_lost S i \<longrightarrow> (\<exists>ovf. request_stored V pl (wk_config ?k) ?q i (cl_id c)
      (method_to_u8 (cl_method c)) mb (cl_body c) ovf ?w)"
    by (rule claimed_slot [OF sim th])
  have iq: "unat i < unat (r_num_slots ?q)" using i L by (simp add: slots_of_def)
  note cr = liveD(1) [OF L(1)]
  have ok: "req_id_ok (cl_id c)" using m(2) by (simp add: call_ok_def)
  have names: "names_total (request_overflow_name_gen pl (wk_config ?k) i)" "names_total (response_overflow_name_gen pl (wk_config ?k) i)"
    using sD(2) by (simp_all add: linked_def)
  obtain res w where rd: "read_request pl X ?q i (wk_config ?k) ?w = Some (res, w)" and kp: "kept V UNIV ?w w"
    using readers_total [OF doc(1) L(1) iq names] by blast
  have whole: "res = Inr (cl_id c, method_to_u8 (cl_method c), cl_meta c, cl_body c)" if "\<not> sp_lost S i"
    using body that read_request_stored [OF doc cr iq m(1)] rd decode_req_id_field [OF ok] by fastforce
  have "reads_request (sp_lost S i) c (decode_request req_id m' meta b)" if "res = Inr (req_id, m', meta, b)" for req_id m' meta b
  proof (cases "sp_lost S i")
    case True
    have "decode_request req_id m' meta b = (request_of c)\<lparr>rq_body := b\<rparr>"
      using read_request_of_head [OF doc(2) cr iq m(1,3) ok] rd that by (simp add: request_of_def decode_request_def)
    then show ?thesis using True by (auto simp: reads_request_def)
  next
    case False
    then show ?thesis using whole that by (simp add: reads_request_def request_of_def)
  qed
  then show ?thesis using that [OF i ph rd] whole kept_affects [OF kp liveD(3) [OF sD(1)]] by blast
qed

lemma deliver_simulated:
  assumes doc: "shmem_documented X V" "postcard_documented X" and sim: "simulates V pl X S \<sigma>"
    and th: "sy_threads \<sigma> t = Some (Reading i)"
    and rd: "read_request pl X (wk_region (sy_worker \<sigma>)) i (wk_config (sy_worker \<sigma>)) (sy_world \<sigma>)
      = Some (Inr (req_id, m, meta, body), w)"
  shows "\<exists>c. sp_phase S i = Claimed c \<and> reads_request (sp_lost S i) c (decode_request req_id m meta body)
    \<and> simulates V pl X S
        (\<sigma>\<lparr>sy_world := w, sy_threads := (sy_threads \<sigma>)(t \<mapsto> Handling i (decode_request req_id m meta body))\<rparr>)"
proof -
  let ?rq = "decode_request req_id m meta body"
  let ?\<sigma>' = "\<sigma>\<lparr>sy_world := w, sy_threads := (sy_threads \<sigma>)(t \<mapsto> Handling i ?rq)\<rparr>"
  note sD = simulatesD [OF sim]
  obtain c where i: "unat i < slots_of \<sigma>" and ph: "sp_phase S i = Claimed c" and eq: "reads_request (sp_lost S i) c ?rq"
    and af: "affects V (r_ptr (bus_region (sy_bus \<sigma>))) {} {} (sy_world \<sigma>) w"
    using claimed_read [OF doc sim th] rd by (metis option.inject prod.inject)
  have "threads_match (slots_of \<sigma>) X ((sp_phase S)(i := sp_phase S i)) ((sy_threads \<sigma>)(t \<mapsto> Handling i ?rq))"
    using i ph eq by (intro threads_update [OF sD(6) owner_alone [OF sD(6) th]]) (auto simp: activity_ok_def)
  moreover have "regions_of ?\<sigma>' = regions_of \<sigma>" using th by (simp add: owned_thread)
  ultimately have "simulates V pl X S ?\<sigma>'" using af sD(5,7) by (intro quiet_simulated [OF sim]) simp_all
  then show ?thesis using ph eq by blast
qed

lemma unread_simulated:
  assumes doc: "shmem_documented X V" "postcard_documented X" and sim: "simulates V pl X S \<sigma>"
    and th: "sy_threads \<sigma> t = Some (Reading i)"
    and rd: "read_request pl X (wk_region (sy_worker \<sigma>)) i (wk_config (sy_worker \<sigma>)) (sy_world \<sigma>) = Some (Inl e, w1)"
    and free: "store_status (wk_region (sy_worker \<sigma>)) i SLOT_FREE w1 = Some w"
  shows "\<exists>c. sp_phase S i = Claimed c \<and> sp_lost S i
    \<and> affects V (r_ptr (bus_region (sy_bus \<sigma>))) (status_area i) {} (sy_world \<sigma>) w
    \<and> simulates V pl X (set_phase i Free S) (\<sigma>\<lparr>sy_world := w, sy_threads := (sy_threads \<sigma>)(t := None)\<rparr>)"
proof -
  let ?\<sigma>' = "\<sigma>\<lparr>sy_world := w, sy_threads := (sy_threads \<sigma>)(t := None)\<rparr>" and ?r = "bus_region (sy_bus \<sigma>)"
  note sD = simulatesD [OF sim]
  obtain c res w' where i: "unat i < slots_of \<sigma>" and ph: "sp_phase S i = Claimed c"
    and rd': "read_request pl X (wk_region (sy_worker \<sigma>)) i (wk_config (sy_worker \<sigma>)) (sy_world \<sigma>) = Some (res, w')"
    and af': "affects V (r_ptr ?r) {} {} (sy_world \<sigma>) w'"
    and whole: "\<not> sp_lost S i \<longrightarrow> res = Inr (cl_id c, method_to_u8 (cl_method c), cl_meta c, cl_body c)"
    using claimed_read [OF doc sim th] by metis
  have lost: "sp_lost S i" and af1: "affects V (r_ptr ?r) {} {} (sy_world \<sigma>) w1" using whole af' rd rd' by auto
  note l1 = affects_live [OF sD(1) af1] note L = linked_live [OF sD(2) l1]
  have ir: "unat i < unat (r_num_slots ?r)" "unat i < unat (r_num_slots (wk_region (sy_worker \<sigma>)))"
    using i L by (simp_all add: slots_of_def)
  have w: "w = put (r_ptr ?r) (slot_start i) (le32 SLOT_FREE) w1"
    using free status_ops(2) [OF liveD(1) [OF L(1)] ir(2)] L(2) by simp
  note T = set_status_touches [OF doc(1) l1 ir(1), of SLOT_FREE, folded w]
  have af: "affects V (r_ptr ?r) (status_area i) {} (sy_world \<sigma>) w"
    using affects_mono [OF af1, of "status_area i" "{}"] touches_affects [OF T(1), of "{}"] by (auto intro: affects_trans)
  have own: "regions_of ?\<sigma>' = regions_of \<sigma>" using th by (simp add: owned_thread)
  have "nobody_else (sy_threads \<sigma>) t i" using thread_facts(2) [OF sim th] by simp
  then have "threads_match (slots_of \<sigma>) X ((sp_phase S)(i := Free)) ((sy_threads \<sigma>)(t := None))"
    by (intro threads_update [OF sD(6)]) auto
  then have "simulates V pl X (set_phase i Free S) ?\<sigma>'"
    using af own T(2) sD(5,7) regions_apart_affects [OF sD(3) af]
    by (intro simulates_step [OF sim i, where A = "status_area i" and D = "{}"])
      (auto simp: slot_area_def slot_matches_def set_phase_def)
  then show ?thesis using ph lost af by blast
qed

section \<open>Dispatch, between its claim and its registration\<close>

text \<open>A removal from one of the maps of overflow regions.\<close>

lemma forget_affects:
  assumes doc: "shmem_documented X V" and sim: "simulates V pl X S \<sigma>"
  shows "affects V (r_ptr (bus_region (sy_bus \<sigma>))) {} (seg_of (regions_of \<sigma> s i x)) (sy_world \<sigma>)
    (drop_opt X (regions_of \<sigma> s i x) (sy_world \<sigma>))"
  using regions_apartD(1,3) [OF simulatesD(3) [OF sim]] liveD(3) [OF simulatesD(1) [OF sim]]
  by (intro drop_affects [OF doc]) auto

lemma clear_simulated:
  assumes doc: "shmem_documented X V" and sim: "simulates V pl X S \<sigma>" and th: "sy_threads \<sigma> t = Some (Filling i c)"
    and fg: "bus_forget X i (sy_bus \<sigma>, sy_world \<sigma>) = (b, w)"
  shows "simulates V pl X S (\<sigma>\<lparr>sy_bus := b, sy_world := w, sy_threads := (sy_threads \<sigma>)(t \<mapsto> Cleared i c)\<rparr>)"
    and "spec_step S (dropped Req i (bus_overflow (sy_bus \<sigma>) i)) S"
proof -
  let ?\<sigma>' = "\<sigma>\<lparr>sy_bus := b, sy_world := w, sy_threads := (sy_threads \<sigma>)(t \<mapsto> Cleared i c)\<rparr>"
  note sD = simulatesD [OF sim]
  have i: "unat i < slots_of \<sigma>" and ph: "sp_phase S i = Writing" and c: "call_ok X c"
    using thread_facts(1) [OF sim th] by (simp_all add: activity_ok_def)
  have bw: "b = (sy_bus \<sigma>)\<lparr>bus_overflow := (bus_overflow (sy_bus \<sigma>))(i := None)\<rparr>"
    "w = drop_opt X (regions_of \<sigma> Req i None) (sy_world \<sigma>)"
    using fg by (simp_all add: bus_forget_def)
  have own: "regions_of ?\<sigma>' = put_region Req i None None (regions_of \<sigma>)"
    using th by (simp add: bw(1) owned_thread)
  have "threads_match (slots_of \<sigma>) X ((sp_phase S)(i := sp_phase S i)) ((sy_threads \<sigma>)(t \<mapsto> Cleared i c))"
    using i ph c thread_facts(2) [OF sim th] by (intro threads_update [OF sD(6)]) (auto simp: activity_ok_def)
  then have "simulates V pl X (after_drop Req i (regions_of \<sigma> Req i None) S) ?\<sigma>'"
    using forget_affects [OF doc sim, of Req i None] sD(7) own bw
    by (intro swap_simulated [OF sim i, where v = None]) simp_all
  then show "simulates V pl X S ?\<sigma>'" using ph by simp
  show "spec_step S (dropped Req i (bus_overflow (sy_bus \<sigma>) i)) S"
    using after_drop_step [of S Req i] ph by simp
qed

lemma write_simulated:
  assumes doc: "shmem_documented X V" and sim: "simulates V pl X S \<sigma>" and th: "sy_threads \<sigma> t = Some (Cleared i c)"
    and vec: "request_to_vec X (cl_meta c) = Inr mb"
  shows "\<exists>res w. write_request pl X (bus_region (sy_bus \<sigma>)) i (cl_id c) (method_to_u8 (cl_method c)) mb (cl_body c)
        (bus_config (sy_bus \<sigma>)) (sy_world \<sigma>) = Some (res, w)
    \<and> affects V (r_ptr (bus_region (sy_bus \<sigma>))) (request_area (bus_region (sy_bus \<sigma>)) i \<union> status_area i) {} (sy_world \<sigma>) w
    \<and> (payload_fits (bus_region (sy_bus \<sigma>)) Req i mb (cl_body c) \<longrightarrow> res = Inr None)
    \<and> (case res of
         Inl e \<Rightarrow> simulates V pl X (set_phase i Free S) (\<sigma>\<lparr>sy_world := w, sy_threads := (sy_threads \<sigma>)(t := None)\<rparr>)
       | Inr ovf \<Rightarrow> simulates V pl X (put_message i (Ready c) S)
           (\<sigma>\<lparr>sy_world := w, sy_threads := (sy_threads \<sigma>)(t \<mapsto> Keeping i c ovf)\<rparr>))"
proof -
  let ?b = "sy_bus \<sigma>" and ?w = "sy_world \<sigma>" and ?r = "bus_region (sy_bus \<sigma>)" and ?A = "request_area (bus_region (sy_bus \<sigma>)) i \<union> status_area i"
  note sD = simulatesD [OF sim]
  have i: "unat i < slots_of \<sigma>" and ph: "sp_phase S i = Writing" and c: "call_ok X c"
    using thread_facts(1) [OF sim th] by (simp_all add: activity_ok_def)
  have ir: "unat i < unat (r_num_slots ?r)" using i by (simp add: slots_of_def)
  have lens: "length mb < 2 ^ 16" "length (cl_body c) < 2 ^ 32" "slice_len_ok mb" "slice_len_ok (cl_body c)"
    using c vec by (auto simp: call_ok_def slice_len_ok_def)
  have names: "names_total (request_overflow_name_gen pl (bus_config ?b) i)" using sD(2) by (simp add: linked_def)
  obtain res w where wr: "write_request pl X ?r i (cl_id c) (method_to_u8 (cl_method c)) mb (cl_body c)
      (bus_config ?b) ?w = Some (res, w)"
    and t: "touches V (r_ptr ?r) ?A ?w w" and inl: "payload_fits ?r Req i mb (cl_body c) \<longrightarrow> res = Inr None"
    and new: "\<And>o1. res = Inr (Some o1) \<Longrightarrow> fresh_handle V o1 ?w w"
    and R: "case res of Inl e \<Rightarrow> status_at ?r i w = SLOT_FREE
      | Inr ovf \<Rightarrow> status_at ?r i w = SLOT_READY \<and> meta_stored ?r Req i mb w
          \<and> (length mb < 2 ^ 16 \<longrightarrow> length (cl_body c) < 2 ^ 32 \<longrightarrow> request_stored V pl (bus_config ?b) ?r i (cl_id c)
            (method_to_u8 (cl_method c)) mb (cl_body c) ovf w)"
    using write_request_result [OF doc sD(1) ir lens(3,4) names, of "cl_id c" "method_to_u8 (cl_method c)"]
    by (elim exE conjE) blast
  have af: "affects V (r_ptr ?r) ?A {} ?w w" using t by (rule touches_affects)
  have nobody: "nobody_else (sy_threads \<sigma>) t i" using thread_facts(2) [OF sim th] by simp
  have "case res of
         Inl e \<Rightarrow> simulates V pl X (set_phase i Free S) (\<sigma>\<lparr>sy_world := w, sy_threads := (sy_threads \<sigma>)(t := None)\<rparr>)
       | Inr ovf \<Rightarrow> simulates V pl X (put_message i (Ready c) S)
           (\<sigma>\<lparr>sy_world := w, sy_threads := (sy_threads \<sigma>)(t \<mapsto> Keeping i c ovf)\<rparr>)"
  proof (cases res)
    case (Inl e)
    let ?\<sigma>' = "\<sigma>\<lparr>sy_world := w, sy_threads := (sy_threads \<sigma>)(t := None)\<rparr>"
    have own: "regions_of ?\<sigma>' = regions_of \<sigma>" using th by (simp add: owned_thread)
    have "threads_match (slots_of \<sigma>) X ((sp_phase S)(i := Free)) ((sy_threads \<sigma>)(t := None))"
      by (intro threads_update [OF sD(6) nobody]) auto
    then have "simulates V pl X (set_phase i Free S) ?\<sigma>'"
      using af own R Inl sD(5,7) regions_apart_affects [OF sD(3) af]
      by (intro simulates_step [OF sim i, where A = ?A and D = "{}"]) (auto simp: slot_area_def slot_matches_def set_phase_def)
    then show ?thesis using Inl by simp
  next
    case (Inr ovf)
    let ?\<sigma>' = "\<sigma>\<lparr>sy_world := w, sy_threads := (sy_threads \<sigma>)(t \<mapsto> Keeping i c ovf)\<rparr>"
    have own: "regions_of ?\<sigma>' = put_region Req i (Some t) ovf (regions_of \<sigma>)" using th by (simp add: owned_taken)
    have st: "request_stored V pl (bus_config ?b) ?r i (cl_id c) (method_to_u8 (cl_method c)) mb (cl_body c) ovf w"
      "status_at ?r i w = SLOT_READY" "meta_stored ?r Req i mb w"
      using R Inr lens(1,2) by simp_all
    then have hd: "request_head ?r i c mb w"
      using lens(1) by (simp add: request_head_def id_stored_def request_stored_def)
    have "carried (\<lambda>s. regions_of ?\<sigma>' s i) Req ovf" unfolding own carried_def by (auto intro: exI [of _ "Some t"])
    then have m: "slot_matches V pl X (bus_config ?b) ?r (\<lambda>s. regions_of ?\<sigma>' s i) w i False (Ready c)"
      using st hd c vec unfolding slot_matches_def call_stored_def by auto
    have ap: "regions_apart V (r_ptr ?r) (regions_of ?\<sigma>') w"
      unfolding own by (rule regions_apart_keep [OF sD(3) t new liveD(3) [OF sD(1)]]) (use Inr th in simp_all)
    have "threads_match (slots_of \<sigma>) X ((sp_phase S)(i := Ready c)) ((sy_threads \<sigma>)(t \<mapsto> Keeping i c ovf))"
      using i by (intro threads_update [OF sD(6) nobody]) (auto simp: activity_ok_def)
    then have "simulates V pl X (put_message i (Ready c) S) ?\<sigma>'"
      using af ap m own sD(5,7)
      by (intro simulates_step [OF sim i, where A = ?A and D = "{}"]) (auto simp: slot_area_def put_message_def set_phase_def)
    then show ?thesis using Inr by simp
  qed
  then show ?thesis using wr inl af by blast
qed

text \<open>An insertion into one of the maps.\<close>

definition after_keep :: "shm_region option \<Rightarrow> side \<Rightarrow> usize \<Rightarrow> shm_region option \<Rightarrow> spec \<Rightarrow> spec" where
  "after_keep new s i ovf S = (if new = None then S else after_drop s i ovf S)"

lemma after_keep_step: "spec_step S (replaced new s i ovf) (after_keep new s i ovf S)"
  by (simp add: replaced_def after_keep_def sp_idle after_drop_step)

lemma after_keep_simps [simp]:
  "after_keep None s i ovf S = S" "after_keep new s i None S = S" "sp_phase (after_keep new s i ovf S) = sp_phase S"
  "sp_pending (after_keep new s i ovf S) = sp_pending S" "sp_taken (after_keep new s i ovf S) = sp_taken S"
  by (simp_all add: after_keep_def)

lemma keep_simulated:
  assumes doc: "shmem_documented X V" and sim: "simulates V pl X S \<sigma>" and th: "sy_threads \<sigma> t = Some (Keeping i c ovf)"
    and kp: "bus_keep X i ovf (sy_bus \<sigma>, sy_world \<sigma>) = (b, w)"
  shows "simulates V pl X (after_keep ovf Req i (bus_overflow (sy_bus \<sigma>) i) S)
    (\<sigma>\<lparr>sy_bus := b, sy_world := w, sy_threads := (sy_threads \<sigma>)(t \<mapsto> Registering c)\<rparr>)"
proof -
  let ?\<sigma>' = "\<sigma>\<lparr>sy_bus := b, sy_world := w, sy_threads := (sy_threads \<sigma>)(t \<mapsto> Registering c)\<rparr>"
  note sD = simulatesD [OF sim]
  have i: "unat i < slots_of \<sigma>" using thread_facts(1) [OF sim th] by (simp add: activity_ok_def)
  have th': "threads_match (slots_of \<sigma>) X (sp_phase S) ((sy_threads \<sigma>)(t \<mapsto> Registering c))"
    using sD(6) unfolding threads_match_def by (auto simp: activity_ok_def split: if_splits)
  show ?thesis
  proof (cases ovf)
    case None
    then have "b = sy_bus \<sigma>" "w = sy_world \<sigma>" using kp by (simp_all add: bus_keep_def)
    moreover have "simulates V pl X S (\<sigma>\<lparr>sy_threads := (sy_threads \<sigma>)(t \<mapsto> Registering c)\<rparr>)"
      using th None th' by (intro thread_moves [OF sim]) simp_all
    ultimately show ?thesis using None by simp
  next
    case (Some o1)
    have bw: "b = (sy_bus \<sigma>)\<lparr>bus_overflow := (bus_overflow (sy_bus \<sigma>))(i \<mapsto> o1)\<rparr>"
      "w = drop_opt X (regions_of \<sigma> Req i None) (sy_world \<sigma>)"
      using kp Some by (simp_all add: bus_keep_def)
    have "regions_of ?\<sigma>' = put_region Req i None ovf (put_region Req i (Some t) None (regions_of \<sigma>))"
      using owned_left(1) [where a = "Some (Registering c)" and th = "sy_threads \<sigma>" and t = t, OF _ th] Some
      by (simp add: bw(1) put_region_swap [of "Some t" None])
    then have "simulates V pl X (after_drop Req i (regions_of \<sigma> Req i None) S) ?\<sigma>'"
      using forget_affects [OF doc sim, of Req i None] sD(7) bw th th' Some
      by (intro swap_simulated [OF sim i, where v = ovf and t = t]) simp_all
    then show ?thesis using Some by (simp add: after_keep_def)
  qed
qed

text \<open>The three stages in one go.\<close>

lemma fill_simulated:
  assumes doc: "shmem_documented X V" and sim: "simulates V pl X S \<sigma>"
    and th: "sy_threads \<sigma> t = Some (Filling i c)" and vec: "request_to_vec X (cl_meta c) = Inr mb"
  shows "\<exists>res b w. fill pl X i c \<sigma> = Some (res, b, w)
    \<and> (payload_fits (bus_region (sy_bus \<sigma>)) Req i mb (cl_body c) \<longrightarrow> res = Inr ())
    \<and> (\<forall>a. (\<forall>x. a = Some x \<longrightarrow> slot_of x = None \<and> (\<forall>j. activity_ok (slots_of \<sigma>) X j x)) \<longrightarrow> (\<forall>s i. hands a s i = None) \<longrightarrow>
        simulates V pl X (case res of Inl e \<Rightarrow> set_phase i Free S | Inr u \<Rightarrow> put_message i (Ready c) S)
          (\<sigma>\<lparr>sy_bus := b, sy_world := w, sy_threads := (sy_threads \<sigma>)(t := a)\<rparr>))"
proof -
  obtain b1 w1 where fg: "bus_forget X i (sy_bus \<sigma>, sy_world \<sigma>) = (b1, w1)" by fastforce
  then have b1: "bus_region b1 = bus_region (sy_bus \<sigma>)" "bus_config b1 = bus_config (sy_bus \<sigma>)" "bus_overflow b1 i = None"
    by (auto simp: bus_forget_def)
  let ?\<sigma>1 = "\<sigma>\<lparr>sy_bus := b1, sy_world := w1, sy_threads := (sy_threads \<sigma>)(t \<mapsto> Cleared i c)\<rparr>"
  note sim1 = clear_simulated(1) [OF doc sim th fg]
  have th1: "sy_threads ?\<sigma>1 t = Some (Cleared i c)" and n1: "slots_of ?\<sigma>1 = slots_of \<sigma>" using b1 by (simp_all add: slots_of_def)
  from write_simulated [OF doc sim1 th1 vec]
  obtain res w2 where wr: "write_request pl X (bus_region b1) i (cl_id c) (method_to_u8 (cl_method c)) mb (cl_body c)
        (bus_config b1) w1 = Some (res, w2)"
    and inl: "payload_fits (bus_region (sy_bus \<sigma>)) Req i mb (cl_body c) \<longrightarrow> res = Inr None"
    and R: "case res of
         Inl e \<Rightarrow> simulates V pl X (set_phase i Free S) (?\<sigma>1\<lparr>sy_world := w2, sy_threads := (sy_threads ?\<sigma>1)(t := None)\<rparr>)
       | Inr ovf \<Rightarrow> simulates V pl X (put_message i (Ready c) S)
           (?\<sigma>1\<lparr>sy_world := w2, sy_threads := (sy_threads ?\<sigma>1)(t \<mapsto> Keeping i c ovf)\<rparr>)"
    using b1 by auto
  have moves: "simulates V pl X S' (\<tau>\<lparr>sy_threads := (sy_threads \<tau>)(t := a)\<rparr>)"
    if "simulates V pl X S' \<tau>" "slots_of \<tau> = slots_of \<sigma>" "\<forall>s i. hands (sy_threads \<tau> t) s i = None" "\<forall>s i. hands a s i = None"
      "\<forall>x. a = Some x \<longrightarrow> slot_of x = None \<and> (\<forall>j. activity_ok (slots_of \<sigma>) X j x)" for S' \<tau> a
  proof (rule thread_moves [OF that(1)])
    show "threads_match (slots_of \<tau>) X (sp_phase S') ((sy_threads \<tau>)(t := a))"
      using simulatesD(6) [OF that(1)] that(2,5) unfolding threads_match_def by (auto split: if_splits)
  qed (use that(3,4) in simp)
  show ?thesis
  proof (cases res)
    case (Inl e)
    let ?\<sigma>2 = "\<sigma>\<lparr>sy_bus := b1, sy_world := w2, sy_threads := (sy_threads \<sigma>)(t := None)\<rparr>"
    have f: "fill pl X i c \<sigma> = Some (Inl e, b1, w2)"
      using wr Inl vec fg by (simp add: fill_def dispatch_fill_def lift_postcard_def and_then_def)
    have "simulates V pl X (set_phase i Free S) ?\<sigma>2" using R Inl by simp
    from moves [OF this] have "simulates V pl X (set_phase i Free S) (\<sigma>\<lparr>sy_bus := b1, sy_world := w2, sy_threads := (sy_threads \<sigma>)(t := a)\<rparr>)"
      if "\<forall>x. a = Some x \<longrightarrow> slot_of x = None \<and> (\<forall>j. activity_ok (slots_of \<sigma>) X j x)" "\<forall>s i. hands a s i = None" for a
      using that b1 by (simp add: slots_of_def)
    then show ?thesis using f inl Inl by auto
  next
    case (Inr ovf)
    let ?\<sigma>2 = "\<sigma>\<lparr>sy_bus := b1, sy_world := w2, sy_threads := (sy_threads \<sigma>)(t \<mapsto> Keeping i c ovf)\<rparr>"
    obtain b3 w3 where kp: "bus_keep X i ovf (b1, w2) = (b3, w3)" by fastforce
    then have b3: "bus_region b3 = bus_region (sy_bus \<sigma>)" using b1 by (auto simp: bus_keep_def split: option.splits)
    have f: "fill pl X i c \<sigma> = Some (Inr (), b3, w3)"
      using wr Inr vec fg kp by (simp add: fill_def dispatch_fill_def lift_postcard_def and_then_def)
    have sim2: "simulates V pl X (put_message i (Ready c) S) ?\<sigma>2" using R Inr by simp
    have th2: "sy_threads ?\<sigma>2 t = Some (Keeping i c ovf)" by simp
    let ?\<sigma>3 = "\<sigma>\<lparr>sy_bus := b3, sy_world := w3, sy_threads := (sy_threads \<sigma>)(t \<mapsto> Registering c)\<rparr>"
    have "simulates V pl X (put_message i (Ready c) S) ?\<sigma>3" using keep_simulated [OF doc sim2 th2, of b3 w3] kp b1(3) by simp
    from moves [OF this] have "simulates V pl X (put_message i (Ready c) S) (\<sigma>\<lparr>sy_bus := b3, sy_world := w3, sy_threads := (sy_threads \<sigma>)(t := a)\<rparr>)"
      if "\<forall>x. a = Some x \<longrightarrow> slot_of x = None \<and> (\<forall>j. activity_ok (slots_of \<sigma>) X j x)" "\<forall>s i. hands a s i = None" for a
      using that b3 by (simp add: slots_of_def)
    then show ?thesis using f by auto
  qed
qed

lemma register_simulated:
  assumes sep: "events_separate E V" and sim: "simulates V pl X S \<sigma>"
    and th: "sy_threads \<sigma> t = Some (Registering c)"
    and reg: "dispatch_register E (cl_id c) (cl_method c) (cl_meta c) (sy_bus \<sigma>, sy_world \<sigma>) = (Inr ch, b, w)"
  shows "simulates V pl X (S\<lparr>sp_pending := (sp_pending S)(cl_id c \<mapsto> ch)\<rparr>)
    (\<sigma>\<lparr>sy_bus := b, sy_world := w, sy_threads := (sy_threads \<sigma>)(t := None)\<rparr>)"
proof -
  let ?\<sigma>' = "\<sigma>\<lparr>sy_bus := b, sy_world := w, sy_threads := (sy_threads \<sigma>)(t := None)\<rparr>"
  note sD = simulatesD [OF sim]
  have b: "bus_region b = bus_region (sy_bus \<sigma>)" "bus_config b = bus_config (sy_bus \<sigma>)" "bus_overflow b = bus_overflow (sy_bus \<sigma>)"
    "bus_pending b = (bus_pending (sy_bus \<sigma>))(cl_id c \<mapsto> (instant_now E (sy_world \<sigma>), cl_method c @ '' '' @ path (cl_meta c), ch))"
    "w = event_signal E (bus_req_event (sy_bus \<sigma>)) (sy_world \<sigma>)"
    using reg by (auto simp: dispatch_register_def Let_def)
  have af: "affects V (r_ptr (bus_region (sy_bus \<sigma>))) {} {} (sy_world \<sigma>) w"
    using signal_affects [OF sep liveD(3) [OF sD(1)]] b(5) by simp
  have "owned b (sy_worker \<sigma>) (sy_threads \<sigma>) = regions_of \<sigma>" using b(3) by (intro owned_bookkeeping) simp_all
  then have "regions_of ?\<sigma>' = regions_of \<sigma>" using th by (simp add: owned_thread)
  then show ?thesis
    using b af sD(5,7) threads_leave [OF sD(6), of t]
    by (intro quiet_simulated [OF sim]) (auto simp: fun_eq_iff)
qed

section \<open>Answering\<close>

lemma empty_simulated:
  assumes doc: "shmem_documented X V" and sim: "simulates V pl X S \<sigma>" and th: "sy_threads \<sigma> t = Some (Handling i rq)"
    and ok: "reply_ok X p" and fg: "worker_forget X i (sy_worker \<sigma>, sy_world \<sigma>) = (k, w)"
  shows "simulates V pl X S (\<sigma>\<lparr>sy_worker := k, sy_world := w, sy_threads := (sy_threads \<sigma>)(t \<mapsto> Answering i p)\<rparr>)"
    and "spec_step S (dropped Resp i (wk_overflow (sy_worker \<sigma>) i)) S"
proof -
  let ?\<sigma>' = "\<sigma>\<lparr>sy_worker := k, sy_world := w, sy_threads := (sy_threads \<sigma>)(t \<mapsto> Answering i p)\<rparr>"
  note sD = simulatesD [OF sim]
  obtain c where i: "unat i < slots_of \<sigma>" and ph: "sp_phase S i = Claimed c"
    using thread_facts(1) [OF sim th] by (auto simp: activity_ok_def)
  have kw: "k = (sy_worker \<sigma>)\<lparr>wk_overflow := (wk_overflow (sy_worker \<sigma>))(i := None)\<rparr>"
    "w = drop_opt X (regions_of \<sigma> Resp i None) (sy_world \<sigma>)"
    using fg by (simp_all add: worker_forget_def)
  have own: "regions_of ?\<sigma>' = put_region Resp i None None (regions_of \<sigma>)"
    using th by (simp add: kw(1) owned_thread)
  have "threads_match (slots_of \<sigma>) X ((sp_phase S)(i := sp_phase S i)) ((sy_threads \<sigma>)(t \<mapsto> Answering i p))"
    using i ph ok thread_facts(2) [OF sim th] by (intro threads_update [OF sD(6)]) (auto simp: activity_ok_def)
  then have "simulates V pl X (after_drop Resp i (regions_of \<sigma> Resp i None) S) ?\<sigma>'"
    using forget_affects [OF doc sim, of Resp i None] sD(7) own kw
    by (intro swap_simulated [OF sim i, where v = None]) simp_all
  then show "simulates V pl X S ?\<sigma>'" using ph by simp
  show "spec_step S (dropped Resp i (wk_overflow (sy_worker \<sigma>) i)) S"
    using after_drop_step [of S Resp i] ph by simp
qed

text \<open>Writing the response, or freeing the slot when it does not fit.\<close>

lemma response_written:
  assumes doc: "shmem_documented X V" and sim: "simulates V pl X S \<sigma>" and i: "unat i < slots_of \<sigma>"
    and ok: "reply_ok X p" and vec: "response_to_vec X (rp_meta p) = Inr mb"
  shows "\<exists>res w1 w2. write_response pl X (wk_region (sy_worker \<sigma>)) i (rp_status p) mb (rp_body p)
        (wk_config (sy_worker \<sigma>)) (sy_world \<sigma>) = Some (res, w1)
    \<and> (case res of Inr ovf \<Rightarrow> w2 = w1 | Inl e \<Rightarrow> store_status (wk_region (sy_worker \<sigma>)) i SLOT_FREE w1 = Some w2)
    \<and> touches V (r_ptr (bus_region (sy_bus \<sigma>))) (response_area (bus_region (sy_bus \<sigma>)) i \<union> status_area i) (sy_world \<sigma>) w2
    \<and> (payload_fits (wk_region (sy_worker \<sigma>)) Resp i mb (rp_body p) \<longrightarrow> res = Inr None)
    \<and> (\<forall>o1. res = Inr (Some o1) \<longrightarrow> fresh_handle V o1 (sy_world \<sigma>) w2)
    \<and> (case res of
         Inl e \<Rightarrow> status_at (bus_region (sy_bus \<sigma>)) i w2 = SLOT_FREE
       | Inr ovf \<Rightarrow> status_at (bus_region (sy_bus \<sigma>)) i w2 = SLOT_DONE \<and> reply_head (bus_region (sy_bus \<sigma>)) i p mb w2
           \<and> response_stored V pl (bus_config (sy_bus \<sigma>)) (bus_region (sy_bus \<sigma>)) i (rp_status p) mb (rp_body p) ovf w2)"
proof -
  let ?b = "sy_bus \<sigma>" and ?k = "sy_worker \<sigma>" and ?r = "bus_region (sy_bus \<sigma>)" and ?q = "wk_region (sy_worker \<sigma>)"
  note sD = simulatesD [OF sim] note L = linked_live [OF sD(2,1)]
  have iq: "unat i < unat (r_num_slots ?q)" using i L by (simp add: slots_of_def)
  have lens: "length mb < 2 ^ 16" "length (rp_body p) < 2 ^ 32" "slice_len_ok mb" "slice_len_ok (rp_body p)"
    using ok vec by (auto simp: reply_ok_def slice_len_ok_def)
  have names: "names_total (response_overflow_name_gen pl (wk_config ?k) i)" using sD(2) by (simp add: linked_def)
  obtain res w1 where wr: "write_response pl X ?q i (rp_status p) mb (rp_body p) (wk_config ?k) (sy_world \<sigma>) = Some (res, w1)"
    and inl: "payload_fits ?q Resp i mb (rp_body p) \<longrightarrow> res = Inr None"
    and new: "\<forall>o1. res = Inr (Some o1) \<longrightarrow> fresh_handle V o1 (sy_world \<sigma>) w1"
    and R: "case res of Inl e \<Rightarrow> touches V (r_ptr ?q) (response_area ?q i) (sy_world \<sigma>) w1
      | Inr ovf \<Rightarrow> touches V (r_ptr ?q) (response_area ?q i \<union> status_area i) (sy_world \<sigma>) w1
           \<and> status_at ?q i w1 = SLOT_DONE \<and> meta_stored ?q Resp i mb w1
           \<and> (length mb < 2 ^ 16 \<longrightarrow> length (rp_body p) < 2 ^ 32 \<longrightarrow>
               response_stored V pl (wk_config ?k) ?q i (rp_status p) mb (rp_body p) ovf w1)"
    using write_response_result [OF doc L(1) iq lens(3,4) names, of "rp_status p"] by (elim exE conjE) blast
  show ?thesis
  proof (cases res)
    case (Inl e)
    then have t2: "touches V (r_ptr ?r) (response_area ?r i) (sy_world \<sigma>) w1" using R L by simp
    have l2: "live V ?q w1" using live_touches [OF L(1), of "response_area ?r i" w1] t2 L by simp
    let ?w3 = "put (r_ptr ?q) (slot_start i) (le32 SLOT_FREE) w1"
    note T = set_status_touches [OF doc l2 iq, of SLOT_FREE]
    have "touches V (r_ptr ?r) (response_area ?r i \<union> status_area i) (sy_world \<sigma>) ?w3"
    proof (rule touches_trans)
      show "touches V (r_ptr ?r) (response_area ?r i \<union> status_area i) (sy_world \<sigma>) w1" using t2 by (rule touches_mono) blast
      show "touches V (r_ptr ?r) (response_area ?r i \<union> status_area i) w1 ?w3"
        using T(1) unfolding L(2) by (rule touches_mono) blast
    qed
    then show ?thesis
      using wr Inl T(2) status_ops(2) [OF liveD(1) [OF l2] iq] L(2) inl
      by (intro exI [of _ "Inl e"] exI [of _ w1] exI [of _ ?w3]) simp
  next
    case (Inr ovf)
    then have st: "response_stored V pl (wk_config ?k) ?q i (rp_status p) mb (rp_body p) ovf w1" "meta_stored ?q Resp i mb w1"
      using R lens(1,2) by simp_all
    have "reply_head ?q i p mb w1" using st lens(1) by (simp add: reply_head_def response_stored_def)
    then have "reply_head ?r i p mb w1" using same_layout_heads(2) sD(2) unfolding linked_def by blast
    moreover have "response_stored V pl (bus_config ?b) ?r i (rp_status p) mb (rp_body p) ovf w1"
      using st(1) stored_names(2) [OF sD(2)] by blast
    ultimately show ?thesis using wr Inr R L new inl by (intro exI [of _ "Inr ovf"] exI [of _ w1]) simp
  qed
qed

lemma answer_simulated:
  assumes doc: "shmem_documented X V" and sim: "simulates V pl X S \<sigma>" and th: "sy_threads \<sigma> t = Some (Answering i p)"
    and vec: "response_to_vec X (rp_meta p) = Inr mb"
  shows "\<exists>c res w1 w2. sp_phase S i = Claimed c \<and> write_response pl X (wk_region (sy_worker \<sigma>)) i (rp_status p) mb (rp_body p)
        (wk_config (sy_worker \<sigma>)) (sy_world \<sigma>) = Some (res, w1)
    \<and> (payload_fits (wk_region (sy_worker \<sigma>)) Resp i mb (rp_body p) \<longrightarrow> res = Inr None)
    \<and> (case res of
         Inl e \<Rightarrow> store_status (wk_region (sy_worker \<sigma>)) i SLOT_FREE w1 = Some w2
           \<and> simulates V pl X (set_phase i Free S) (\<sigma>\<lparr>sy_world := w2, sy_threads := (sy_threads \<sigma>)(t := None)\<rparr>)
       | Inr ovf \<Rightarrow> w2 = w1
           \<and> simulates V pl X (put_message i (Done c p) S)
               (\<sigma>\<lparr>sy_world := w1, sy_threads := (sy_threads \<sigma>)(t \<mapsto> Replying i ovf)\<rparr>))"
proof -
  let ?b = "sy_bus \<sigma>" and ?w = "sy_world \<sigma>" and ?r = "bus_region (sy_bus \<sigma>)"
  let ?A = "response_area (bus_region (sy_bus \<sigma>)) i \<union> status_area i"
  note sD = simulatesD [OF sim]
  obtain c where i: "unat i < slots_of \<sigma>" and ph: "sp_phase S i = Claimed c" and ok: "reply_ok X p"
    using thread_facts(1) [OF sim th] by (auto simp: activity_ok_def)
  have ir: "unat i < unat (r_num_slots ?r)" using i by (simp add: slots_of_def)
  obtain res w1 w2 where wr: "write_response pl X (wk_region (sy_worker \<sigma>)) i (rp_status p) mb (rp_body p)
        (wk_config (sy_worker \<sigma>)) ?w = Some (res, w1)"
    and w2: "case res of Inr ovf \<Rightarrow> w2 = w1 | Inl e \<Rightarrow> store_status (wk_region (sy_worker \<sigma>)) i SLOT_FREE w1 = Some w2"
    and t: "touches V (r_ptr ?r) ?A ?w w2"
    and inl: "payload_fits (wk_region (sy_worker \<sigma>)) Resp i mb (rp_body p) \<longrightarrow> res = Inr None"
    and new: "\<forall>o1. res = Inr (Some o1) \<longrightarrow> fresh_handle V o1 ?w w2"
    and R: "case res of
         Inl e \<Rightarrow> status_at ?r i w2 = SLOT_FREE
       | Inr ovf \<Rightarrow> status_at ?r i w2 = SLOT_DONE \<and> reply_head ?r i p mb w2
           \<and> response_stored V pl (bus_config ?b) ?r i (rp_status p) mb (rp_body p) ovf w2"
    using response_written [OF doc sim i ok vec] by (elim exE conjE) blast
  have af: "affects V (r_ptr ?r) ?A {} ?w w2" using t by (rule touches_affects)
  have nobody: "nobody_else (sy_threads \<sigma>) t i" using thread_facts(2) [OF sim th] by simp
  show ?thesis
  proof (cases res)
    case (Inl e)
    let ?\<sigma>' = "\<sigma>\<lparr>sy_world := w2, sy_threads := (sy_threads \<sigma>)(t := None)\<rparr>"
    have own: "regions_of ?\<sigma>' = regions_of \<sigma>" using th by (simp add: owned_thread)
    have "threads_match (slots_of \<sigma>) X ((sp_phase S)(i := Free)) ((sy_threads \<sigma>)(t := None))"
      by (intro threads_update [OF sD(6) nobody]) auto
    then have "simulates V pl X (set_phase i Free S) ?\<sigma>'"
      using af own R Inl sD(5,7) regions_apart_affects [OF sD(3) af]
      by (intro simulates_step [OF sim i, where A = ?A and D = "{}"]) (auto simp: slot_area_def slot_matches_def set_phase_def)
    then show ?thesis using Inl wr w2 inl ph by (intro exI [of _ c] exI [of _ res] exI [of _ w1] exI [of _ w2]) simp
  next
    case (Inr ovf)
    let ?\<sigma>' = "\<sigma>\<lparr>sy_world := w2, sy_threads := (sy_threads \<sigma>)(t \<mapsto> Replying i ovf)\<rparr>"
    have own: "regions_of ?\<sigma>' = put_region Resp i (Some t) ovf (regions_of \<sigma>)" using th by (simp add: owned_taken)
    have st: "response_stored V pl (bus_config ?b) ?r i (rp_status p) mb (rp_body p) ovf w2" "status_at ?r i w2 = SLOT_DONE"
      "reply_head ?r i p mb w2" using R Inr by simp_all
    have "call_stored V pl X (bus_config ?b) ?r i c (\<lambda>s. regions_of \<sigma> s i) (sp_lost S i) ?w"
      using sim_slot [OF sim i] ph by (simp add: slot_matches_def)
    then have ids: "call_ok X c" "id_stored ?r i (cl_id c) ?w" by (auto simp: call_stored_def request_head_def)
    have "?A \<inter> request_area ?r i = {}" using areas_disjoint(1,4) [OF liveD(1) [OF sD(1)] ir ir] by auto
    then have "id_stored ?r i (cl_id c) w2"
      by (rule id_stored_frame [OF ids(2) liveD(1) [OF sD(1)] ir touches_bytes [OF t]])
    moreover have "carried (\<lambda>s. regions_of ?\<sigma>' s i) Resp ovf" unfolding own carried_def by (auto intro: exI [of _ "Some t"])
    ultimately have m: "slot_matches V pl X (bus_config ?b) ?r (\<lambda>s. regions_of ?\<sigma>' s i) w2 i False (Done c p)"
      using st ids(1) vec unfolding slot_matches_def reply_stored_def by auto
    have ap: "regions_apart V (r_ptr ?r) (regions_of ?\<sigma>') w2"
      unfolding own by (rule regions_apart_keep [OF sD(3) t _ liveD(3) [OF sD(1)]]) (use Inr th new in simp_all)
    have "threads_match (slots_of \<sigma>) X ((sp_phase S)(i := Done c p)) ((sy_threads \<sigma>)(t \<mapsto> Replying i ovf))"
      using i by (intro threads_update [OF sD(6) nobody]) (auto simp: activity_ok_def)
    then have "simulates V pl X (put_message i (Done c p) S) ?\<sigma>'"
      using af ap m own sD(5,7)
      by (intro simulates_step [OF sim i, where A = ?A and D = "{}"]) (auto simp: slot_area_def put_message_def set_phase_def)
    then show ?thesis using Inr wr w2 inl ph by (intro exI [of _ c] exI [of _ res] exI [of _ w1]) simp
  qed
qed

lemma store_simulated:
  assumes doc: "shmem_documented X V" and sep: "events_separate E V" and sim: "simulates V pl X S \<sigma>"
    and th: "sy_threads \<sigma> t = Some (Replying i ovf)"
    and kp: "worker_keep X i ovf (sy_worker \<sigma>, sy_world \<sigma>) = (k, w)"
  shows "simulates V pl X (after_keep ovf Resp i (wk_overflow (sy_worker \<sigma>) i) S)
    (\<sigma>\<lparr>sy_worker := k, sy_world := event_signal E ev w, sy_threads := (sy_threads \<sigma>)(t := None)\<rparr>)"
proof -
  let ?p = "r_ptr (bus_region (sy_bus \<sigma>))"
  let ?\<sigma>' = "\<sigma>\<lparr>sy_worker := k, sy_world := event_signal E ev w, sy_threads := (sy_threads \<sigma>)(t := None)\<rparr>"
  note sD = simulatesD [OF sim] note th' = threads_leave [OF sD(6), of t]
  have i: "unat i < slots_of \<sigma>" using thread_facts(1) [OF sim th] by (simp add: activity_ok_def)
  show ?thesis
  proof (cases ovf)
    case None
    then have kw: "k = sy_worker \<sigma>" "w = sy_world \<sigma>" using kp by (simp_all add: worker_keep_def)
    have "regions_of ?\<sigma>' = regions_of \<sigma>" using th None by (simp add: kw owned_thread)
    then have "simulates V pl X S ?\<sigma>'"
      using kw signal_affects [OF sep liveD(3) [OF sD(1)]] sD(5,7) th' by (intro quiet_simulated [OF sim]) simp_all
    then show ?thesis using None by simp
  next
    case (Some o1)
    have kw: "k = (sy_worker \<sigma>)\<lparr>wk_overflow := (wk_overflow (sy_worker \<sigma>))(i \<mapsto> o1)\<rparr>"
      "w = drop_opt X (regions_of \<sigma> Resp i None) (sy_world \<sigma>)"
      using kp Some by (simp_all add: worker_keep_def)
    have af1: "affects V ?p {} (seg_of (regions_of \<sigma> Resp i None)) (sy_world \<sigma>) w"
      unfolding kw(2) by (rule forget_affects [OF doc sim])
    have "0 < handles V w ?p" using af1 by (simp add: affects_def)
    from affects_trans [OF af1 signal_affects [OF sep this]]
    have af: "affects V ?p {} (seg_of (regions_of \<sigma> Resp i None)) (sy_world \<sigma>) (event_signal E ev w)" by simp
    have "regions_of ?\<sigma>' = put_region Resp i None ovf (put_region Resp i (Some t) None (regions_of \<sigma>))"
      using owned_left(2) [where a = None and th = "sy_threads \<sigma>" and t = t, OF _ th] Some
      by (simp add: kw(1) put_region_swap [of "Some t" None])
    then have "simulates V pl X (after_drop Resp i (regions_of \<sigma> Resp i None) S) ?\<sigma>'"
      using af sD(7) kw(1) th th' Some by (intro swap_simulated [OF sim i, where v = ovf and t = t]) simp_all
    then show ?thesis using Some by (simp add: after_keep_def)
  qed
qed

lemma respond_simulated:
  assumes doc: "shmem_documented X V" and sep: "events_separate E V" and sim: "simulates V pl X S \<sigma>"
    and th: "sy_threads \<sigma> t = Some (Handling i rq)" and ok: "reply_ok X p"
    and vec: "response_to_vec X (rp_meta p) = Inr mb"
  shows "\<exists>c res k w. sp_phase S i = Claimed c \<and> respond pl X E i p \<sigma> = Some (res, k, w)
    \<and> (payload_fits (wk_region (sy_worker \<sigma>)) Resp i mb (rp_body p) \<longrightarrow> res = Inr ())
    \<and> wk_region k = wk_region (sy_worker \<sigma>)
    \<and> simulates V pl X (case res of Inl e \<Rightarrow> set_phase i Free S | Inr u \<Rightarrow> put_message i (Done c p) S)
        (\<sigma>\<lparr>sy_worker := k, sy_world := w, sy_threads := (sy_threads \<sigma>)(t := None)\<rparr>)"
proof -
  obtain k1 w1 where fg: "worker_forget X i (sy_worker \<sigma>, sy_world \<sigma>) = (k1, w1)" by fastforce
  then have k1: "wk_region k1 = wk_region (sy_worker \<sigma>)" "wk_config k1 = wk_config (sy_worker \<sigma>)" "wk_overflow k1 i = None"
    by (auto simp: worker_forget_def)
  let ?\<sigma>1 = "\<sigma>\<lparr>sy_worker := k1, sy_world := w1, sy_threads := (sy_threads \<sigma>)(t \<mapsto> Answering i p)\<rparr>"
  note sim1 = empty_simulated(1) [OF doc sim th ok fg]
  have th1: "sy_threads ?\<sigma>1 t = Some (Answering i p)" by simp
  obtain c res v1 v2 where ph1: "sp_phase S i = Claimed c"
    and wr1: "write_response pl X (wk_region (sy_worker ?\<sigma>1)) i (rp_status p) mb (rp_body p) (wk_config (sy_worker ?\<sigma>1))
      (sy_world ?\<sigma>1) = Some (res, v1)"
    and inl1: "payload_fits (wk_region (sy_worker ?\<sigma>1)) Resp i mb (rp_body p) \<longrightarrow> res = Inr None"
    and R: "case res of
         Inl e \<Rightarrow> store_status (wk_region (sy_worker ?\<sigma>1)) i SLOT_FREE v1 = Some v2
           \<and> simulates V pl X (set_phase i Free S) (?\<sigma>1\<lparr>sy_world := v2, sy_threads := (sy_threads ?\<sigma>1)(t := None)\<rparr>)
       | Inr ovf \<Rightarrow> v2 = v1
           \<and> simulates V pl X (put_message i (Done c p) S)
               (?\<sigma>1\<lparr>sy_world := v1, sy_threads := (sy_threads ?\<sigma>1)(t \<mapsto> Replying i ovf)\<rparr>)"
    using answer_simulated [OF doc sim1 th1 vec] by (elim exE conjE) (rule that)
  have ph: "sp_phase S i = Claimed c"
    and wr: "write_response pl X (wk_region k1) i (rp_status p) mb (rp_body p) (wk_config k1) w1 = Some (res, v1)"
    and inl: "payload_fits (wk_region (sy_worker \<sigma>)) Resp i mb (rp_body p) \<longrightarrow> res = Inr None"
    using ph1 wr1 inl1 k1(1) by simp_all
  have vec': "response_to_vec X \<lparr>content_type = content_type (rp_meta p), resp_headers = resp_headers (rp_meta p)\<rparr> = Inr mb"
    using vec by (cases "rp_meta p") simp
  show ?thesis
  proof (cases res)
    case (Inl e)
    then have "respond pl X E i p \<sigma> = Some (Inl e, k1, v2)"
      using wr vec' fg R by (simp add: respond_def send_response_def)
    moreover have "simulates V pl X (set_phase i Free S)
        (\<sigma>\<lparr>sy_worker := k1, sy_world := v2, sy_threads := (sy_threads \<sigma>)(t := None)\<rparr>)" using R Inl by simp
    ultimately show ?thesis using ph Inl inl k1(1) by auto
  next
    case (Inr ovf)
    let ?\<sigma>2 = "\<sigma>\<lparr>sy_worker := k1, sy_world := v1, sy_threads := (sy_threads \<sigma>)(t \<mapsto> Replying i ovf)\<rparr>"
    obtain k3 w3 where kp: "worker_keep X i ovf (k1, v1) = (k3, w3)" by fastforce
    then have k3: "wk_region k3 = wk_region (sy_worker \<sigma>)" using k1 by (auto simp: worker_keep_def split: option.splits)
    have f: "respond pl X E i p \<sigma> = Some (Inr (), k3, event_signal E (wk_rsp_event k3) w3)"
      using wr vec' fg Inr kp by (simp add: respond_def send_response_def)
    have sim2: "simulates V pl X (put_message i (Done c p) S) ?\<sigma>2" using R Inr by simp
    have th2: "sy_threads ?\<sigma>2 t = Some (Replying i ovf)" by simp
    have "simulates V pl X (put_message i (Done c p) S)
        (\<sigma>\<lparr>sy_worker := k3, sy_world := event_signal E (wk_rsp_event k3) w3, sy_threads := (sy_threads \<sigma>)(t := None)\<rparr>)"
      using store_simulated [OF doc sep sim2 th2, of k3 w3] kp k1(3) by simp
    then show ?thesis using f ph k3 by auto
  qed
qed

section \<open>The watcher\<close>

lemma done_read:
  assumes doc: "shmem_documented X V" "postcard_documented X" and sim: "simulates V pl X S \<sigma>" and i: "unat i < slots_of \<sigma>"
    and ph: "sp_phase S i = Done c p"
  shows "\<exists>q res w. read_response pl X (bus_region (sy_bus \<sigma>)) i (bus_config (sy_bus \<sigma>)) (sy_world \<sigma>) = Some (res, w)
    \<and> kept V UNIV (sy_world \<sigma>) w \<and> reads_reply (sp_lost S i) p q \<and> same_reply q res"
proof -
  let ?b = "sy_bus \<sigma>" and ?r = "bus_region (sy_bus \<sigma>)" and ?w = "sy_world \<sigma>"
  note sD = simulatesD [OF sim] note cr = liveD(1) [OF sD(1)]
  have ir: "unat i < unat (r_num_slots ?r)" using i by (simp add: slots_of_def)
  obtain mb where vec: "response_to_vec X (rp_meta p) = Inr mb" and hd: "reply_head ?r i p mb ?w"
    and body: "\<not> sp_lost S i \<longrightarrow> (\<exists>ovf. response_stored V pl (bus_config ?b) ?r i (rp_status p) mb (rp_body p) ovf ?w)"
    using sim_slot [OF sim i] ph by (auto simp: slot_matches_def reply_stored_def)
  have names: "names_total (request_overflow_name_gen pl (bus_config ?b) i)" "names_total (response_overflow_name_gen pl (bus_config ?b) i)"
    using sD(2) by (simp_all add: linked_def)
  obtain res w where rd: "read_response pl X ?r i (bus_config ?b) ?w = Some (res, w)" and kp: "kept V UNIV ?w w"
    using readers_total [OF doc(1) sD(1) ir names] by blast
  have whole: "res = Inr (rp_status p, rp_meta p, rp_body p)" if "\<not> sp_lost S i"
    using body that read_response_stored [OF doc cr ir vec] rd by fastforce
  have "\<exists>q. reads_reply (sp_lost S i) p q \<and> same_reply q res"
  proof (cases "sp_lost S i")
    case True
    show ?thesis
    proof (cases res)
      case (Inl e)
      then show ?thesis using True by (intro exI [of _ None]) (simp add: reads_reply_def same_reply_def)
    next
      case (Inr x)
      obtain status meta bs where x: "x = (status, meta, bs)" by (cases x)
      have "status = rp_status p" "meta = rp_meta p"
        using read_response_of_head [OF doc(2) cr ir vec hd] rd Inr x by auto
      then show ?thesis using True Inr x
        by (intro exI [of _ "Some (p\<lparr>rp_body := bs\<rparr>)"]) (auto simp: reads_reply_def same_reply_def)
    qed
  next
    case False
    then show ?thesis using whole by (intro exI [of _ "Some p"]) (simp add: reads_reply_def same_reply_def)
  qed
  then show ?thesis using rd kp by blast
qed

lemma release_result:
  assumes doc: "shmem_documented X V" "postcard_documented X" and sim: "simulates V pl X S \<sigma>" and i: "unat i < slots_of \<sigma>"
  shows "\<exists>got w. watch_release pl X i (sy_bus \<sigma>) (sy_world \<sigma>) = Some (got, w)
    \<and> (case got of
         None \<Rightarrow> (\<forall>c p. sp_phase S i \<noteq> Done c p) \<and> w = sy_world \<sigma>
       | Some (req_id, res) \<Rightarrow> \<exists>c p q. sp_phase S i = Done c p \<and> req_id = cl_id c \<and> reads_reply (sp_lost S i) p q \<and> same_reply q res
           \<and> affects V (r_ptr (bus_region (sy_bus \<sigma>))) (status_area i) {} (sy_world \<sigma>) w
           \<and> status_at (bus_region (sy_bus \<sigma>)) i w = SLOT_FREE)"
proof -
  let ?b = "sy_bus \<sigma>" and ?r = "bus_region (sy_bus \<sigma>)" and ?w = "sy_world \<sigma>"
  note sD = simulatesD [OF sim] note cr = liveD(1) [OF sD(1)]
  have ir: "unat i < unat (r_num_slots ?r)" using i by (simp add: slots_of_def)
  note st = slot_matches_phase(3) [OF sim_slot [OF sim i]]
  show ?thesis
  proof (cases "\<exists>c p. sp_phase S i = Done c p")
    case False
    then have "watch_release pl X i ?b ?w = Some (None, ?w)"
      using st status_ops(1) [OF cr ir] by (simp add: watch_release_def Let_def)
    then show ?thesis using False by (intro exI [of _ None] exI [of _ ?w]) simp
  next
    case True
    then obtain c p where ph: "sp_phase S i = Done c p" by blast
    have at: "status_at ?r i ?w = SLOT_DONE" using st ph by simp
    have m: "call_ok X c" "id_stored ?r i (cl_id c) ?w" using sim_slot [OF sim i] ph by (simp_all add: slot_matches_def)
    have id: "read_req_id ?r i ?w = Some (cl_id c)"
      using read_req_id_eq [OF cr ir] m decode_req_id_field by (simp add: id_stored_def call_ok_def)
    obtain q res w1 where rd: "read_response pl X ?r i (bus_config ?b) ?w = Some (res, w1)" and kp: "kept V UNIV ?w w1"
      and q: "reads_reply (sp_lost S i) p q" "same_reply q res"
      using done_read [OF doc sim i ph] by blast
    have af1: "affects V (r_ptr ?r) {} {} ?w w1" by (rule kept_affects [OF kp liveD(3) [OF sD(1)]])
    note l1 = affects_live [OF sD(1) af1]
    let ?w2 = "put (r_ptr ?r) (slot_start i) (le32 SLOT_FREE) w1"
    note T = set_status_touches [OF doc(1) l1 ir, of SLOT_FREE]
    have "mem w1 (r_ptr ?r) = mem ?w (r_ptr ?r)" using keptD(1) [OF kp _ liveD(3) [OF sD(1)]] by simp
    then have cas: "cas_status ?r i SLOT_DONE SLOT_FREE w1 = Some (Inr SLOT_DONE, ?w2)"
      using status_ops(3) [OF liveD(1) [OF l1] ir] at by simp
    have "watch_release pl X i ?b ?w = Some (Some (cl_id c, res), ?w2)"
      using at status_ops(1) [OF cr ir] id rd cas by (simp add: watch_release_def Let_def)
    moreover have "affects V (r_ptr ?r) (status_area i) {} ?w ?w2"
      using affects_mono [OF af1, of "status_area i" "{}"] touches_affects [OF T(1), of "{}"] by (auto intro: affects_trans)
    ultimately show ?thesis using ph q T(2) by (intro exI [of _ "Some (cl_id c, res)"] exI [of _ ?w2]) auto
  qed
qed

lemma release_simulated:
  assumes doc: "shmem_documented X V" "postcard_documented X" and sim: "simulates V pl X S \<sigma>" and i: "unat i < slots_of \<sigma>"
    and idle: "sy_watcher \<sigma> = Scanning"
    and rel: "watch_release pl X i (sy_bus \<sigma>) (sy_world \<sigma>) = Some (Some (req_id, res), w)"
  shows "\<exists>c p q. sp_phase S i = Done c p \<and> sp_taken S = None \<and> req_id = cl_id c \<and> reads_reply (sp_lost S i) p q \<and> same_reply q res
    \<and> simulates V pl X ((set_phase i Free S)\<lparr>sp_taken := Some (cl_id c, q)\<rparr>)
        (\<sigma>\<lparr>sy_world := w, sy_watcher := Released i req_id res\<rparr>)"
proof -
  let ?r = "bus_region (sy_bus \<sigma>)" and ?\<sigma>' = "\<sigma>\<lparr>sy_world := w, sy_watcher := Released i req_id res\<rparr>"
  note sD = simulatesD [OF sim]
  obtain c p q where ph: "sp_phase S i = Done c p" and id: "req_id = cl_id c" and q: "reads_reply (sp_lost S i) p q" "same_reply q res"
    and af: "affects V (r_ptr ?r) (status_area i) {} (sy_world \<sigma>) w" and st: "status_at ?r i w = SLOT_FREE"
    using release_result [OF doc sim i] rel by auto
  have "threads_match (slots_of \<sigma>) X ((sp_phase S)(i := Free)) (sy_threads \<sigma>)"
    using unowned_phase(1) [OF sD(6)] ph by (intro threads_phase [OF sD(6)]) auto
  then have "simulates V pl X ((set_phase i Free S)\<lparr>sp_taken := Some (cl_id c, q)\<rparr>) ?\<sigma>'"
    using af st id q(2) i sD(5) regions_apart_affects [OF sD(3) af]
    by (intro simulates_step [OF sim i, where A = "status_area i" and D = "{}"])
      (auto simp: slot_area_def slot_matches_def set_phase_def)
  moreover have "sp_taken S = None" using sD(7) idle by simp
  ultimately show ?thesis using ph id q by blast
qed

lemma forget_simulated:
  assumes doc: "shmem_documented X V" and sim: "simulates V pl X S \<sigma>" and at: "sy_watcher \<sigma> = Released i req_id res"
    and fg: "bus_forget X i (sy_bus \<sigma>, sy_world \<sigma>) = (b, w)"
  shows "simulates V pl X (after_drop Req i (bus_overflow (sy_bus \<sigma>) i) S)
    (\<sigma>\<lparr>sy_bus := b, sy_world := w, sy_watcher := Resolving req_id res\<rparr>)"
proof -
  let ?\<sigma>' = "\<sigma>\<lparr>sy_bus := b, sy_world := w, sy_watcher := Resolving req_id res\<rparr>"
  note sD = simulatesD [OF sim]
  have i: "unat i < slots_of \<sigma>" using sD(7) at by auto
  have bw: "b = (sy_bus \<sigma>)\<lparr>bus_overflow := (bus_overflow (sy_bus \<sigma>))(i := None)\<rparr>"
    "w = drop_opt X (regions_of \<sigma> Req i None) (sy_world \<sigma>)"
    using fg by (simp_all add: bus_forget_def)
  have "simulates V pl X (after_drop Req i (regions_of \<sigma> Req i None) S) ?\<sigma>'"
    using forget_affects [OF doc sim, of Req i None] sD(6,7) at bw
    by (intro swap_simulated [OF sim i, where v = None]) auto
  then show ?thesis by simp
qed

lemma watch_send_keeps [simp]:
  "bus_region (watch_send req_id res b) = bus_region b" "bus_config (watch_send req_id res b) = bus_config b"
  "bus_overflow (watch_send req_id res b) = bus_overflow b"
  by (auto simp: watch_send_def split: sum.splits option.splits prod.splits)

lemma send_simulated:
  assumes sim: "simulates V pl X S \<sigma>" and at: "sy_watcher \<sigma> = Resolving req_id res"
  shows "\<exists>q calls pending. sp_taken S = Some (req_id, q) \<and> same_reply q res \<and> resolved (sp_pending S) (req_id, q) = (calls, pending)
    \<and> bus_calls (watch_send req_id res (sy_bus \<sigma>)) = bus_calls (sy_bus \<sigma>) @ calls
    \<and> simulates V pl X (S\<lparr>sp_taken := None, sp_pending := pending\<rparr>)
        (\<sigma>\<lparr>sy_bus := watch_send req_id res (sy_bus \<sigma>), sy_watcher := Scanning\<rparr>)"
proof -
  let ?b = "watch_send req_id res (sy_bus \<sigma>)" and ?\<sigma>' = "\<sigma>\<lparr>sy_bus := watch_send req_id res (sy_bus \<sigma>), sy_watcher := Scanning\<rparr>"
  note sD = simulatesD [OF sim]
  obtain q where q: "sp_taken S = Some (req_id, q)" "same_reply q res" using sD(7) at by auto
  obtain calls pending where r: "resolved (sp_pending S) (req_id, q) = (calls, pending)" by fastforce
  have "bus_calls ?b = bus_calls (sy_bus \<sigma>) @ fst (resolved (sp_pending S) (req_id, q))
    \<and> snd (resolved (sp_pending S) (req_id, q)) = (\<lambda>req_id. map_option (snd \<circ> snd) (bus_pending ?b req_id))"
    using q(2) unfolding sD(5)
    by (cases q) (auto simp: same_reply_def watch_send_def resolution_def response_of_def fun_eq_iff split: option.splits)
  then have b: "bus_calls ?b = bus_calls (sy_bus \<sigma>) @ calls"
    "pending = (\<lambda>req_id. map_option (snd \<circ> snd) (bus_pending ?b req_id))"
    unfolding r by simp_all
  have own: "regions_of ?\<sigma>' = regions_of \<sigma>"
    using owned_bookkeeping [of ?b "sy_bus \<sigma>" "sy_worker \<sigma>" "sy_worker \<sigma>" "sy_threads \<sigma>"] by simp
  have "simulates V pl X (S\<lparr>sp_taken := None, sp_pending := pending\<rparr>) ?\<sigma>'"
    by (rule quiet_simulated [OF sim _ _ _ _ own]) (use sD(6) liveD(3) [OF sD(1)] b(2) in simp_all)
  then show ?thesis using q r b(1) by blast
qed

section \<open>Refinement\<close>

lemma system_step_simulated:
  assumes doc: "shmem_documented X V" "postcard_documented X" "events_separate E V"
    and sim: "simulates V pl X S \<sigma>" and step: "sys_step pl X E \<sigma> e \<sigma>'"
  shows "\<exists>S'. spec_step S e S' \<and> simulates V pl X S' \<sigma>'"
  using step
proof cases
  case (claim t i c old w)
  then show ?thesis using claim_simulated [OF doc(1) sim] by (blast intro: sp_claim)
next
  case (unserialisable t i c pe)
  have "sp_phase S i = Writing" using thread_facts(1) [OF sim unserialisable(3)] by (simp add: activity_ok_def)
  then show ?thesis using unserialisable thread_leaves [OF sim, of t] by (auto intro: sp_stuck)
next
  case (clear t i c mb b w)
  then show ?thesis using clear_simulated [OF doc(1) sim clear(3,5)] by blast
next
  case (publish t i c mb ovf w)
  have "sp_phase S i = Writing" using thread_facts(1) [OF sim publish(3)] by (simp add: activity_ok_def)
  moreover have "simulates V pl X (put_message i (Ready c) S) \<sigma>'"
    using write_simulated [OF doc(1) sim publish(3,4)] publish(2,5) by auto
  ultimately show ?thesis using publish(1) by (blast intro: sp_publish)
next
  case (abort t i c mb e w)
  have "sp_phase S i = Writing" using thread_facts(1) [OF sim abort(3)] by (simp add: activity_ok_def)
  moreover have "simulates V pl X (set_phase i Free S) \<sigma>'"
    using write_simulated [OF doc(1) sim abort(3,4)] abort(2,5) by auto
  ultimately show ?thesis using abort(1) by (blast intro: sp_abort)
next
  case (keep t i c ovf b w)
  then show ?thesis using keep_simulated [OF doc(1) sim keep(3,4)] after_keep_step by blast
next
  case (register t c ch b w)
  then show ?thesis using register_simulated [OF doc(3) sim] by (blast intro: sp_register)
next
  case (take t i old w)
  then show ?thesis using take_simulated [OF doc(1) sim] by (blast intro: sp_take)
next
  case (deliver t i req_id m meta body w)
  then show ?thesis using deliver_simulated [OF doc(1,2) sim deliver(3,4)] by (blast intro: sp_deliver)
next
  case (unreadable t i e w1 w)
  then show ?thesis using unread_simulated [OF doc(1,2) sim unreadable(3,4,5)] by (blast intro: sp_unread)
next
  case (unanswerable t i rq p pe)
  obtain c where "sp_phase S i = Claimed c" using thread_facts(1) [OF sim unanswerable(3)] by (auto simp: activity_ok_def)
  then show ?thesis using unanswerable thread_leaves [OF sim, of t] by (auto intro: sp_stuck)
next
  case (empty t i rq p mb k w)
  then show ?thesis using empty_simulated [OF doc(1) sim empty(3,4,6)] by blast
next
  case (reply t i p mb ovf w)
  from answer_simulated [OF doc(1) sim reply(3,4)] reply(2,5)
  have "\<exists>c. sp_phase S i = Claimed c \<and> simulates V pl X (put_message i (Done c p) S) \<sigma>'" by auto
  then show ?thesis using reply(1) by (blast intro: sp_reply)
next
  case (refuse t i p mb e w1 w)
  from answer_simulated [OF doc(1) sim refuse(3,4)] refuse(2,5,6)
  have "\<exists>c. sp_phase S i = Claimed c \<and> simulates V pl X (set_phase i Free S) \<sigma>'" by auto
  then show ?thesis using refuse(1) by (blast intro: sp_refuse)
next
  case (store t i ovf k w)
  then show ?thesis using store_simulated [OF doc(1,3) sim store(3,4)] after_keep_step by blast
next
  case (release i req_id res w)
  then show ?thesis using release_simulated [OF doc(1,2) sim release(4,3,5)] by (blast intro: sp_release)
next
  case (skip i w)
  have "w = sy_world \<sigma>" using release_result [OF doc(1,2) sim skip(4)] skip(5) by auto
  then show ?thesis using skip sim by (auto intro: sp_idle)
next
  case (forget i req_id res b w)
  then show ?thesis using forget_simulated [OF doc(1) sim forget(3,4)] after_drop_step by blast
next
  case (resolve req_id res calls)
  then show ?thesis using send_simulated [OF sim resolve(3)] by (auto intro: sp_resolve)
next
  case (wait ev ms woken w)
  have "affects V (r_ptr (bus_region (sy_bus \<sigma>))) {} {} (sy_world \<sigma>) w"
    using same_affects [OF wait_same [OF doc(3) wait(3)]] liveD(3) [OF simulatesD(1) [OF sim]] by blast
  then have "simulates V pl X S \<sigma>'"
    using wait(2) simulatesD(5,6,7) [OF sim] by (intro quiet_simulated [OF sim]) simp_all
  then show ?thesis using wait(1) by (auto intro: sp_idle)
qed

end
