(* ===== verification/Startup.thy ===== *)
theory Startup
  imports Refinement
begin

text \<open>
  Starting a bus: after \<open>SlotBus::create\<close> and \<open>SlotWorker::open\<close> with the same configuration the system
  simulates the protocol with every slot free and no call pending.
\<close>

section \<open>The region\<close>

definition opened :: "'os shm_view \<Rightarrow> string \<Rightarrow> shm_region \<Rightarrow> 'os world \<Rightarrow> bool" where
  "opened V name r w \<longleftrightarrow>
     bound V w name = Some (r_ptr r) \<and> 0 < handles V w (r_ptr r) \<and> length (mem w (r_ptr r)) = unat (r_len r)"

lemma create_opened:
  assumes "shmem_documented X V" and "create_exclusive pl X name sz w = (Inr (Some r), w')"
  shows "opened V name r w'"
proof -
  obtain h w0 where c: "shmem_create X name sz w0 = (Inr h, w')" and r: "r = region_of_shmem name h"
    using create_exclusive_Some [OF assms] by blast
  from create_ok [OF assms(1) c] r show ?thesis by (simp add: opened_def)
qed

lemma open_opened:
  assumes "shmem_documented X V" and "region_open X name w = (Inr r, w')"
  shows "opened V name r w'" and "bound V w name = Some (r_ptr r)" and "unat (r_len r) = length (mem w (r_ptr r))"
    and "mem w' = mem w" and "bound V w' = bound V w" and "handles V w s \<le> handles V w' s"
proof -
  obtain h where c: "shmem_open X name w = (Inr h, w')" and r: "r = region_of_shmem name h"
    using assms(2) by (auto simp: region_open_def split: prod.splits sum.splits)
  from open_ok [OF assms(1) c] r
  show "opened V name r w'" and "bound V w name = Some (r_ptr r)" and "unat (r_len r) = length (mem w (r_ptr r))"
    and "mem w' = mem w" and "bound V w' = bound V w" and "handles V w s \<le> handles V w' s"
    by (simp_all add: opened_def)
qed

lemma create_or_open_opened:
  assumes "shmem_documented X V" and "create_or_open pl X name sz w = (Inr r, w')"
  shows "opened V name r w'"
  using assms create_opened open_opened(1)
  by (auto simp: create_or_open_def split: prod.splits sum.splits option.splits)

lemma init_opened:
  assumes doc: "shmem_documented X V" and op: "opened V name r w" and fit: "slots_fit c"
    and run: "init_control c r w = Some (Inr (), r', w')"
  shows "opened V name r' w'" and "control_region r' w'" and "r_ptr r' = r_ptr r" and "r_len r' = r_len r"
    and "r_num_slots r' = cfg_num_slots c"
    and "unat i < unat (cfg_num_slots c) \<Longrightarrow> slot_status r' i w' = Some SLOT_FREE"
proof -
  have len: "length (mem w (r_ptr r)) = unat (r_len r)" using op by (simp add: opened_def)
  have big: "layout_needs c \<le> unat (r_len r)"
  proof (rule ccontr)
    assume "\<not> ?thesis"
    then obtain msg where "init_control c r w = Some (Inl (InvalidRegion msg), r, w)"
      using init_control_too_small [OF fit, of r w] by auto
    with run show False by simp
  qed
  have r': "r' = init_region c r" and w': "w' = w\<lparr>mem := (mem w)(r_ptr r := header_bytes r')\<rparr>"
    using init_control_fits [OF fit len big] run by simp_all
  note L = init_region_layout [OF fit, of r, folded r']
  have "bound V w' = bound V w" "handles V w' = handles V w"
    using doc w' by (simp_all add: shmem_documented_def view_ignores_bytes_def)
  moreover have I: "control_region r' w'" "r_num_slots r' = cfg_num_slots c"
    "unat i < unat (cfg_num_slots c) \<Longrightarrow> slot_status r' i w' = Some SLOT_FREE"
    using init_control_outcome [OF fit len] big run by auto
  ultimately show "opened V name r' w'" using op L control_regionD(1) [OF I(1)] by (simp add: opened_def)
  show "control_region r' w'" "r_num_slots r' = cfg_num_slots c"
    "unat i < unat (cfg_num_slots c) \<Longrightarrow> slot_status r' i w' = Some SLOT_FREE"
    by (fact I)+
  show "r_ptr r' = r_ptr r" "r_len r' = r_len r" using L by simp_all
qed

lemma validate_keeps:
  assumes "validate_control r w = Some (Inr (), r')" and "20 \<le> length (mem w (r_ptr r))"
  shows "r_ptr r' = r_ptr r" and "r_len r' = r_len r"
proof -
  have "header_valid (mem w (r_ptr r)) (unat (r_len r))"
    using validate_control_reject [OF assms(2)] assms(1) by (cases "header_valid (mem w (r_ptr r)) (unat (r_len r))") auto
  from validate_control_ok [OF assms(2) this] assms(1)
  show "r_ptr r' = r_ptr r" and "r_len r' = r_len r" by auto
qed

lemma validate_bytes: "mem w' (r_ptr r) = mem w (r_ptr r) \<Longrightarrow> validate_control r w' = validate_control r w"
  by (simp add: validate_control_def read_u32_def mem_read_def)

text \<open>The worker's mapping of the region the hub has initialised.\<close>

lemma worker_layout:
  assumes doc: "shmem_documented X V" and op: "opened V name r w" and fit: "slots_fit c"
    and run: "init_control c r w = Some (Inr (), r', w')" and small: "unat (r_len r') < 2 ^ 32"
    and same: "same_memory V w' w1" and open': "region_open X name w1 = (Inr p, w2)"
    and val: "validate_control p w2 = Some (Inr (), p')"
  shows "same_layout p' r'" and "live V r' w2"
proof -
  note I = init_opened [OF doc op fit run] note O = open_opened [OF doc open']
  have ptr: "r_ptr p = r_ptr r'" using O(2) I(1) same by (simp add: opened_def same_memory_def)
  have mem2: "mem w2 (r_ptr r') = mem w' (r_ptr r')" using O(4) same by (simp add: same_memory_def)
  have len: "r_len p = r_len r'"
  proof -
    have "unat (r_len p) = unat (r_len r')"
      using O(3) I(1) same ptr by (simp add: opened_def same_memory_def)
    then show ?thesis by (simp add: word_unat_eq_iff)
  qed
  have "unat (r_len r) < 2 ^ 32" "length (mem w (r_ptr r)) = unat (r_len r)"
    using small I op by (simp_all add: opened_def)
  then obtain p1 where v: "validate_control p w' = Some (Inr (), p1)" and eq: "r_num_slots p1 = r_num_slots r'"
      "r_heap_offset p1 = r_heap_offset r'" "r_heap_size p1 = r_heap_size r'"
    using validate_initialised [OF fit _ run, of p] ptr len I by auto
  have "validate_control p w2 = validate_control p w'"
    using mem2 ptr by (intro validate_bytes) simp
  then have "p1 = p'" using v val by simp
  moreover have "20 \<le> length (mem w' (r_ptr p))" using control_regionD(3) [OF I(2)] ptr by simp
  ultimately show "same_layout p' r'" using eq validate_keeps [OF v] ptr len by (simp add: same_layout_def)
  have "control_region r' w2" using control_region_bytes [OF _ I(2)] mem2 by metis
  moreover have "heap_addressable r'"
    using small control_regionD [OF I(2)] by (simp add: heap_addressable_def)
  moreover have "0 < handles V w2 (r_ptr r')" using O(6) [of "r_ptr r'"] I(1) same by (simp add: opened_def same_memory_def)
  ultimately show "live V r' w2" by (simp add: live_def)
qed

section \<open>The events\<close>

lemma event_create_same:
  assumes "events_separate E V" and "event_create pl E name w = (r, w')"
  shows "same_memory V w w'"
proof -
  have unlink: "same_memory V w (sem_unlink E n w)" for n
    using assms(1) by (intro leaves_same) (simp add: events_separate_def)
  have win: "CreateEventW E n w = (h, w1) \<Longrightarrow> same_memory V w w1" for n h w1
    using assms(1) by (intro leaves_snd_same [of V "CreateEventW E n"]) (simp_all add: events_separate_def)
  have sem: "sem_open_create E n w1 = (h, w2) \<Longrightarrow> same_memory V w1 w2" for n h w1 w2
    using assms(1) by (intro leaves_snd_same [of V "sem_open_create E n"]) (simp_all add: events_separate_def)
  note run = assms(2) [unfolded event_create_def]
  show ?thesis
  proof (cases "pl = Windows")
    case True
    then show ?thesis using run win [of "wide_name name"] by (auto split: prod.splits if_splits)
  next
    case False
    show ?thesis
    proof (cases "cstring_new (CHR 0x2F # name)")
      case (Inl e)
      then show ?thesis using run False by (cases pl) auto
    next
      case (Inr cname)
      obtain h w2 where o: "sem_open_create E cname (sem_unlink E cname w) = (h, w2)" by fastforce
      then have "w' = w2" using run False Inr by (cases pl; cases h) auto
      then show ?thesis using same_memory_trans [OF unlink sem [OF o]] by simp
    qed
  qed
qed

lemma event_open_same:
  assumes "events_separate E V" and "event_open pl E name w = (r, w')"
  shows "same_memory V w w'"
proof -
  have win: "OpenEventW E n w = (h, w1) \<Longrightarrow> same_memory V w w1" for n h w1
    using assms(1) by (intro leaves_snd_same [of V "OpenEventW E n"]) (simp_all add: events_separate_def)
  have sem: "sem_open_existing E n w1 = (h, w2) \<Longrightarrow> same_memory V w1 w2" for n h w1 w2
    using assms(1) by (intro leaves_snd_same [of V "sem_open_existing E n"]) (simp_all add: events_separate_def)
  note run = assms(2) [unfolded event_open_def]
  show ?thesis
  proof (cases "pl = Windows")
    case True
    then show ?thesis using run win [of "wide_name name"] by (auto split: prod.splits if_splits)
  next
    case False
    show ?thesis
    proof (cases "cstring_new (CHR 0x2F # name)")
      case (Inl e)
      then show ?thesis using run False by (cases pl) auto
    next
      case (Inr cname)
      obtain h w2 where o: "sem_open_existing E cname w = (h, w2)" by fastforce
      then have "w' = w2" using run False Inr by (cases pl; cases h) auto
      then show ?thesis using sem [OF o] by simp
    qed
  qed
qed

section \<open>Both ends\<close>

lemma bus_create_Inr:
  assumes "bus_create pl X E c w = Some (Inr b, w')"
  obtains rname r0 w1 w2 q w3 s where "region_name pl c = Some rname"
    and "create_or_open pl X rname (cfg_region_size c) w = (Inr r0, w1)"
    and "init_control c r0 w1 = Some (Inr (), bus_region b, w2)"
    and "event_create pl E q w2 = (Inr (bus_req_event b), w3)" and "event_create pl E s w3 = (Inr (bus_rsp_event b), w')"
    and "bus_config b = c" and "bus_pending b = (\<lambda>_. None)" and "bus_overflow b = (\<lambda>_. None)" and "bus_running b"
    and "bus_calls b = []"
  using assms
  by (auto simp: bus_create_def split: bind_splits prod.splits sum.splits)

lemma worker_open_Inr:
  assumes "worker_open pl X E c w = Some (Inr k, w')"
  obtains rname p w1 q w2 s where "region_name pl c = Some rname"
    and "region_open X rname w = (Inr p, w1)" and "validate_control p w1 = Some (Inr (), wk_region k)"
    and "event_open pl E q w1 = (Inr (wk_req_event k), w2)" and "event_open pl E s w2 = (Inr (wk_rsp_event k), w')"
    and "wk_config k = c" and "wk_overflow k = (\<lambda>_. None)" and "wk_running k"
  using assms
  by (auto simp: worker_open_def split: bind_splits prod.splits sum.splits)

text \<open>The name the bus gives out is the one its region is mapped under, and the one a worker opens.\<close>

lemma region_named:
  "create_or_open pl X name sz w = (Inr r, w') \<Longrightarrow> r_name r = name"
  "region_open X name w = (Inr r, w') \<Longrightarrow> r_name r = name"
  by (auto simp: create_or_open_def create_exclusive_def try_create_exclusive_def region_open_def region_of_shmem_def Let_def
      split: prod.splits sum.splits option.splits if_splits shmem_error.splits bool.splits)

lemma control_named:
  "init_control c r w = Some (res, r', w') \<Longrightarrow> r_name r' = r_name r"
  "validate_control r w = Some (res', r'') \<Longrightarrow> r_name r'' = r_name r"
  by (auto simp: init_control_def validate_control_def Let_def split: bind_splits prod.splits if_splits)

lemma bus_region_name_mapped:
  assumes "bus_create pl X E c w = Some (Inr b, w1)" and "worker_open pl X E c w2 = Some (Inr k, w3)"
  shows "bus_region_name pl b = Some (r_name (bus_region b))" and "r_name (wk_region k) = r_name (bus_region b)"
proof -
  obtain rname r0 v v1 where h: "region_name pl c = Some rname" "create_or_open pl X rname (cfg_region_size c) w = (Inr r0, v)"
    "init_control c r0 v = Some (Inr (), bus_region b, v1)" "bus_config b = c"
    using assms(1) by (rule bus_create_Inr)
  obtain name p v2 where o: "region_name pl c = Some name" "region_open X name w2 = (Inr p, v2)"
    "validate_control p v2 = Some (Inr (), wk_region k)"
    using assms(2) by (rule worker_open_Inr)
  show "bus_region_name pl b = Some (r_name (bus_region b))"
    using h region_named(1) [OF h(2)] control_named(1) [OF h(3)] by (simp add: bus_region_name_def)
  show "r_name (wk_region k) = r_name (bus_region b)"
    using h(1) o(1) region_named(1) [OF h(2)] control_named(1) [OF h(3)] region_named(2) [OF o(2)] control_named(2) [OF o(3)]
    by simp
qed

definition initial :: spec where
  "initial = \<lparr>sp_phase = (\<lambda>_. Free), sp_pending = (\<lambda>_. None), sp_lost = (\<lambda>_. False), sp_taken = None\<rparr>"

definition start_system :: "bus \<Rightarrow> worker \<Rightarrow> 'os world \<Rightarrow> 'os system" where
  "start_system b k w =
     \<lparr>sy_bus = b, sy_worker = k, sy_world = w, sy_threads = (\<lambda>_. None), sy_watcher = Scanning\<rparr>"

definition names_ok :: "platform \<Rightarrow> config \<Rightarrow> bool" where
  "names_ok pl c \<longleftrightarrow>
     (\<forall>i. names_total (request_overflow_name_gen pl c i) \<and> names_total (response_overflow_name_gen pl c i))"

lemma startup_simulates:
  assumes doc: "shmem_documented X V" and sep: "events_separate E V" and fit: "slots_fit c" and names: "names_ok pl c"
    and hub: "bus_create pl X E c w = Some (Inr b, w1)" and small: "unat (r_len (bus_region b)) < 2 ^ 32"
    and wk: "worker_open pl X E c w1 = Some (Inr k, w2)"
  shows "simulates V pl X initial (start_system b k w2)"
proof -
  from hub obtain rname r0 wa wb q wc s where rn: "region_name pl c = Some rname"
    and co: "create_or_open pl X rname (cfg_region_size c) w = (Inr r0, wa)"
    and init: "init_control c r0 wa = Some (Inr (), bus_region b, wb)"
    and ev: "event_create pl E q wb = (Inr (bus_req_event b), wc)" "event_create pl E s wc = (Inr (bus_rsp_event b), w1)"
    and b: "bus_config b = c" "bus_pending b = (\<lambda>_. None)" "bus_overflow b = (\<lambda>_. None)"
    by (rule bus_create_Inr)
  from wk obtain rname' p wd q' we s' where rn': "region_name pl c = Some rname'"
    and op': "region_open X rname' w1 = (Inr p, wd)" and val: "validate_control p wd = Some (Inr (), wk_region k)"
    and ev': "event_open pl E q' wd = (Inr (wk_req_event k), we)" "event_open pl E s' we = (Inr (wk_rsp_event k), w2)"
    and k: "wk_config k = c" "wk_overflow k = (\<lambda>_. None)"
    by (rule worker_open_Inr)
  note op = create_or_open_opened [OF doc co] note I = init_opened [OF doc op fit init]
  have same: "same_memory V wb w1"
    using event_create_same [OF sep ev(1)] event_create_same [OF sep ev(2)] by (rule same_memory_trans)
  have opn: "region_open X rname w1 = (Inr p, wd)" using op' rn rn' by simp
  note L = worker_layout [OF doc op fit init small same opn val]
  have same2: "same_memory V wd w2"
    using event_open_same [OF sep ev'(1)] event_open_same [OF sep ev'(2)] by (rule same_memory_trans)
  have live: "live V (bus_region b) w2"
    using affects_live [OF L(2) same_affects [OF same2 liveD(3) [OF L(2)]]] .
  have mem2: "mem w2 = mem wb" using same same2 open_opened(4) [OF doc opn] by (simp add: same_memory_def)
  have free: "status_at (bus_region b) i w2 = SLOT_FREE" if i: "unat i < unat (r_num_slots (bus_region b))" for i
    using I(6) [of i] I(5) i status_ops(1) [OF I(2) i] mem2 by simp
  have "slots_match V pl X b H w2 (\<lambda>_. Free) (\<lambda>_. False)" for H
    using free by (simp add: slots_match_def slot_matches_def)
  moreover have "owned b k (\<lambda>_. None) s i x = None" for s i x
    using b k by (cases x; cases s) (simp_all add: owned_def)
  then have "regions_apart V (r_ptr (bus_region b)) (owned b k (\<lambda>_. None)) w2" by (simp add: regions_apart_def)
  moreover have "linked pl b k" using L(1) b k names by (simp add: linked_def names_ok_def)
  ultimately show ?thesis
    using live b by (auto simp: simulates_def start_system_def initial_def threads_match_def)
qed

end
