(* ===== verification/Traces.thy ===== *)
theory Traces
  imports Startup
begin

text \<open>
  Runs of the system and what the protocol gives for them: the trace of a run is a trace of the
  protocol; per slot the phase changes come in the protocol's order, what a handler is given is the
  request published last, and what resolves a caller's channel is the reply to the request
  registered under its id.
\<close>

section \<open>Runs\<close>

inductive spec_run :: "spec \<Rightarrow> event list \<Rightarrow> spec \<Rightarrow> bool" where
  spec_start: "spec_run S [] S"
| spec_more: "spec_run S es T \<Longrightarrow> spec_step T e U \<Longrightarrow> spec_run S (es @ [e]) U"

inductive sys_run ::
  "platform \<Rightarrow> 'os externals \<Rightarrow> 'os event_os \<Rightarrow> 'os system \<Rightarrow> event list \<Rightarrow> 'os system \<Rightarrow> bool"
  for pl :: platform and X :: "'os externals" and E :: "'os event_os" where
  sys_start: "sys_run pl X E \<sigma> [] \<sigma>"
| sys_more: "sys_run pl X E \<sigma> es \<tau> \<Longrightarrow> sys_step pl X E \<tau> e \<upsilon> \<Longrightarrow> sys_run pl X E \<sigma> (es @ [e]) \<upsilon>"

inductive_cases spec_run_snocE: "spec_run S (es @ [e]) U"
inductive_cases sys_run_snocE: "sys_run pl X E \<sigma> (es @ [e]) \<upsilon>"

lemma sys_run_trans:
  "sys_run pl X E \<tau> fs \<upsilon> \<Longrightarrow> sys_run pl X E \<sigma> es \<tau> \<Longrightarrow> sys_run pl X E \<sigma> (es @ fs) \<upsilon>"
proof (induction rule: sys_run.induct)
  case (sys_more \<tau> fs \<tau>' e \<upsilon>)
  then show ?case using sys_run.sys_more [of pl X E \<sigma> "es @ fs" \<tau>' e \<upsilon>] by simp
qed simp

lemma sys_run_prefix: "sys_run pl X E \<sigma> (es @ fs) \<upsilon> \<Longrightarrow> \<exists>\<tau>. sys_run pl X E \<sigma> es \<tau>"
proof (induction fs arbitrary: \<upsilon> rule: rev_induct)
  case (snoc f fs)
  then show ?case by (metis append.assoc sys_run_snocE)
qed auto

lemma sys_run_split: "sys_run pl X E \<sigma> (es @ fs) \<upsilon> \<Longrightarrow> \<exists>\<tau>. sys_run pl X E \<sigma> es \<tau> \<and> sys_run pl X E \<tau> fs \<upsilon>"
proof (induction fs arbitrary: \<upsilon> rule: rev_induct)
  case (snoc f fs)
  then obtain \<upsilon>' where "sys_run pl X E \<sigma> (es @ fs) \<upsilon>'" "sys_step pl X E \<upsilon>' f \<upsilon>" by (metis append.assoc sys_run_snocE)
  then show ?case using snoc.IH sys_more by blast
qed (auto intro: sys_start)

lemma sys_run_one: "sys_step pl X E \<sigma> e \<tau> \<Longrightarrow> sys_run pl X E \<sigma> [e] \<tau>"
  using sys_more [OF sys_start, of pl X E \<sigma> e \<tau>] by simp

text \<open>No step changes the hub's region.\<close>

lemma step_region: "sys_step pl X E \<sigma> e \<sigma>' \<Longrightarrow> bus_region (sy_bus \<sigma>') = bus_region (sy_bus \<sigma>)"
  by (erule sys_step.cases)
    (auto simp: bus_forget_def bus_keep_def watch_send_def dispatch_register_def Let_def split: option.splits sum.splits)

lemma run_slots: "sys_run pl X E \<sigma> es \<sigma>' \<Longrightarrow> slots_of \<sigma>' = slots_of \<sigma>"
  by (induction rule: sys_run.induct) (simp_all add: slots_of_def step_region)

lemma run_simulated:
  assumes "sys_run pl X E \<sigma> es \<sigma>'" and doc: "shmem_documented X V" "postcard_documented X" "events_separate E V"
    and "simulates V pl X S \<sigma>"
  shows "\<exists>S'. spec_run S es S' \<and> simulates V pl X S' \<sigma>'"
  using assms(1,5)
proof (induction rule: sys_run.induct)
  case (sys_start \<sigma>)
  then show ?case using spec_start by blast
next
  case (sys_more \<sigma> es \<tau> e \<upsilon>)
  then obtain T where "spec_run S es T" "simulates V pl X T \<tau>" by blast
  moreover from system_step_simulated [OF doc this(2) sys_more.hyps(2)]
  obtain U where "spec_step T e U" "simulates V pl X U \<upsilon>" by blast
  ultimately show ?case using spec_more by blast
qed

text \<open>A system just started: the hub and the worker of one configuration.\<close>

definition started ::
  "platform \<Rightarrow> 'os externals \<Rightarrow> 'os event_os \<Rightarrow> config \<Rightarrow> 'os world \<Rightarrow> 'os system \<Rightarrow> bool" where
  "started pl X E c w \<sigma> \<longleftrightarrow>
     slots_fit c \<and> names_ok pl c
     \<and> (\<exists>b w1 k w2. bus_create pl X E c w = Some (Inr b, w1) \<and> unat (r_len (bus_region b)) < 2 ^ 32
          \<and> worker_open pl X E c w1 = Some (Inr k, w2) \<and> \<sigma> = start_system b k w2)"

lemma started_run:
  assumes "shmem_documented X V" and "postcard_documented X" and "events_separate E V"
    and "started pl X E c w \<sigma>" and "sys_run pl X E \<sigma> es \<sigma>'"
  obtains S where "spec_run initial es S" and "simulates V pl X S \<sigma>'"
proof -
  have "simulates V pl X initial \<sigma>"
    using assms(4) startup_simulates [OF assms(1,3)] unfolding started_def by blast
  with run_simulated [OF assms(5,1,2,3)] that show ?thesis by blast
qed

section \<open>The history of a slot\<close>

fun phase_change :: "event \<Rightarrow> usize option" where
  "phase_change (Claim i) = Some i"
| "phase_change (Publish i c) = Some i"
| "phase_change (Abort i) = Some i"
| "phase_change (Take i) = Some i"
| "phase_change (Unread i) = Some i"
| "phase_change (Reply i p) = Some i"
| "phase_change (Refuse i) = Some i"
| "phase_change (Release i) = Some i"
| "phase_change (Stuck i) = None"
| "phase_change (Register req_id ch) = None"
| "phase_change (Deliver i rq) = None"
| "phase_change (Resolve calls) = None"
| "phase_change (Drop s i) = None"
| "phase_change Idle = None"

definition slot_events :: "usize \<Rightarrow> event list \<Rightarrow> event list" where
  "slot_events i es = filter (\<lambda>e. phase_change e = Some i) es"

lemma slot_events_snoc:
  "slot_events i (es @ [e]) = slot_events i es @ (if phase_change e = Some i then [e] else [])"
  by (simp add: slot_events_def)

definition tells :: "usize \<Rightarrow> event list \<Rightarrow> phase \<Rightarrow> bool" where
  "tells i es ph \<longleftrightarrow>
     (case ph of
        Free \<Rightarrow> True
      | Writing \<Rightarrow> (\<exists>h. slot_events i es = h @ [Claim i])
      | Ready c \<Rightarrow> (\<exists>h. slot_events i es = h @ [Claim i, Publish i c])
      | Claimed c \<Rightarrow> (\<exists>h. slot_events i es = h @ [Claim i, Publish i c, Take i])
      | Done c p \<Rightarrow> (\<exists>h. slot_events i es = h @ [Claim i, Publish i c, Take i, Reply i p]))"

lemma tells_other: "phase_change e \<noteq> Some i \<Longrightarrow> tells i (es @ [e]) ph \<longleftrightarrow> tells i es ph"
  by (cases ph) (simp_all add: tells_def slot_events_snoc)

lemma spec_step_other:
  assumes "spec_step S e S'" and "phase_change e \<noteq> Some i"
  shows "sp_phase S' i = sp_phase S i"
  by (rule spec_step.cases [OF assms(1)]) (use assms(2) in \<open>auto simp: set_phase_def put_message_def lose_def\<close>)

lemma spec_step_tells:
  assumes "spec_step S e S'" and "tells i es (sp_phase S i)"
  shows "tells i (es @ [e]) (sp_phase S' i)"
proof (cases "phase_change e = Some i")
  case True
  show ?thesis
    by (rule spec_step.cases [OF assms(1)])
      (use True assms(2) in \<open>auto simp: tells_def slot_events_snoc set_phase_def put_message_def\<close>)
next
  case False
  then show ?thesis using assms(2) tells_other [OF False] spec_step_other [OF assms(1) False] by simp
qed

text \<open>
  The body of a message: what happened on side \<open>s\<close> of slot \<open>i\<close> since the last message was written there, and whether
  its overflow region was dropped.
\<close>

fun writes_message :: "side \<Rightarrow> usize \<Rightarrow> event \<Rightarrow> bool" where
  "writes_message Req i (Publish j c) = (j = i)"
| "writes_message Resp i (Reply j p) = (j = i)"
| "writes_message s i e = False"

definition since_written :: "side \<Rightarrow> usize \<Rightarrow> event list \<Rightarrow> event list" where
  "since_written s i es = takeWhile (\<lambda>e. \<not> writes_message s i e) (rev es)"

definition body_dropped :: "side \<Rightarrow> usize \<Rightarrow> event list \<Rightarrow> bool" where
  "body_dropped s i es \<longleftrightarrow> Drop s i \<in> set (since_written s i es)"

lemma body_dropped_snoc:
  "body_dropped s i (es @ [e]) \<longleftrightarrow> \<not> writes_message s i e \<and> (e = Drop s i \<or> body_dropped s i es)"
  by (auto simp: body_dropped_def since_written_def)

definition loss_told :: "usize \<Rightarrow> event list \<Rightarrow> spec \<Rightarrow> bool" where
  "loss_told i es S \<longleftrightarrow> (\<forall>s. carries s (sp_phase S i) \<longrightarrow> sp_lost S i \<longrightarrow> body_dropped s i es)"

lemma carries_cases:
  "carries s ph \<longleftrightarrow> (s = Req \<and> (\<exists>c. ph = Ready c \<or> ph = Claimed c)) \<or> (s = Resp \<and> (\<exists>c p. ph = Done c p))"
  by (cases s; cases ph) simp_all

lemma spec_step_loss:
  assumes "spec_step S e S'" and "loss_told i es S"
  shows "loss_told i (es @ [e]) S'"
  by (rule spec_step.cases [OF assms(1)])
    (use assms(2) in \<open>auto simp: loss_told_def carries_cases body_dropped_snoc set_phase_def put_message_def lose_def split: if_splits\<close>)

text \<open>What the watcher carries was the reply in the slot it released last.\<close>

fun watcher_event :: "event \<Rightarrow> bool" where
  "watcher_event (Release i) = True"
| "watcher_event (Resolve calls) = True"
| "watcher_event e = False"

definition took :: "usize \<Rightarrow> event list \<Rightarrow> string \<Rightarrow> reply option \<Rightarrow> bool" where
  "took i es req_id q \<longleftrightarrow>
     (\<exists>h c p lost. slot_events i es = h @ [Claim i, Publish i c, Take i, Reply i p] \<and> req_id = cl_id c
        \<and> reads_reply lost p q \<and> (lost \<longrightarrow> body_dropped Resp i es))"

definition taken_told :: "event list \<Rightarrow> spec \<Rightarrow> bool" where
  "taken_told es S \<longleftrightarrow>
     (\<forall>req_id q. sp_taken S = Some (req_id, q) \<longrightarrow> (\<exists>pre post i. es = pre @ Release i # post
        \<and> (\<forall>e \<in> set post. \<not> watcher_event e) \<and> took i pre req_id q))"

lemma spec_step_taken:
  assumes "spec_step S e S'" and "taken_told es S" and "\<And>i. tells i es (sp_phase S i)" and "\<And>i. loss_told i es S"
  shows "taken_told (es @ [e]) S'"
proof -
  have old: "taken_told (es @ [e]) S'" if "sp_taken S' = sp_taken S" and "\<not> watcher_event e"
    unfolding taken_told_def that(1)
  proof (intro allI impI)
    fix req_id q
    assume "sp_taken S = Some (req_id, q)"
    then obtain pre post i where "es = pre @ Release i # post" "\<forall>e \<in> set post. \<not> watcher_event e" "took i pre req_id q"
      using assms(2) unfolding taken_told_def by blast
    then show "\<exists>pre post i. es @ [e] = pre @ Release i # post \<and> (\<forall>e \<in> set post. \<not> watcher_event e) \<and> took i pre req_id q"
      using that(2) by (intro exI [of _ pre] exI [of _ "post @ [e]"] exI [of _ i]) auto
  qed
  show ?thesis
    using assms(1)
  proof cases
    case (sp_release i c p q)
    have "tells i es (Done c p)" "sp_lost S i \<longrightarrow> body_dropped Resp i es"
      using assms(3) [of i] assms(4) [of i] sp_release by (simp_all add: loss_told_def)
    then have "took i es (cl_id c) q" using sp_release(5) unfolding took_def tells_def phase.case by blast
    then show ?thesis using sp_release(1,2) unfolding taken_told_def
      by (intro allI impI exI [of _ es] exI [of _ "[]"] exI [of _ i]) simp
  next
    case (sp_resolve tk calls pending)
    then show ?thesis by (simp add: taken_told_def)
  qed (rule old, simp add: set_phase_def put_message_def lose_def, simp)+
qed

lemma spec_run_history:
  assumes "spec_run S es S'" and "S = initial"
  shows "tells i es (sp_phase S' i)" and "sp_pending S' req_id = Some ch \<Longrightarrow> Register req_id ch \<in> set es"
    and "loss_told i es S'" and "taken_told es S'"
proof -
  have "(\<forall>i. tells i es (sp_phase S' i)) \<and> (\<forall>req_id ch. sp_pending S' req_id = Some ch \<longrightarrow> Register req_id ch \<in> set es)
      \<and> (\<forall>i. loss_told i es S') \<and> taken_told es S'"
    using assms
  proof (induction rule: spec_run.induct)
    case (spec_start S)
    then show ?case by (simp add: initial_def tells_def loss_told_def taken_told_def)
  next
    case (spec_more S es T e U)
    note IH = spec_more.IH [OF spec_more.prems]
    have "sp_pending U req_id = Some ch \<longrightarrow> Register req_id ch \<in> set (es @ [e])" for req_id ch
      using spec_more.hyps(2)
    proof cases
      case (sp_resolve tk calls pending)
      then show ?thesis using IH by (cases tk rule: prod.exhaust; cases "snd tk") (auto split: if_splits)
    qed (use IH in \<open>auto simp: set_phase_def put_message_def lose_def split: if_splits\<close>)
    then show ?case
      using IH spec_step_tells [OF spec_more.hyps(2)] spec_step_loss [OF spec_more.hyps(2)] spec_step_taken [OF spec_more.hyps(2)]
      by blast
  qed
  then show "tells i es (sp_phase S' i)" and "sp_pending S' req_id = Some ch \<Longrightarrow> Register req_id ch \<in> set es"
    and "loss_told i es S'" and "taken_told es S'"
    by blast+
qed

end
