(* ===== verification/Turns.thy ===== *)
theory Turns
  imports Traces
begin

text \<open>
  Whole operations on the protocol: what \<open>dispatch\<close>, one turn of the receive loop and one turn of the
  response watcher make of the phases, and the way of a call from its dispatch to its channel.
\<close>

text \<open>No message has lost its body and the watcher is between slots, as when nobody else acts.\<close>

definition calm :: "spec \<Rightarrow> bool" where
  "calm S \<longleftrightarrow> sp_lost S = (\<lambda>_. False) \<and> sp_taken S = None"

lemma calm_simps [simp]:
  "calm (set_phase i p S) \<longleftrightarrow> calm S" "calm (S\<lparr>sp_pending := pending\<rparr>) \<longleftrightarrow> calm S" "calm S \<Longrightarrow> calm (put_message i p S)"
  "calm initial"
  by (simp_all add: calm_def set_phase_def put_message_def initial_def fun_upd_idem)

lemma calmD:
  assumes "calm S"
  shows "\<not> sp_lost S i" and "sp_taken S = None" and "put_message i p S = set_phase i p S"
  using assms by (simp_all add: calm_def put_message_def set_phase_def fun_upd_idem)

section \<open>The worker's turn\<close>

text \<open>A handler that computes a reply and sends it; a failed send panics (\<^verbatim>\<open>expect\<close>).\<close>

definition replying ::
  "platform \<Rightarrow> 'os externals \<Rightarrow> 'os event_os \<Rightarrow> (request \<Rightarrow> reply) \<Rightarrow> 'os handler" where
  "replying pl X E g i rq s =
     (case send_response pl X E i (rp_status (g rq)) (rp_body (g rq)) (content_type (rp_meta (g rq)))
             (resp_headers (rp_meta (g rq))) s of
        Some (Inr _, s) \<Rightarrow> Some s
      | _ \<Rightarrow> None)"

definition answer :: "(request \<Rightarrow> reply) \<Rightarrow> phase \<Rightarrow> phase" where
  "answer g ph = (case ph of Ready c \<Rightarrow> Done c (g (request_of c)) | _ \<Rightarrow> ph)"

text \<open>The replies to what is waiting fit their arenas.\<close>

definition replies_fit :: "'os externals \<Rightarrow> shm_region \<Rightarrow> (request \<Rightarrow> reply) \<Rightarrow> (usize \<Rightarrow> phase) \<Rightarrow> bool" where
  "replies_fit X r g ph \<longleftrightarrow>
     (\<forall>i c. ph i = Ready c \<longrightarrow> reply_ok X (g (request_of c)) \<and> (\<exists>mb. response_to_vec X (rp_meta (g (request_of c))) = Inr mb
        \<and> payload_fits r Resp i mb (rp_body (g (request_of c)))))"

definition with_worker :: "'os system \<Rightarrow> worker \<times> 'os world \<Rightarrow> 'os system" where
  "with_worker \<sigma> s = \<sigma>\<lparr>sy_worker := fst s, sy_world := snd s\<rparr>"

lemma with_worker_simps [simp]:
  "sy_bus (with_worker \<sigma> s) = sy_bus \<sigma>" "sy_threads (with_worker \<sigma> s) = sy_threads \<sigma>"
  "sy_watcher (with_worker \<sigma> s) = sy_watcher \<sigma>"
  "sy_worker (with_worker \<sigma> (k, w)) = k" "sy_world (with_worker \<sigma> (k, w)) = w"
  "with_worker (with_worker \<sigma> s) s' = with_worker \<sigma> s'" "slots_of (with_worker \<sigma> s) = slots_of \<sigma>"
  by (simp_all add: with_worker_def slots_of_def)

lemma receive_slot_idle:
  assumes sim: "simulates V pl X S \<sigma>" and i: "unat i < slots_of \<sigma>" and ph: "\<And>c. sp_phase S i \<noteq> Ready c"
  shows "receive_slot pl X h i (sy_worker \<sigma>, sy_world \<sigma>) = Some (sy_worker \<sigma>, sy_world \<sigma>)"
proof -
  note sD = simulatesD [OF sim] note L = linked_live [OF sD(2,1)]
  have ir: "unat i < unat (r_num_slots (wk_region (sy_worker \<sigma>)))" using i L by (simp add: slots_of_def)
  have "status_at (wk_region (sy_worker \<sigma>)) i (sy_world \<sigma>) \<noteq> SLOT_READY"
    using slot_matches_phase(2) [OF sim_slot [OF sim i]] ph L by simp
  then show ?thesis using status_ops(3) [OF liveD(1) [OF L(1)] ir] by (simp add: receive_slot_def Let_def)
qed

text \<open>What a worker turn does with a waiting request up to the handler.\<close>

lemma receive_slot_delivers:
  assumes doc: "shmem_documented X V" "postcard_documented X"
    and sim: "simulates V pl X S \<sigma>" and calm: "calm S" and i: "unat i < slots_of \<sigma>" and ph: "sp_phase S i = Ready c"
    and idle: "sy_threads \<sigma> t = None"
  shows "\<exists>w. (\<forall>h. receive_slot pl X h i (sy_worker \<sigma>, sy_world \<sigma>) = h i (request_of c) (sy_worker \<sigma>, w))
    \<and> simulates V pl X (set_phase i (Claimed c) S)
        (\<sigma>\<lparr>sy_world := w, sy_threads := (sy_threads \<sigma>)(t \<mapsto> Handling i (request_of c))\<rparr>)"
proof -
  let ?k = "sy_worker \<sigma>" and ?r = "wk_region (sy_worker \<sigma>)"
  note sD = simulatesD [OF sim] note L = linked_live [OF sD(2,1)]
  have ir: "unat i < unat (r_num_slots ?r)" using i L by (simp add: slots_of_def)
  let ?w1 = "put (r_ptr ?r) (slot_start i) (le32 SLOT_CLAIMED) (sy_world \<sigma>)"
  have "status_at ?r i (sy_world \<sigma>) = SLOT_READY" using slot_matches_phase(2) [OF sim_slot [OF sim i]] ph L by simp
  then have cas: "cas_status ?r i SLOT_READY SLOT_CLAIMED (sy_world \<sigma>) = Some (Inr SLOT_READY, ?w1)"
    using status_ops(3) [OF liveD(1) [OF L(1)] ir] by simp
  let ?\<sigma>1 = "\<sigma>\<lparr>sy_world := ?w1, sy_threads := (sy_threads \<sigma>)(t \<mapsto> Reading i)\<rparr>" and ?S1 = "set_phase i (Claimed c) S"
  have sim1: "simulates V pl X ?S1 ?\<sigma>1" using take_simulated [OF doc(1) sim idle i cas] ph by auto
  have th1: "sy_threads ?\<sigma>1 t = Some (Reading i)" by simp
  have whole: "\<not> sp_lost ?S1 i" using calmD(1) [OF calm] by (simp add: set_phase_def)
  obtain w2 where rd: "read_request pl X ?r i (wk_config ?k) ?w1
      = Some (Inr (cl_id c, method_to_u8 (cl_method c), cl_meta c, cl_body c), w2)"
    using claimed_read [OF doc sim1 th1] whole by (auto simp: set_phase_def)
  have "simulates V pl X ?S1 (\<sigma>\<lparr>sy_world := w2, sy_threads := (sy_threads \<sigma>)(t \<mapsto> Handling i (request_of c))\<rparr>)"
    using deliver_simulated [OF doc sim1 th1, of "cl_id c" "method_to_u8 (cl_method c)" "cl_meta c" "cl_body c" w2] rd
    by (auto simp: request_of_def)
  moreover have "receive_slot pl X h i (?k, sy_world \<sigma>) = h i (request_of c) (?k, w2)" for h
    using cas rd by (simp add: receive_slot_def Let_def request_of_def)
  ultimately show ?thesis by blast
qed

lemma receive_slot_ready:
  assumes doc: "shmem_documented X V" "postcard_documented X" "events_separate E V"
    and sim: "simulates V pl X S \<sigma>" and calm: "calm S" and i: "unat i < slots_of \<sigma>" and ph: "sp_phase S i = Ready c"
    and idle: "sy_threads \<sigma> t = None"
    and ok: "reply_ok X (g (request_of c))" and vec: "response_to_vec X (rp_meta (g (request_of c))) = Inr mb"
    and fits: "payload_fits (wk_region (sy_worker \<sigma>)) Resp i mb (rp_body (g (request_of c)))"
  shows "\<exists>k w. receive_slot pl X (replying pl X E g) i (sy_worker \<sigma>, sy_world \<sigma>) = Some (k, w)
    \<and> wk_region k = wk_region (sy_worker \<sigma>)
    \<and> simulates V pl X (set_phase i (Done c (g (request_of c))) S) (with_worker \<sigma> (k, w))"
proof -
  let ?p = "g (request_of c)" and ?S1 = "set_phase i (Claimed c) S"
  obtain w1 where run: "\<And>h. receive_slot pl X h i (sy_worker \<sigma>, sy_world \<sigma>) = h i (request_of c) (sy_worker \<sigma>, w1)"
    and sim1: "simulates V pl X ?S1 (\<sigma>\<lparr>sy_world := w1, sy_threads := (sy_threads \<sigma>)(t \<mapsto> Handling i (request_of c))\<rparr>)"
    using receive_slot_delivers [OF doc(1,2) sim calm i ph idle] by blast
  let ?\<sigma>1 = "\<sigma>\<lparr>sy_world := w1, sy_threads := (sy_threads \<sigma>)(t \<mapsto> Handling i (request_of c))\<rparr>"
  have th: "sy_threads ?\<sigma>1 t = Some (Handling i (request_of c))" by simp
  from respond_simulated [OF doc(1,3) sim1 th ok vec] fits
  obtain k w where rs: "respond pl X E i ?p ?\<sigma>1 = Some (Inr (), k, w)" and same: "wk_region k = wk_region (sy_worker \<sigma>)"
    and sim2: "simulates V pl X (put_message i (Done c ?p) ?S1)
      (?\<sigma>1\<lparr>sy_worker := k, sy_world := w, sy_threads := (sy_threads ?\<sigma>1)(t := None)\<rparr>)"
    by (auto simp: set_phase_def)
  have "receive_slot pl X (replying pl X E g) i (sy_worker \<sigma>, sy_world \<sigma>) = Some (k, w)"
    using run rs by (simp add: replying_def respond_def)
  moreover have "put_message i (Done c ?p) ?S1 = set_phase i (Done c ?p) S"
    using calm by (simp add: calmD(3)) (simp add: set_phase_def)
  moreover have "?\<sigma>1\<lparr>sy_worker := k, sy_world := w, sy_threads := (sy_threads ?\<sigma>1)(t := None)\<rparr> = with_worker \<sigma> (k, w)"
    using idle by (simp add: with_worker_def fun_upd_idem)
  ultimately show ?thesis using sim2 same by auto
qed

definition answer_slots :: "(request \<Rightarrow> reply) \<Rightarrow> usize list \<Rightarrow> spec \<Rightarrow> spec" where
  "answer_slots g is S = S\<lparr>sp_phase := (\<lambda>i. if i \<in> set is then answer g (sp_phase S i) else sp_phase S i)\<rparr>"

lemma answer_slots_simps [simp]:
  "answer_slots g [] S = S"
  "answer_slots g is (set_phase i (answer g (sp_phase S i)) S) = answer_slots g (i # is) S"
  "calm (answer_slots g is S) \<longleftrightarrow> calm S"
proof -
  have "answer g (answer g ph) = answer g ph" for ph by (cases ph) (simp_all add: answer_def)
  then show "answer_slots g is (set_phase i (answer g (sp_phase S i)) S) = answer_slots g (i # is) S"
    by (auto simp: answer_slots_def set_phase_def fun_eq_iff)
qed (simp_all add: answer_slots_def calm_def)

lemma receive_scan_simulated:
  assumes doc: "shmem_documented X V" "postcard_documented X" "events_separate E V"
  shows "simulates V pl X S \<sigma> \<Longrightarrow> \<forall>i \<in> set is. unat i < slots_of \<sigma> \<Longrightarrow> sy_threads \<sigma> t = None \<Longrightarrow>
    replies_fit X (wk_region (sy_worker \<sigma>)) g (sp_phase S) \<Longrightarrow> calm S \<Longrightarrow>
    \<exists>k w. receive_scan pl X (replying pl X E g) is (sy_worker \<sigma>, sy_world \<sigma>) = Some (k, w)
      \<and> simulates V pl X (answer_slots g is S) (with_worker \<sigma> (k, w))"
proof (induction "is" arbitrary: S \<sigma>)
  case Nil
  then show ?case by (simp add: with_worker_def)
next
  case (Cons i "is")
  let ?S = "set_phase i (answer g (sp_phase S i)) S"
  have i: "unat i < slots_of \<sigma>" using Cons.prems(2) by simp
  obtain k w where one: "receive_slot pl X (replying pl X E g) i (sy_worker \<sigma>, sy_world \<sigma>) = Some (k, w)"
    and reg: "wk_region k = wk_region (sy_worker \<sigma>)" and sim: "simulates V pl X ?S (with_worker \<sigma> (k, w))"
  proof (cases "\<exists>c. sp_phase S i = Ready c")
    case True
    then obtain c where ph: "sp_phase S i = Ready c" ..
    then obtain mb where "reply_ok X (g (request_of c))" "response_to_vec X (rp_meta (g (request_of c))) = Inr mb"
      "payload_fits (wk_region (sy_worker \<sigma>)) Resp i mb (rp_body (g (request_of c)))"
      using Cons.prems(4) unfolding replies_fit_def by blast
    from receive_slot_ready [where g = g, OF doc Cons.prems(1,5) i ph Cons.prems(3) this] show ?thesis
      using that ph by (auto simp: answer_def)
  next
    case False
    then have "set_phase i (answer g (sp_phase S i)) S = S"
      by (cases "sp_phase S i") (simp_all add: answer_def set_phase_def fun_upd_idem)
    then show ?thesis
      using receive_slot_idle [OF Cons.prems(1) i] False that [of "sy_worker \<sigma>" "sy_world \<sigma>"] Cons.prems(1)
      by (simp add: with_worker_def)
  qed
  have "replies_fit X (wk_region k) g (sp_phase ?S)"
    using Cons.prems(4) unfolding replies_fit_def reg
    by (auto simp: set_phase_def answer_def split: phase.splits)
  with Cons.IH [OF sim] Cons.prems(2,3,5) one show ?case by simp
qed


lemma wait_total:
  assumes "pl = MacOS \<longrightarrow> clock_documented E"
  shows "\<exists>b w'. event_wait_timeout pl E ev ms w = Some (b, w')"
proof (cases ev)
  case (WindowsEvent h)
  then show ?thesis by (cases "WaitForSingleObject E h ms w") (simp add: event_wait_timeout_def)
next
  case (UnixEvent sem name created)
  let ?d = "instant_now E w + unat ms * 1000000"
  have "poll_wait E sem ?d w \<noteq> None" if "pl = MacOS"
    by (rule poll_wait_ends [of E _ _ "unat ms"]) (use assms that in simp_all)
  then show ?thesis
    using UnixEvent by (cases "sem_timedwait E sem (deadline_timespec (clock_realtime E w) ms) w")
      (auto simp: event_wait_timeout_def)
qed

lemma waited_simulates:
  assumes "simulates V pl X S \<sigma>" and "events_separate E V" and "event_wait_timeout pl E ev ms (sy_world \<sigma>) = Some (b, w)"
  shows "simulates V pl X S (\<sigma>\<lparr>sy_world := w\<rparr>)"
proof -
  note sD = simulatesD [OF assms(1)]
  have "affects V (r_ptr (bus_region (sy_bus \<sigma>))) {} {} (sy_world \<sigma>) w"
    using same_affects [OF wait_same [OF assms(2,3)]] liveD(3) [OF sD(1)] by blast
  then show ?thesis using sD(5,6,7) by (intro quiet_simulated [OF assms(1)]) simp_all
qed

text \<open>One turn of the receive loop answers every waiting request.\<close>

lemma receive_turn_simulated:
  assumes doc: "shmem_documented X V" "postcard_documented X" "events_separate E V" "pl = MacOS \<longrightarrow> clock_documented E"
    and sim: "simulates V pl X S \<sigma>" and idle: "sy_threads \<sigma> t = None"
    and fit: "replies_fit X (wk_region (sy_worker \<sigma>)) g (sp_phase S)" and calm: "calm S"
  shows "\<exists>k w. receive_turn pl X E (replying pl X E g) (sy_worker \<sigma>, sy_world \<sigma>) = Some (k, w)
    \<and> simulates V pl X (answer_slots g (slot_indices (bus_region (sy_bus \<sigma>))) S) (with_worker \<sigma> (k, w))"
proof -
  let ?k = "sy_worker \<sigma>"
  obtain b w1 where wt: "event_wait_timeout pl E (wk_req_event ?k) (cfg_wait_timeout_ms (wk_config ?k)) (sy_world \<sigma>) = Some (b, w1)"
    using wait_total [OF doc(4)] by blast
  let ?\<sigma> = "\<sigma>\<lparr>sy_world := w1\<rparr>"
  note sim1 = waited_simulates [OF sim doc(3) wt]
  have idx: "slot_indices (wk_region ?k) = slot_indices (bus_region (sy_bus \<sigma>))"
    using linked_live(3) [OF simulatesD(2,1) [OF sim]] by (simp add: slot_indices_def)
  have "\<forall>i \<in> set (slot_indices (bus_region (sy_bus \<sigma>))). unat i < slots_of ?\<sigma>"
    by (simp add: slot_indices_set slots_of_def)
  from receive_scan_simulated [OF doc(1-3) sim1 this, of t g] idle fit calm
  show ?thesis using wt idx by (auto simp: receive_turn_def with_worker_def)
qed

section \<open>The watcher's turn\<close>

definition take_reply :: "usize \<Rightarrow> spec \<Rightarrow> spec \<times> channel_call list" where
  "take_reply i S =
     (case sp_phase S i of
        Done c p \<Rightarrow> ((set_phase i Free S)\<lparr>sp_pending := (sp_pending S)(cl_id c := None)\<rparr>,
                     resolution (sp_pending S (cl_id c)) p)
      | _ \<Rightarrow> (S, []))"

fun take_replies :: "usize list \<Rightarrow> spec \<Rightarrow> spec \<times> channel_call list" where
  "take_replies [] S = (S, [])"
| "take_replies (i # is) S =
     (case take_reply i S of (S, calls) \<Rightarrow> case take_replies is S of (S, rest) \<Rightarrow> (S, calls @ rest))"

lemma watch_slot_keeps:
  assumes "watch_slot pl X i (b, w) = Some (b', w')"
  shows "bus_region b' = bus_region b" and "bus_config b' = bus_config b" and "bus_running b' = bus_running b"
    and "bus_rsp_event b' = bus_rsp_event b"
  using assms
  by (auto simp: watch_slot_defs bus_forget_def Let_def split: bind_splits if_splits sum.splits prod.splits option.splits)

lemma watch_scan_keeps: "watch_scan pl X is s = Some s' \<Longrightarrow> bus_region (fst s') = bus_region (fst s)"
proof (induction "is" arbitrary: s)
  case (Cons i "is")
  then obtain s1 where "watch_slot pl X i s = Some s1" "watch_scan pl X is s1 = Some s'" by (auto split: bind_splits)
  with Cons.IH [of s1] show ?case by (cases s; cases s1) (auto dest: watch_slot_keeps(1))
qed simp

lemma watch_turn_keeps: "watch_turn pl X E (b, w) = Some (b', w') \<Longrightarrow> bus_region b' = bus_region b"
  by (auto simp: watch_turn_def dest!: watch_scan_keeps split: bind_splits)

lemma take_reply_calm [simp]: "calm S \<Longrightarrow> calm (fst (take_reply i S))"
  by (simp add: take_reply_def split: phase.split)

lemma take_replies_calm [simp]: "calm S \<Longrightarrow> calm (fst (take_replies is S))"
proof (induction "is" arbitrary: S)
  case (Cons i "is")
  have "fst (take_replies (i # is) S) = fst (take_replies is (fst (take_reply i S)))" by (simp split: prod.split)
  then show ?case using Cons by simp
qed simp

text \<open>The watcher's three steps on a slot in one go.\<close>

lemma collect_simulated:
  assumes doc: "shmem_documented X V" "postcard_documented X" and sim: "simulates V pl X S \<sigma>" and calm: "calm S"
    and i: "unat i < slots_of \<sigma>" and ph: "sp_phase S i = Done c p"
  shows "\<exists>b w. watch_slot pl X i (sy_bus \<sigma>, sy_world \<sigma>) = Some (b, w)
    \<and> bus_calls b = bus_calls (sy_bus \<sigma>) @ resolution (sp_pending S (cl_id c)) p
    \<and> simulates V pl X ((set_phase i Free S)\<lparr>sp_pending := (sp_pending S)(cl_id c := None)\<rparr>)
        (\<sigma>\<lparr>sy_bus := b, sy_world := w\<rparr>)"
proof -
  have scan: "sy_watcher \<sigma> = Scanning"
    using simulatesD(7) [OF sim] calmD(2) [OF calm] by (cases "sy_watcher \<sigma>") auto
  obtain req_id res w1 where rel: "watch_release pl X i (sy_bus \<sigma>) (sy_world \<sigma>) = Some (Some (req_id, res), w1)"
    using release_result [OF doc sim i] ph by (auto split: option.splits)
  let ?\<sigma>1 = "\<sigma>\<lparr>sy_world := w1, sy_watcher := Released i req_id res\<rparr>"
  have id: "req_id = cl_id c"
    and sim1: "simulates V pl X ((set_phase i Free S)\<lparr>sp_taken := Some (cl_id c, Some p)\<rparr>) ?\<sigma>1"
    using release_simulated [OF doc sim i scan rel] ph calmD(1) [OF calm] by (auto simp: reads_reply_def)
  let ?S1 = "(set_phase i Free S)\<lparr>sp_taken := Some (cl_id c, Some p)\<rparr>"
  obtain b2 w2 where fg: "bus_forget X i (sy_bus \<sigma>, w1) = (b2, w2)" by fastforce
  then have b2: "bus_calls b2 = bus_calls (sy_bus \<sigma>)" by (auto simp: bus_forget_def)
  have at1: "sy_watcher ?\<sigma>1 = Released i req_id res" by simp
  let ?\<sigma>2 = "\<sigma>\<lparr>sy_bus := b2, sy_world := w2, sy_watcher := Resolving req_id res\<rparr>"
  have "sp_phase ?S1 i = Free" by (simp add: set_phase_def)
  then have sim2: "simulates V pl X ?S1 ?\<sigma>2" using forget_simulated [OF doc(1) sim1 at1, of b2 w2] fg by simp
  have at2: "sy_watcher ?\<sigma>2 = Resolving req_id res" by simp
  let ?b3 = "watch_send req_id res b2"
  from send_simulated [OF sim2 at2]
  have "bus_calls ?b3 = bus_calls (sy_bus \<sigma>) @ resolution (sp_pending S (cl_id c)) p"
    "simulates V pl X (?S1\<lparr>sp_taken := None, sp_pending := (sp_pending S)(cl_id c := None)\<rparr>)
      (?\<sigma>2\<lparr>sy_bus := ?b3, sy_watcher := Scanning\<rparr>)"
    using b2 id by (auto simp: set_phase_def)
  moreover have "?S1\<lparr>sp_taken := None, sp_pending := (sp_pending S)(cl_id c := None)\<rparr>
      = (set_phase i Free S)\<lparr>sp_pending := (sp_pending S)(cl_id c := None)\<rparr>"
    using calmD(2) [OF calm] by (cases S) (simp add: set_phase_def)
  moreover have "?\<sigma>2\<lparr>sy_bus := ?b3, sy_watcher := Scanning\<rparr> = \<sigma>\<lparr>sy_bus := ?b3, sy_world := w2\<rparr>"
    using scan by (cases \<sigma>) simp
  moreover have "watch_slot pl X i (sy_bus \<sigma>, sy_world \<sigma>) = Some (?b3, w2)"
    using rel fg by (simp add: watch_slot_def watch_resolve_def)
  ultimately show ?thesis by (intro exI [of _ ?b3] exI [of _ w2]) simp
qed

lemma watch_slot_simulated:
  assumes doc: "shmem_documented X V" "postcard_documented X" and sim: "simulates V pl X S \<sigma>" and calm: "calm S"
    and i: "unat i < slots_of \<sigma>"
  shows "\<exists>b w. watch_slot pl X i (sy_bus \<sigma>, sy_world \<sigma>) = Some (b, w)
    \<and> bus_calls b = bus_calls (sy_bus \<sigma>) @ snd (take_reply i S)
    \<and> simulates V pl X (fst (take_reply i S)) (\<sigma>\<lparr>sy_bus := b, sy_world := w\<rparr>)"
proof (cases "\<exists>c p. sp_phase S i = Done c p")
  case True
  then obtain c p where "sp_phase S i = Done c p" by blast
  from collect_simulated [OF doc sim calm i this] this show ?thesis by (simp add: take_reply_def)
next
  case False
  then have "watch_release pl X i (sy_bus \<sigma>) (sy_world \<sigma>) = Some (None, sy_world \<sigma>)"
    using release_result [OF doc sim i] by (fastforce split: option.splits)
  moreover have "take_reply i S = (S, [])" using False by (cases "sp_phase S i") (auto simp: take_reply_def)
  ultimately show ?thesis using sim by (simp add: watch_slot_def)
qed

lemma watch_scan_simulated:
  assumes doc: "shmem_documented X V" "postcard_documented X"
  shows "simulates V pl X S \<sigma> \<Longrightarrow> calm S \<Longrightarrow> \<forall>i \<in> set is. unat i < slots_of \<sigma> \<Longrightarrow>
    \<exists>b w. watch_scan pl X is (sy_bus \<sigma>, sy_world \<sigma>) = Some (b, w)
      \<and> bus_calls b = bus_calls (sy_bus \<sigma>) @ snd (take_replies is S)
      \<and> simulates V pl X (fst (take_replies is S)) (\<sigma>\<lparr>sy_bus := b, sy_world := w\<rparr>)"
proof (induction "is" arbitrary: S \<sigma>)
  case Nil
  then show ?case by simp
next
  case (Cons i "is")
  have "unat i < slots_of \<sigma>" using Cons.prems(3) by simp
  from watch_slot_simulated [OF doc Cons.prems(1,2) this]
  obtain b w where one: "watch_slot pl X i (sy_bus \<sigma>, sy_world \<sigma>) = Some (b, w)"
    "bus_calls b = bus_calls (sy_bus \<sigma>) @ snd (take_reply i S)"
    and sim: "simulates V pl X (fst (take_reply i S)) (\<sigma>\<lparr>sy_bus := b, sy_world := w\<rparr>)"
    by blast
  let ?\<sigma> = "\<sigma>\<lparr>sy_bus := b, sy_world := w\<rparr>"
  have "slots_of ?\<sigma> = slots_of \<sigma>"
    using watch_slot_keeps(1) [OF one(1)] by (simp add: slots_of_def)
  then show ?case using Cons.IH [OF sim take_reply_calm [OF Cons.prems(2)]] Cons.prems(3) one by (auto split: prod.splits)
qed


lemma watch_turn_simulated:
  assumes doc: "shmem_documented X V" "postcard_documented X" "events_separate E V" "pl = MacOS \<longrightarrow> clock_documented E"
    and sim: "simulates V pl X S \<sigma>" and calm: "calm S"
  shows "\<exists>b w. watch_turn pl X E (sy_bus \<sigma>, sy_world \<sigma>) = Some (b, w)
    \<and> bus_calls b = bus_calls (sy_bus \<sigma>) @ snd (take_replies (slot_indices (bus_region (sy_bus \<sigma>))) S)
    \<and> simulates V pl X (fst (take_replies (slot_indices (bus_region (sy_bus \<sigma>))) S)) (\<sigma>\<lparr>sy_bus := b, sy_world := w\<rparr>)"
proof -
  let ?b = "sy_bus \<sigma>"
  obtain x w1 where wt: "event_wait_timeout pl E (bus_rsp_event ?b) (cfg_wait_timeout_ms (bus_config ?b)) (sy_world \<sigma>) = Some (x, w1)"
    using wait_total [OF doc(4)] by blast
  let ?\<sigma> = "\<sigma>\<lparr>sy_world := w1\<rparr>"
  note sim1 = waited_simulates [OF sim doc(3) wt]
  have "\<forall>i \<in> set (slot_indices (bus_region ?b)). unat i < slots_of ?\<sigma>"
    by (simp add: slot_indices_set slots_of_def)
  from watch_scan_simulated [OF doc(1,2) sim1 calm this] wt show ?thesis by (auto simp: watch_turn_def)
qed

text \<open>What a turn of the watcher leaves of the phases, and whom it answers.\<close>

lemma take_reply_phase:
  "sp_phase (fst (take_reply i S)) j = (if j = i \<and> (\<exists>c p. sp_phase S i = Done c p) then Free else sp_phase S j)"
  by (auto simp: take_reply_def set_phase_def split: phase.split)

lemma take_replies_phase:
  "sp_phase (fst (take_replies is S)) j = (if j \<in> set is \<and> (\<exists>c p. sp_phase S j = Done c p) then Free else sp_phase S j)"
proof (induction "is" arbitrary: S)
  case (Cons i "is")
  obtain S1 calls where t: "take_reply i S = (S1, calls)" by fastforce
  have p: "sp_phase S1 j = (if j = i \<and> (\<exists>c p. sp_phase S i = Done c p) then Free else sp_phase S j)" for j
    using take_reply_phase [of i S j] t by simp
  have "fst (take_replies (i # is) S) = fst (take_replies is S1)" using t by (simp split: prod.split)
  then show ?case using Cons.IH [of S1] p [of j] by (cases "j = i") auto
qed simp

lemma take_reply_pending:
  "(\<And>c p. sp_phase S i = Done c p \<Longrightarrow> cl_id c \<noteq> req_id) \<Longrightarrow> sp_pending (fst (take_reply i S)) req_id = sp_pending S req_id"
  by (auto simp: take_reply_def set_phase_def split: phase.split)

lemma take_replies_answers:
  assumes "i \<in> set is" and "sp_phase S i = Done c p" and "sp_pending S (cl_id c) = Some ch"
    and "\<And>j c' p'. j \<noteq> i \<Longrightarrow> sp_phase S j = Done c' p' \<Longrightarrow> cl_id c' \<noteq> cl_id c"
  shows "SendResponse ch (response_of p) \<in> set (snd (take_replies is S))"
  using assms
proof (induction "is" arbitrary: S)
  case (Cons j "is")
  obtain S1 calls where t: "take_reply j S = (S1, calls)" by fastforce
  have step: "snd (take_replies (j # is) S) = calls @ snd (take_replies is S1)" using t by (simp split: prod.split)
  show ?case
  proof (cases "j = i")
    case True
    then have "calls = [SendResponse ch (response_of p)]"
      using t Cons.prems(2,3) by (auto simp: take_reply_def resolution_def)
    then show ?thesis using step by simp
  next
    case False
    have ph: "sp_phase S1 k = (if k = j \<and> (\<exists>c p. sp_phase S j = Done c p) then Free else sp_phase S k)" for k
      using take_reply_phase [of j S k] t by simp
    have "sp_pending S1 (cl_id c) = Some ch"
      using take_reply_pending [of S j "cl_id c"] Cons.prems(3) Cons.prems(4) [OF False] t by simp
    moreover have "cl_id c' \<noteq> cl_id c" if "k \<noteq> i" "sp_phase S1 k = Done c' p'" for k c' p'
      using Cons.prems(4) that ph [of k] by (auto split: if_splits)
    ultimately have "SendResponse ch (response_of p) \<in> set (snd (take_replies is S1))"
      using Cons.prems(1,2) False ph [of i] by (intro Cons.IH) auto
    then show ?thesis using step by simp
  qed
qed simp

section \<open>Dispatch\<close>

lemma dispatch_claims:
  assumes sim: "simulates V pl X S \<sigma>"
  shows "claim_free_slot (bus_region (sy_bus \<sigma>)) (sy_world \<sigma>) =
    (case find (\<lambda>i. sp_phase S i = Free) (slot_indices (bus_region (sy_bus \<sigma>))) of
       None \<Rightarrow> Some (None, sy_world \<sigma>)
     | Some i \<Rightarrow> Some (Some i, put (r_ptr (bus_region (sy_bus \<sigma>))) (slot_start i) (le32 SLOT_WRITING) (sy_world \<sigma>)))"
proof -
  let ?r = "bus_region (sy_bus \<sigma>)" and ?w = "sy_world \<sigma>"
  note sD = simulatesD [OF sim]
  have "find (\<lambda>i. status_at ?r i ?w = SLOT_FREE) (slot_indices ?r) = find (\<lambda>i. sp_phase S i = Free) (slot_indices ?r)"
  proof (rule find_cong [OF refl])
    fix i
    assume "i \<in> set (slot_indices ?r)"
    then have "unat i < slots_of \<sigma>" by (simp add: slot_indices_set slots_of_def)
    from slot_matches_phase(1) [OF sim_slot [OF sim this]]
    show "(status_at ?r i ?w = SLOT_FREE) = (sp_phase S i = Free)" .
  qed
  then show ?thesis
    using claim_first_eq [OF liveD(1) [OF sD(1)], of "slot_indices ?r"]
    by (simp add: claim_free_slot_def slot_indices_set)
qed

definition register_call :: "usize \<Rightarrow> call \<Rightarrow> nat \<Rightarrow> spec \<Rightarrow> spec" where
  "register_call i c ch S = (put_message i (Ready c) S)\<lparr>sp_pending := (sp_pending S)(cl_id c \<mapsto> ch)\<rparr>"

lemma register_call_simps [simp]:
  "sp_phase (register_call i c ch S) = (sp_phase S)(i := Ready c)"
  "sp_pending (register_call i c ch S) = (sp_pending S)(cl_id c \<mapsto> ch)"
  "calm S \<Longrightarrow> calm (register_call i c ch S)"
  by (simp_all add: register_call_def put_message_def set_phase_def calm_def fun_upd_idem)

text \<open>Metadata that cannot be serialised: the slot has been reserved before the error.\<close>

lemma dispatch_unserialisable:
  assumes doc: "shmem_documented X V" and sim: "simulates V pl X S \<sigma>" and idle: "sy_threads \<sigma> t = None"
    and c: "call_ok X c" and vec: "request_to_vec X (cl_meta c) = Inl err"
    and free: "find (\<lambda>i. sp_phase S i = Free) (slot_indices (bus_region (sy_bus \<sigma>))) = Some i"
  shows "\<exists>w. bus_dispatch pl X E (cl_id c) (cl_method c) (cl_meta c) (cl_body c) (sy_bus \<sigma>, sy_world \<sigma>)
      = Some (Inl (Serialization err), sy_bus \<sigma>, w)
    \<and> unat i < slots_of \<sigma> \<and> sp_phase S i = Free \<and> simulates V pl X (set_phase i Writing S) (\<sigma>\<lparr>sy_world := w\<rparr>)"
proof -
  let ?r = "bus_region (sy_bus \<sigma>)"
  let ?w = "put (r_ptr ?r) (slot_start i) (le32 SLOT_WRITING) (sy_world \<sigma>)"
  note sD = simulatesD [OF sim]
  have fi: "unat i < slots_of \<sigma>" "sp_phase S i = Free"
    using free by (auto simp: find_Some_iff slots_of_def slot_indices_set dest!: nth_mem)
  have ir: "unat i < unat (r_num_slots ?r)" using fi by (simp add: slots_of_def)
  have "status_at ?r i (sy_world \<sigma>) = SLOT_FREE" using slot_matches_phase(1) [OF sim_slot [OF sim fi(1)]] fi by simp
  then have cas: "cas_status ?r i SLOT_FREE SLOT_WRITING (sy_world \<sigma>) = Some (Inr SLOT_FREE, ?w)"
    using status_ops(3) [OF liveD(1) [OF sD(1)] ir] by simp
  have "bus_dispatch pl X E (cl_id c) (cl_method c) (cl_meta c) (cl_body c) (sy_bus \<sigma>, sy_world \<sigma>)
      = Some (Inl (Serialization err), sy_bus \<sigma>, ?w)"
    using dispatch_claims [OF sim] vec free by (simp add: bus_dispatch_def dispatch_fill_def)
  moreover have "simulates V pl X (set_phase i Writing S) (\<sigma>\<lparr>sy_world := ?w\<rparr>)"
    using thread_leaves [OF claim_simulated(2) [OF doc sim idle fi(1) c cas], of t] idle by (simp add: fun_upd_idem)
  ultimately show ?thesis using fi by blast
qed

lemma dispatch_simulated:
  assumes doc: "shmem_documented X V" "events_separate E V" and sim: "simulates V pl X S \<sigma>"
    and idle: "sy_threads \<sigma> t = None" and c: "call_ok X c" and vec: "request_to_vec X (cl_meta c) = Inr mb"
  shows "\<exists>res b w. bus_dispatch pl X E (cl_id c) (cl_method c) (cl_meta c) (cl_body c) (sy_bus \<sigma>, sy_world \<sigma>) = Some (res, b, w)
    \<and> (case find (\<lambda>i. sp_phase S i = Free) (slot_indices (bus_region (sy_bus \<sigma>))) of
         None \<Rightarrow> res = Inl (NoFreeSlots (cfg_num_slots (bus_config (sy_bus \<sigma>)))) \<and> b = sy_bus \<sigma> \<and> w = sy_world \<sigma>
       | Some i \<Rightarrow> (payload_fits (bus_region (sy_bus \<sigma>)) Req i mb (cl_body c) \<longrightarrow> (\<exists>ch. res = Inr ch))
           \<and> (case res of
                Inl e \<Rightarrow> simulates V pl X S (\<sigma>\<lparr>sy_bus := b, sy_world := w\<rparr>)
              | Inr ch \<Rightarrow> simulates V pl X (register_call i c ch S) (\<sigma>\<lparr>sy_bus := b, sy_world := w\<rparr>)))"
proof (cases "find (\<lambda>i. sp_phase S i = Free) (slot_indices (bus_region (sy_bus \<sigma>)))")
  case None
  then show ?thesis using dispatch_claims [OF sim] by (simp add: bus_dispatch_def)
next
  case (Some i)
  let ?b = "sy_bus \<sigma>" and ?r = "bus_region (sy_bus \<sigma>)"
  let ?w1 = "put (r_ptr ?r) (slot_start i) (le32 SLOT_WRITING) (sy_world \<sigma>)"
  note sD = simulatesD [OF sim]
  have fi: "unat i < slots_of \<sigma>" "sp_phase S i = Free"
    using Some by (auto simp: find_Some_iff slots_of_def slot_indices_set dest!: nth_mem)
  have ir: "unat i < unat (r_num_slots ?r)" using fi by (simp add: slots_of_def)
  have "status_at ?r i (sy_world \<sigma>) = SLOT_FREE" using slot_matches_phase(1) [OF sim_slot [OF sim fi(1)]] fi by simp
  then have cas: "cas_status ?r i SLOT_FREE SLOT_WRITING (sy_world \<sigma>) = Some (Inr SLOT_FREE, ?w1)"
    using status_ops(3) [OF liveD(1) [OF sD(1)] ir] by simp
  let ?\<sigma>1 = "\<sigma>\<lparr>sy_world := ?w1, sy_threads := (sy_threads \<sigma>)(t \<mapsto> Filling i c)\<rparr>" and ?S1 = "set_phase i Writing S"
  note sim1 = claim_simulated(2) [OF doc(1) sim idle fi(1) c cas]
  have th1: "sy_threads ?\<sigma>1 t = Some (Filling i c)" by simp
  from fill_simulated [OF doc(1) sim1 th1 vec]
  obtain res b w where f: "fill pl X i c ?\<sigma>1 = Some (res, b, w)"
    and inl: "payload_fits ?r Req i mb (cl_body c) \<longrightarrow> res = Inr ()"
    and sim2: "\<And>a. (\<And>x. a = Some x \<Longrightarrow> slot_of x = None \<and> (\<forall>j. activity_ok (slots_of ?\<sigma>1) X j x)) \<Longrightarrow>
      (\<And>s i. hands a s i = None) \<Longrightarrow>
      simulates V pl X (case res of Inl e \<Rightarrow> set_phase i Free ?S1 | Inr u \<Rightarrow> put_message i (Ready c) ?S1)
        (?\<sigma>1\<lparr>sy_bus := b, sy_world := w, sy_threads := (sy_threads ?\<sigma>1)(t := a)\<rparr>)"
    by auto
  have run: "bus_dispatch pl X E (cl_id c) (cl_method c) (cl_meta c) (cl_body c) (?b, sy_world \<sigma>) =
      (case res of Inl e \<Rightarrow> Some (Inl e, b, w)
       | Inr u \<Rightarrow> Some (dispatch_register E (cl_id c) (cl_method c) (cl_meta c) (b, w)))"
    using f dispatch_claims [OF sim] Some by (simp add: bus_dispatch_def fill_def split: sum.split)
  show ?thesis
  proof (cases res)
    case (Inl e)
    have "set_phase i Free ?S1 = S" using fi by (simp add: set_phase_def fun_upd_idem)
    then have "simulates V pl X S (\<sigma>\<lparr>sy_bus := b, sy_world := w\<rparr>)"
      using sim2 [of None] Inl idle by (simp add: fun_upd_idem)
    then show ?thesis using run Inl Some inl by auto
  next
    case (Inr u)
    let ?\<sigma>2 = "?\<sigma>1\<lparr>sy_bus := b, sy_world := w, sy_threads := (sy_threads ?\<sigma>1)(t \<mapsto> Registering c)\<rparr>"
    have sim3: "simulates V pl X (put_message i (Ready c) ?S1) ?\<sigma>2"
      using sim2 [of "Some (Registering c)"] Inr by (simp add: activity_ok_def)
    obtain ch b' w' where reg: "dispatch_register E (cl_id c) (cl_method c) (cl_meta c) (b, w) = (Inr ch, b', w')"
      by (simp add: dispatch_register_def Let_def)
    have "simulates V pl X (register_call i c ch S) (\<sigma>\<lparr>sy_bus := b', sy_world := w'\<rparr>)"
      using register_simulated [OF doc(2) sim3, of t c ch b' w'] reg idle
      by (simp add: fun_upd_idem register_call_def set_phase_def put_message_def)
    then show ?thesis using run Inr Some reg by auto
  qed
qed


section \<open>A whole call\<close>

text \<open>The call in a slot.\<close>

fun call_of :: "phase \<Rightarrow> call option" where
  "call_of Free = None"
| "call_of Writing = None"
| "call_of (Ready c) = Some c"
| "call_of (Claimed c) = Some c"
| "call_of (Done c p) = Some c"

lemma dispatch_keeps:
  assumes "bus_dispatch pl X E req_id m meta body (b, w) = Some (res, b', w')"
  shows "bus_region b' = bus_region b"
  using assms
  by (auto simp: bus_dispatch_def dispatch_fill_def dispatch_register_def bus_forget_def bus_keep_def Let_def and_then_def
      split: bind_splits sum.splits option.splits prod.splits)

text \<open>What the call in slot \<open>i\<close> and a turn of each thread make of the protocol's state.\<close>

definition after_call :: "(request \<Rightarrow> reply) \<Rightarrow> usize list \<Rightarrow> usize \<Rightarrow> call \<Rightarrow> nat \<Rightarrow> spec \<Rightarrow> spec \<times> channel_call list" where
  "after_call g is i c ch S = take_replies is (answer_slots g is (register_call i c ch S))"

lemma call_turns_simulated:
  assumes doc: "shmem_documented X V" "postcard_documented X" "events_separate E V" "pl = MacOS \<longrightarrow> clock_documented E"
    and sim: "simulates V pl X S \<sigma>" and calm: "calm S" and idle: "sy_threads \<sigma> t = None"
    and c: "call_ok X c" and vec: "request_to_vec X (cl_meta c) = Inr mb"
    and free: "find (\<lambda>i. sp_phase S i = Free) (slot_indices (bus_region (sy_bus \<sigma>))) = Some i"
    and fits: "payload_fits (bus_region (sy_bus \<sigma>)) Req i mb (cl_body c)"
    and rfit: "replies_fit X (wk_region (sy_worker \<sigma>)) g ((sp_phase S)(i := Ready c))"
  shows "\<exists>ch b1 w1 k2 w2 b3 w3.
      bus_dispatch pl X E (cl_id c) (cl_method c) (cl_meta c) (cl_body c) (sy_bus \<sigma>, sy_world \<sigma>) = Some (Inr ch, b1, w1)
    \<and> receive_turn pl X E (replying pl X E g) (sy_worker \<sigma>, w1) = Some (k2, w2)
    \<and> watch_turn pl X E (b1, w2) = Some (b3, w3)
    \<and> bus_calls b3 = bus_calls b1 @ snd (after_call g (slot_indices (bus_region (sy_bus \<sigma>))) i c ch S)
    \<and> simulates V pl X (fst (after_call g (slot_indices (bus_region (sy_bus \<sigma>))) i c ch S))
        (\<sigma>\<lparr>sy_worker := k2, sy_bus := b3, sy_world := w3\<rparr>)"
proof -
  let ?is = "slot_indices (bus_region (sy_bus \<sigma>))"
  obtain ch b1 w1 where d: "bus_dispatch pl X E (cl_id c) (cl_method c) (cl_meta c) (cl_body c) (sy_bus \<sigma>, sy_world \<sigma>)
      = Some (Inr ch, b1, w1)"
    and sim1: "simulates V pl X (register_call i c ch S) (\<sigma>\<lparr>sy_bus := b1, sy_world := w1\<rparr>)"
    using dispatch_simulated [OF doc(1,3) sim idle c vec] free fits by auto
  let ?S1 = "register_call i c ch S" and ?\<sigma>1 = "\<sigma>\<lparr>sy_bus := b1, sy_world := w1\<rparr>"
  have same: "slot_indices (bus_region b1) = ?is" using dispatch_keeps [OF d] by simp
  obtain k2 w2 where r: "receive_turn pl X E (replying pl X E g) (sy_worker \<sigma>, w1) = Some (k2, w2)"
    and sim2: "simulates V pl X (answer_slots g ?is ?S1) (with_worker ?\<sigma>1 (k2, w2))"
    using receive_turn_simulated [OF doc sim1, of t g] idle rfit same calm by auto
  obtain b3 w3 where "watch_turn pl X E (b1, w2) = Some (b3, w3)"
    and "bus_calls b3 = bus_calls b1 @ snd (after_call g ?is i c ch S)"
    and "simulates V pl X (fst (after_call g ?is i c ch S)) (with_worker ?\<sigma>1 (k2, w2)\<lparr>sy_bus := b3, sy_world := w3\<rparr>)"
    using watch_turn_simulated [OF doc sim2] same calm by (auto simp: with_worker_def after_call_def)
  with d r show ?thesis by (auto simp: with_worker_def)
qed

lemma call_answered_simulated:
  assumes doc: "shmem_documented X V" "postcard_documented X" "events_separate E V" "pl = MacOS \<longrightarrow> clock_documented E"
    and sim: "simulates V pl X S \<sigma>" and calm: "calm S" and idle: "sy_threads \<sigma> t = None"
    and c: "call_ok X c" and vec: "request_to_vec X (cl_meta c) = Inr mb"
    and free: "find (\<lambda>i. sp_phase S i = Free) (slot_indices (bus_region (sy_bus \<sigma>))) = Some i"
    and fits: "payload_fits (bus_region (sy_bus \<sigma>)) Req i mb (cl_body c)"
    and rfit: "replies_fit X (wk_region (sy_worker \<sigma>)) g ((sp_phase S)(i := Ready c))"
    and uniq: "\<And>j c'. call_of (sp_phase S j) = Some c' \<Longrightarrow> cl_id c' \<noteq> cl_id c"
  shows "\<exists>ch b1 w1 k2 w2 b3 w3 calls.
      bus_dispatch pl X E (cl_id c) (cl_method c) (cl_meta c) (cl_body c) (sy_bus \<sigma>, sy_world \<sigma>) = Some (Inr ch, b1, w1)
    \<and> receive_turn pl X E (replying pl X E g) (sy_worker \<sigma>, w1) = Some (k2, w2)
    \<and> watch_turn pl X E (b1, w2) = Some (b3, w3)
    \<and> bus_calls b3 = bus_calls b1 @ calls \<and> SendResponse ch (response_of (g (request_of c))) \<in> set calls
    \<and> slot_status (bus_region b3) i w3 = Some SLOT_FREE"
proof -
  let ?is = "slot_indices (bus_region (sy_bus \<sigma>))" and ?p = "g (request_of c)"
  have i: "i \<in> set ?is" "sp_phase S i = Free" using free by (auto simp: find_Some_iff)
  from call_turns_simulated [where g = g, OF assms(1-12)]
  obtain ch b1 w1 k2 w2 b3 w3
    where d: "bus_dispatch pl X E (cl_id c) (cl_method c) (cl_meta c) (cl_body c) (sy_bus \<sigma>, sy_world \<sigma>) = Some (Inr ch, b1, w1)"
      and r: "receive_turn pl X E (replying pl X E g) (sy_worker \<sigma>, w1) = Some (k2, w2)"
      and w: "watch_turn pl X E (b1, w2) = Some (b3, w3)"
      and calls: "bus_calls b3 = bus_calls b1 @ snd (after_call g ?is i c ch S)"
      and sim3: "simulates V pl X (fst (after_call g ?is i c ch S)) (\<sigma>\<lparr>sy_worker := k2, sy_bus := b3, sy_world := w3\<rparr>)"
    by blast
  let ?S2 = "answer_slots g ?is (register_call i c ch S)"
  have answered: "sp_phase ?S2 i = Done c ?p" using i(1) by (simp add: answer_slots_def answer_def)
  have pend: "sp_pending ?S2 (cl_id c) = Some ch" by (simp add: answer_slots_def)
  have other: "cl_id c' \<noteq> cl_id c" if j: "j \<noteq> i" "sp_phase ?S2 j = Done c' p'" for j c' p'
  proof -
    have "call_of (sp_phase S j) = Some c'"
      using j by (cases "sp_phase S j")
        (auto simp: answer_slots_def answer_def split: if_splits)
    then show ?thesis by (rule uniq)
  qed
  have ans: "SendResponse ch (response_of ?p) \<in> set (snd (after_call g ?is i c ch S))"
    unfolding after_call_def by (rule take_replies_answers [OF i(1) answered pend]) (rule other)
  have "bus_region b3 = bus_region (sy_bus \<sigma>)" using dispatch_keeps [OF d] watch_turn_keeps [OF w] by simp
  then have ir: "unat i < unat (r_num_slots (bus_region b3))" using i(1) by (metis slot_indices_set)
  have "sp_phase (fst (after_call g ?is i c ch S)) i = Free"
    using answered i(1) by (simp add: take_replies_phase after_call_def)
  then have "status_at (bus_region b3) i w3 = SLOT_FREE"
    using slot_matches_phase(1) [OF sim_slot [OF sim3, of i]] ir by (simp add: slots_of_def)
  moreover have "control_region (bus_region b3) w3" using liveD(1) [OF simulatesD(1) [OF sim3]] by simp
  ultimately have "slot_status (bus_region b3) i w3 = Some SLOT_FREE" using status_ops(1) ir by metis
  then show ?thesis using d r w calls ans by blast
qed

end
