(* ===== verification/Progress.thy ===== *)
theory Progress
  imports Turns
begin

text \<open>
  The steps of a call are enabled: from a simulated system with a free slot there is a run that takes a
  call that fits from its reservation to its caller's channel.
\<close>

lemma claim_enabled:
  assumes doc: "shmem_documented X V" and sim: "simulates V pl X S \<sigma>" and idle: "sy_threads \<sigma> t = None"
    and i: "unat i < slots_of \<sigma>" and ph: "sp_phase S i = Free" and c: "call_ok X c"
  shows "\<exists>w. sys_step pl X E \<sigma> (Claim i) (\<sigma>\<lparr>sy_world := w, sy_threads := (sy_threads \<sigma>)(t \<mapsto> Filling i c)\<rparr>)
    \<and> simulates V pl X (set_phase i Writing S) (\<sigma>\<lparr>sy_world := w, sy_threads := (sy_threads \<sigma>)(t \<mapsto> Filling i c)\<rparr>)"
proof -
  let ?r = "bus_region (sy_bus \<sigma>)"
  note sD = simulatesD [OF sim]
  have ir: "unat i < unat (r_num_slots ?r)" using i by (simp add: slots_of_def)
  have "status_at ?r i (sy_world \<sigma>) = SLOT_FREE" using slot_matches_phase(1) [OF sim_slot [OF sim i]] ph by simp
  then obtain w where cas: "cas_status ?r i SLOT_FREE SLOT_WRITING (sy_world \<sigma>) = Some (Inr SLOT_FREE, w)"
    using status_ops(3) [OF liveD(1) [OF sD(1)] ir] by simp
  show ?thesis using sys_step.claim [OF idle i c cas] claim_simulated(2) [OF doc sim idle i c cas] by blast
qed

lemma clear_enabled:
  assumes doc: "shmem_documented X V" and sim: "simulates V pl X S \<sigma>" and th: "sy_threads \<sigma> t = Some (Filling i c)"
    and vec: "request_to_vec X (cl_meta c) = Inr mb"
  shows "\<exists>b w. sys_step pl X E \<sigma> (dropped Req i (bus_overflow (sy_bus \<sigma>) i))
      (\<sigma>\<lparr>sy_bus := b, sy_world := w, sy_threads := (sy_threads \<sigma>)(t \<mapsto> Cleared i c)\<rparr>)
    \<and> bus_region b = bus_region (sy_bus \<sigma>)
    \<and> simulates V pl X S (\<sigma>\<lparr>sy_bus := b, sy_world := w, sy_threads := (sy_threads \<sigma>)(t \<mapsto> Cleared i c)\<rparr>)"
proof -
  obtain b w where fg: "bus_forget X i (sy_bus \<sigma>, sy_world \<sigma>) = (b, w)" by fastforce
  then have "bus_region b = bus_region (sy_bus \<sigma>)" by (auto simp: bus_forget_def)
  then show ?thesis using sys_step.clear [OF th vec fg] clear_simulated(1) [OF doc sim th fg] by blast
qed

lemma publish_enabled:
  assumes doc: "shmem_documented X V" and sim: "simulates V pl X S \<sigma>" and th: "sy_threads \<sigma> t = Some (Cleared i c)"
    and vec: "request_to_vec X (cl_meta c) = Inr mb" and fits: "payload_fits (bus_region (sy_bus \<sigma>)) Req i mb (cl_body c)"
  shows "\<exists>w. sys_step pl X E \<sigma> (Publish i c) (\<sigma>\<lparr>sy_world := w, sy_threads := (sy_threads \<sigma>)(t \<mapsto> Keeping i c None)\<rparr>)
    \<and> simulates V pl X (put_message i (Ready c) S)
      (\<sigma>\<lparr>sy_world := w, sy_threads := (sy_threads \<sigma>)(t \<mapsto> Keeping i c None)\<rparr>)"
proof -
  obtain w where wr: "write_request pl X (bus_region (sy_bus \<sigma>)) i (cl_id c) (method_to_u8 (cl_method c)) mb (cl_body c)
        (bus_config (sy_bus \<sigma>)) (sy_world \<sigma>) = Some (Inr None, w)"
    and "simulates V pl X (put_message i (Ready c) S) (\<sigma>\<lparr>sy_world := w, sy_threads := (sy_threads \<sigma>)(t \<mapsto> Keeping i c None)\<rparr>)"
    using write_simulated [OF doc sim th vec] fits by auto
  then show ?thesis using sys_step.publish [OF th vec wr] by blast
qed

lemma keep_enabled:
  assumes doc: "shmem_documented X V" and sim: "simulates V pl X S \<sigma>" and th: "sy_threads \<sigma> t = Some (Keeping i c None)"
  shows "sys_step pl X E \<sigma> Idle (\<sigma>\<lparr>sy_threads := (sy_threads \<sigma>)(t \<mapsto> Registering c)\<rparr>)
    \<and> simulates V pl X S (\<sigma>\<lparr>sy_threads := (sy_threads \<sigma>)(t \<mapsto> Registering c)\<rparr>)"
proof -
  have kp: "bus_keep X i None (sy_bus \<sigma>, sy_world \<sigma>) = (sy_bus \<sigma>, sy_world \<sigma>)" by (simp add: bus_keep_def)
  show ?thesis using sys_step.keep [where pl = pl and E = E, OF th kp] keep_simulated [OF doc sim th kp] by (simp add: replaced_def)
qed

lemma register_enabled:
  assumes sep: "events_separate E V" and sim: "simulates V pl X S \<sigma>" and th: "sy_threads \<sigma> t = Some (Registering c)"
  shows "\<exists>ch b w. sys_step pl X E \<sigma> (Register (cl_id c) ch)
      (\<sigma>\<lparr>sy_bus := b, sy_world := w, sy_threads := (sy_threads \<sigma>)(t := None)\<rparr>)
    \<and> bus_region b = bus_region (sy_bus \<sigma>)
    \<and> simulates V pl X (S\<lparr>sp_pending := (sp_pending S)(cl_id c \<mapsto> ch)\<rparr>)
      (\<sigma>\<lparr>sy_bus := b, sy_world := w, sy_threads := (sy_threads \<sigma>)(t := None)\<rparr>)"
proof -
  obtain ch b w where reg: "dispatch_register E (cl_id c) (cl_method c) (cl_meta c) (sy_bus \<sigma>, sy_world \<sigma>) = (Inr ch, b, w)"
    by (simp add: dispatch_register_def Let_def)
  then have "bus_region b = bus_region (sy_bus \<sigma>)" by (auto simp: dispatch_register_def Let_def)
  then show ?thesis using sys_step.register [OF th reg] register_simulated [OF sep sim th reg] by blast
qed

lemma take_enabled:
  assumes doc: "shmem_documented X V" and sim: "simulates V pl X S \<sigma>" and idle: "sy_threads \<sigma> t = None"
    and i: "unat i < slots_of \<sigma>" and ph: "sp_phase S i = Ready c"
  shows "\<exists>w. sys_step pl X E \<sigma> (Take i) (\<sigma>\<lparr>sy_world := w, sy_threads := (sy_threads \<sigma>)(t \<mapsto> Reading i)\<rparr>)
    \<and> simulates V pl X (set_phase i (Claimed c) S) (\<sigma>\<lparr>sy_world := w, sy_threads := (sy_threads \<sigma>)(t \<mapsto> Reading i)\<rparr>)"
proof -
  let ?r = "wk_region (sy_worker \<sigma>)"
  note sD = simulatesD [OF sim] note L = linked_live [OF sD(2,1)]
  have ir: "unat i < unat (r_num_slots ?r)" using i L by (simp add: slots_of_def)
  have "status_at ?r i (sy_world \<sigma>) = SLOT_READY" using slot_matches_phase(2) [OF sim_slot [OF sim i]] ph L by simp
  then obtain w where cas: "cas_status ?r i SLOT_READY SLOT_CLAIMED (sy_world \<sigma>) = Some (Inr SLOT_READY, w)"
    using status_ops(3) [OF liveD(1) [OF L(1)] ir] by simp
  show ?thesis using sys_step.take [OF idle i cas] take_simulated [OF doc sim idle i cas] ph by auto
qed

lemma deliver_enabled:
  assumes doc: "shmem_documented X V" "postcard_documented X" and sim: "simulates V pl X S \<sigma>"
    and th: "sy_threads \<sigma> t = Some (Reading i)" and ph: "sp_phase S i = Claimed c" and whole: "\<not> sp_lost S i"
  shows "\<exists>w. sys_step pl X E \<sigma> (Deliver i (request_of c))
      (\<sigma>\<lparr>sy_world := w, sy_threads := (sy_threads \<sigma>)(t \<mapsto> Handling i (request_of c))\<rparr>)
    \<and> simulates V pl X S (\<sigma>\<lparr>sy_world := w, sy_threads := (sy_threads \<sigma>)(t \<mapsto> Handling i (request_of c))\<rparr>)"
proof -
  obtain w where rd: "read_request pl X (wk_region (sy_worker \<sigma>)) i (wk_config (sy_worker \<sigma>)) (sy_world \<sigma>)
      = Some (Inr (cl_id c, method_to_u8 (cl_method c), cl_meta c, cl_body c), w)"
    using claimed_read [OF doc sim th] ph whole by auto
  show ?thesis
    using sys_step.deliver [OF th rd] deliver_simulated [OF doc sim th rd] by (auto simp: request_of_def)
qed

lemma empty_enabled:
  assumes doc: "shmem_documented X V" and sim: "simulates V pl X S \<sigma>"
    and th: "sy_threads \<sigma> t = Some (Handling i rq)" and ok: "reply_ok X p" and vec: "response_to_vec X (rp_meta p) = Inr mb"
  shows "\<exists>k w. sys_step pl X E \<sigma> (dropped Resp i (wk_overflow (sy_worker \<sigma>) i))
      (\<sigma>\<lparr>sy_worker := k, sy_world := w, sy_threads := (sy_threads \<sigma>)(t \<mapsto> Answering i p)\<rparr>)
    \<and> wk_region k = wk_region (sy_worker \<sigma>)
    \<and> simulates V pl X S (\<sigma>\<lparr>sy_worker := k, sy_world := w, sy_threads := (sy_threads \<sigma>)(t \<mapsto> Answering i p)\<rparr>)"
proof -
  obtain k w where fg: "worker_forget X i (sy_worker \<sigma>, sy_world \<sigma>) = (k, w)" by fastforce
  then have "wk_region k = wk_region (sy_worker \<sigma>)" by (auto simp: worker_forget_def)
  then show ?thesis using sys_step.empty [OF th ok vec fg] empty_simulated(1) [OF doc sim th ok fg] by blast
qed

lemma reply_enabled:
  assumes doc: "shmem_documented X V" and sim: "simulates V pl X S \<sigma>"
    and th: "sy_threads \<sigma> t = Some (Answering i p)" and ph: "sp_phase S i = Claimed c"
    and vec: "response_to_vec X (rp_meta p) = Inr mb" and fits: "payload_fits (wk_region (sy_worker \<sigma>)) Resp i mb (rp_body p)"
  shows "\<exists>w. sys_step pl X E \<sigma> (Reply i p) (\<sigma>\<lparr>sy_world := w, sy_threads := (sy_threads \<sigma>)(t \<mapsto> Replying i None)\<rparr>)
    \<and> simulates V pl X (put_message i (Done c p) S)
        (\<sigma>\<lparr>sy_world := w, sy_threads := (sy_threads \<sigma>)(t \<mapsto> Replying i None)\<rparr>)"
proof -
  obtain w where wr: "write_response pl X (wk_region (sy_worker \<sigma>)) i (rp_status p) mb (rp_body p)
        (wk_config (sy_worker \<sigma>)) (sy_world \<sigma>) = Some (Inr None, w)"
    and "simulates V pl X (put_message i (Done c p) S) (\<sigma>\<lparr>sy_world := w, sy_threads := (sy_threads \<sigma>)(t \<mapsto> Replying i None)\<rparr>)"
    using answer_simulated [OF doc sim th vec] fits ph by auto
  then show ?thesis using sys_step.reply [OF th vec wr] by blast
qed

lemma store_enabled:
  assumes doc: "shmem_documented X V" "events_separate E V" and sim: "simulates V pl X S \<sigma>"
    and th: "sy_threads \<sigma> t = Some (Replying i None)"
  shows "\<exists>w. sys_step pl X E \<sigma> Idle
      (\<sigma>\<lparr>sy_worker := sy_worker \<sigma>, sy_world := w, sy_threads := (sy_threads \<sigma>)(t := None)\<rparr>)
    \<and> simulates V pl X S (\<sigma>\<lparr>sy_worker := sy_worker \<sigma>, sy_world := w, sy_threads := (sy_threads \<sigma>)(t := None)\<rparr>)"
proof -
  have kp: "worker_keep X i None (sy_worker \<sigma>, sy_world \<sigma>) = (sy_worker \<sigma>, sy_world \<sigma>)" by (simp add: worker_keep_def)
  have "sys_step pl X E \<sigma> Idle (\<sigma>\<lparr>sy_worker := sy_worker \<sigma>,
      sy_world := event_signal E (wk_rsp_event (sy_worker \<sigma>)) (sy_world \<sigma>), sy_threads := (sy_threads \<sigma>)(t := None)\<rparr>)"
    using sys_step.store [where pl = pl and E = E, OF th kp] by (simp only: replaced_def simp_thms if_True)
  moreover have "simulates V pl X S (\<sigma>\<lparr>sy_worker := sy_worker \<sigma>,
      sy_world := event_signal E (wk_rsp_event (sy_worker \<sigma>)) (sy_world \<sigma>), sy_threads := (sy_threads \<sigma>)(t := None)\<rparr>)"
    using store_simulated [OF doc sim th kp] by simp
  ultimately show ?thesis by blast
qed

lemma release_enabled:
  assumes doc: "shmem_documented X V" "postcard_documented X" and sim: "simulates V pl X S \<sigma>" and i: "unat i < slots_of \<sigma>"
    and scan: "sp_taken S = None" and ph: "sp_phase S i = Done c p" and whole: "\<not> sp_lost S i"
  shows "\<exists>res w. sys_step pl X E \<sigma> (Release i) (\<sigma>\<lparr>sy_world := w, sy_watcher := Released i (cl_id c) res\<rparr>)
    \<and> simulates V pl X ((set_phase i Free S)\<lparr>sp_taken := Some (cl_id c, Some p)\<rparr>)
        (\<sigma>\<lparr>sy_world := w, sy_watcher := Released i (cl_id c) res\<rparr>)"
proof -
  have idle: "sy_watcher \<sigma> = Scanning" using simulatesD(7) [OF sim] scan by (cases "sy_watcher \<sigma>") auto
  obtain req_id res w where rel: "watch_release pl X i (sy_bus \<sigma>) (sy_world \<sigma>) = Some (Some (req_id, res), w)"
    using release_result [OF doc sim i] ph by (auto split: option.splits)
  show ?thesis
    using sys_step.release [OF idle i rel] release_simulated [OF doc sim i idle rel] ph whole by (auto simp: reads_reply_def)
qed

lemma forget_enabled:
  assumes doc: "shmem_documented X V" and sim: "simulates V pl X S \<sigma>" and at: "sy_watcher \<sigma> = Released i req_id res"
  shows "\<exists>b w. sys_step pl X E \<sigma> (dropped Req i (bus_overflow (sy_bus \<sigma>) i))
      (\<sigma>\<lparr>sy_bus := b, sy_world := w, sy_watcher := Resolving req_id res\<rparr>)
    \<and> bus_region b = bus_region (sy_bus \<sigma>)
    \<and> simulates V pl X (after_drop Req i (bus_overflow (sy_bus \<sigma>) i) S)
        (\<sigma>\<lparr>sy_bus := b, sy_world := w, sy_watcher := Resolving req_id res\<rparr>)"
proof -
  obtain b w where fg: "bus_forget X i (sy_bus \<sigma>, sy_world \<sigma>) = (b, w)" by fastforce
  then have "bus_region b = bus_region (sy_bus \<sigma>)" by (auto simp: bus_forget_def)
  then show ?thesis using sys_step.forget [OF at fg] forget_simulated [OF doc sim at fg] by blast
qed

lemma resolve_enabled:
  assumes sim: "simulates V pl X S \<sigma>" and at: "sy_watcher \<sigma> = Resolving req_id res" and tk: "sp_taken S = Some (req_id, Some p)"
  shows "\<exists>b. sys_step pl X E \<sigma> (Resolve (resolution (sp_pending S req_id) p)) (\<sigma>\<lparr>sy_bus := b, sy_watcher := Scanning\<rparr>)
    \<and> simulates V pl X (S\<lparr>sp_taken := None, sp_pending := (sp_pending S)(req_id := None)\<rparr>)
        (\<sigma>\<lparr>sy_bus := b, sy_watcher := Scanning\<rparr>)"
  using send_simulated [OF sim at] sys_step.resolve [OF at] tk by fastforce

section \<open>Whole operations as runs\<close>

lemma publish_steps:
  assumes doc: "shmem_documented X V" and sim: "simulates V pl X S \<sigma>"
    and idle: "sy_threads \<sigma> t = None" and i: "unat i < slots_of \<sigma>" and ph: "sp_phase S i = Free" and c: "call_ok X c"
    and vec: "request_to_vec X (cl_meta c) = Inr mb" and fits: "payload_fits (bus_region (sy_bus \<sigma>)) Req i mb (cl_body c)"
  shows "\<exists>o1 b w. sys_run pl X E \<sigma> [Claim i, dropped Req i o1, Publish i c, Idle]
      (\<sigma>\<lparr>sy_bus := b, sy_world := w, sy_threads := (sy_threads \<sigma>)(t \<mapsto> Registering c)\<rparr>)
    \<and> bus_region b = bus_region (sy_bus \<sigma>)
    \<and> simulates V pl X (put_message i (Ready c) S) (\<sigma>\<lparr>sy_bus := b, sy_world := w, sy_threads := (sy_threads \<sigma>)(t \<mapsto> Registering c)\<rparr>)"
proof -
  let ?T = "\<lambda>b w a. \<sigma>\<lparr>sy_bus := b, sy_world := w, sy_threads := (sy_threads \<sigma>)(t := a)\<rparr>"
  let ?S1 = "set_phase i Writing S" and ?S2 = "put_message i (Ready c) (set_phase i Writing S)"
  obtain w1 where s1: "sys_step pl X E \<sigma> (Claim i) (?T (sy_bus \<sigma>) w1 (Some (Filling i c)))"
    and m1: "simulates V pl X ?S1 (?T (sy_bus \<sigma>) w1 (Some (Filling i c)))"
    using claim_enabled [where E = E, OF doc sim idle i ph c] by auto
  obtain b2 w2 where s2: "sys_step pl X E (?T (sy_bus \<sigma>) w1 (Some (Filling i c))) (dropped Req i (bus_overflow (sy_bus \<sigma>) i))
      (?T b2 w2 (Some (Cleared i c)))"
    and r2: "bus_region b2 = bus_region (sy_bus \<sigma>)" and m2: "simulates V pl X ?S1 (?T b2 w2 (Some (Cleared i c)))"
    using clear_enabled [where E = E and t = t and i = i and c = c, OF doc m1 _ vec] by auto
  obtain w3 where s3: "sys_step pl X E (?T b2 w2 (Some (Cleared i c))) (Publish i c) (?T b2 w3 (Some (Keeping i c None)))"
    and m3: "simulates V pl X ?S2 (?T b2 w3 (Some (Keeping i c None)))"
    using publish_enabled [where E = E and t = t and i = i and c = c, OF doc m2 _ vec] fits r2 by auto
  have s4: "sys_step pl X E (?T b2 w3 (Some (Keeping i c None))) Idle (?T b2 w3 (Some (Registering c)))"
    and m4: "simulates V pl X ?S2 (?T b2 w3 (Some (Registering c)))"
    using keep_enabled [where E = E and t = t and i = i and c = c, OF doc m3] by auto
  have "?S2 = put_message i (Ready c) S" by (simp add: put_message_def set_phase_def)
  then have "simulates V pl X (put_message i (Ready c) S) (?T b2 w3 (Some (Registering c)))" using m4 by simp
  then show ?thesis
    using sys_more [OF sys_more [OF sys_more [OF sys_run_one [OF s1] s2] s3] s4] r2 unfolding append_Cons append_Nil by blast
qed

lemma dispatch_steps:
  assumes doc: "shmem_documented X V" "events_separate E V" and sim: "simulates V pl X S \<sigma>"
    and idle: "sy_threads \<sigma> t = None" and i: "unat i < slots_of \<sigma>" and ph: "sp_phase S i = Free" and c: "call_ok X c"
    and vec: "request_to_vec X (cl_meta c) = Inr mb" and fits: "payload_fits (bus_region (sy_bus \<sigma>)) Req i mb (cl_body c)"
  shows "\<exists>o1 ch b w. sys_run pl X E \<sigma> [Claim i, dropped Req i o1, Publish i c, Idle, Register (cl_id c) ch] (\<sigma>\<lparr>sy_bus := b, sy_world := w\<rparr>)
    \<and> bus_region b = bus_region (sy_bus \<sigma>)
    \<and> simulates V pl X (register_call i c ch S) (\<sigma>\<lparr>sy_bus := b, sy_world := w\<rparr>)"
proof -
  let ?T = "\<lambda>b w a. \<sigma>\<lparr>sy_bus := b, sy_world := w, sy_threads := (sy_threads \<sigma>)(t := a)\<rparr>" and ?S = "put_message i (Ready c) S"
  obtain o1 b1 w1 where r: "sys_run pl X E \<sigma> [Claim i, dropped Req i o1, Publish i c, Idle] (?T b1 w1 (Some (Registering c)))"
    and b1: "bus_region b1 = bus_region (sy_bus \<sigma>)" and m: "simulates V pl X ?S (?T b1 w1 (Some (Registering c)))"
    using publish_steps [OF doc(1) sim idle i ph c vec fits] by blast
  obtain ch b5 w5 where s5: "sys_step pl X E (?T b1 w1 (Some (Registering c))) (Register (cl_id c) ch) (?T b5 w5 None)"
    and r5: "bus_region b5 = bus_region (sy_bus \<sigma>)"
    and m5: "simulates V pl X (?S\<lparr>sp_pending := (sp_pending ?S)(cl_id c \<mapsto> ch)\<rparr>) (?T b5 w5 None)"
    using register_enabled [where E = E and t = t and c = c, OF doc(2) m] b1 by auto
  have e: "?T b5 w5 None = \<sigma>\<lparr>sy_bus := b5, sy_world := w5\<rparr>" using idle by (simp add: fun_upd_idem)
  have "?S\<lparr>sp_pending := (sp_pending ?S)(cl_id c \<mapsto> ch)\<rparr> = register_call i c ch S"
    by (simp add: register_call_def put_message_def set_phase_def)
  then have "simulates V pl X (register_call i c ch S) (\<sigma>\<lparr>sy_bus := b5, sy_world := w5\<rparr>)" using m5 e by simp
  then show ?thesis using sys_more [OF r s5] r5 unfolding e append_Cons append_Nil by blast
qed

lemma answer_steps:
  assumes doc: "shmem_documented X V" "postcard_documented X" "events_separate E V" and sim: "simulates V pl X S \<sigma>"
    and idle: "sy_threads \<sigma> t = None" and i: "unat i < slots_of \<sigma>" and ph: "sp_phase S i = Ready c" and whole: "\<not> sp_lost S i"
    and ok: "reply_ok X p" and vec: "response_to_vec X (rp_meta p) = Inr mb"
    and fits: "payload_fits (wk_region (sy_worker \<sigma>)) Resp i mb (rp_body p)"
  shows "\<exists>o2 k w. sys_run pl X E \<sigma> [Take i, Deliver i (request_of c), dropped Resp i o2, Reply i p, Idle] (with_worker \<sigma> (k, w))
    \<and> simulates V pl X (put_message i (Done c p) S) (with_worker \<sigma> (k, w))"
proof -
  let ?T = "\<lambda>k w a. \<sigma>\<lparr>sy_worker := k, sy_world := w, sy_threads := (sy_threads \<sigma>)(t := a)\<rparr>" and ?k = "sy_worker \<sigma>"
  let ?S1 = "set_phase i (Claimed c) S" and ?rq = "request_of c"
  have c1: "sp_phase ?S1 i = Claimed c" "\<not> sp_lost ?S1 i" using whole by (simp_all add: set_phase_def)
  obtain w1 where s1: "sys_step pl X E \<sigma> (Take i) (?T ?k w1 (Some (Reading i)))" and m1: "simulates V pl X ?S1 (?T ?k w1 (Some (Reading i)))"
    using take_enabled [where E = E, OF doc(1) sim idle i ph] by auto
  obtain w2 where s2: "sys_step pl X E (?T ?k w1 (Some (Reading i))) (Deliver i ?rq) (?T ?k w2 (Some (Handling i ?rq)))"
    and m2: "simulates V pl X ?S1 (?T ?k w2 (Some (Handling i ?rq)))"
    using deliver_enabled [where E = E and t = t, OF doc(1,2) m1 _ c1] by auto
  obtain k3 w3 where s3: "sys_step pl X E (?T ?k w2 (Some (Handling i ?rq))) (dropped Resp i (wk_overflow ?k i)) (?T k3 w3 (Some (Answering i p)))"
    and r3: "wk_region k3 = wk_region ?k" and m3: "simulates V pl X ?S1 (?T k3 w3 (Some (Answering i p)))"
    using empty_enabled [where E = E and t = t and i = i and rq = "?rq", OF doc(1) m2 _ ok vec] by auto
  obtain w4 where s4: "sys_step pl X E (?T k3 w3 (Some (Answering i p))) (Reply i p) (?T k3 w4 (Some (Replying i None)))"
    and m4: "simulates V pl X (put_message i (Done c p) ?S1) (?T k3 w4 (Some (Replying i None)))"
    using reply_enabled [where E = E and t = t and i = i and p = p, OF doc(1) m3 _ c1(1) vec] fits r3 by auto
  obtain w5 where s5: "sys_step pl X E (?T k3 w4 (Some (Replying i None))) Idle (?T k3 w5 None)"
    and m5: "simulates V pl X (put_message i (Done c p) ?S1) (?T k3 w5 None)"
    using store_enabled [where t = t and i = i, OF doc(1,3) m4] by auto
  have e: "?T k3 w5 None = with_worker \<sigma> (k3, w5)" using idle by (simp add: with_worker_def fun_upd_idem)
  have "put_message i (Done c p) ?S1 = put_message i (Done c p) S" by (simp add: put_message_def set_phase_def)
  then have "simulates V pl X (put_message i (Done c p) S) (with_worker \<sigma> (k3, w5))" using m5 e by simp
  then show ?thesis
    using sys_more [OF sys_more [OF sys_more [OF sys_more [OF sys_run_one [OF s1] s2] s3] s4] s5]
    unfolding e append_Cons append_Nil by blast
qed

lemma collect_steps:
  assumes doc: "shmem_documented X V" "postcard_documented X" and sim: "simulates V pl X S \<sigma>" and i: "unat i < slots_of \<sigma>"
    and scan: "sp_taken S = None" and ph: "sp_phase S i = Done c p" and whole: "\<not> sp_lost S i"
  shows "\<exists>o3 b w. sys_run pl X E \<sigma> [Release i, dropped Req i o3, Resolve (resolution (sp_pending S (cl_id c)) p)]
      (\<sigma>\<lparr>sy_bus := b, sy_world := w\<rparr>)
    \<and> simulates V pl X ((set_phase i Free S)\<lparr>sp_pending := (sp_pending S)(cl_id c := None)\<rparr>) (\<sigma>\<lparr>sy_bus := b, sy_world := w\<rparr>)"
proof -
  let ?T = "\<lambda>b w a. \<sigma>\<lparr>sy_bus := b, sy_world := w, sy_watcher := a\<rparr>" and ?S1 = "(set_phase i Free S)\<lparr>sp_taken := Some (cl_id c, Some p)\<rparr>"
  have idle: "sy_watcher \<sigma> = Scanning" using simulatesD(7) [OF sim] scan by (cases "sy_watcher \<sigma>") auto
  obtain res w1 where s1: "sys_step pl X E \<sigma> (Release i) (?T (sy_bus \<sigma>) w1 (Released i (cl_id c) res))"
    and m1: "simulates V pl X ?S1 (?T (sy_bus \<sigma>) w1 (Released i (cl_id c) res))"
    using release_enabled [where E = E, OF doc sim i scan ph whole] by auto
  have f: "sp_phase ?S1 i = Free" by (simp add: set_phase_def)
  obtain b2 w2 where s2: "sys_step pl X E (?T (sy_bus \<sigma>) w1 (Released i (cl_id c) res)) (dropped Req i (bus_overflow (sy_bus \<sigma>) i))
      (?T b2 w2 (Resolving (cl_id c) res))" and m2: "simulates V pl X ?S1 (?T b2 w2 (Resolving (cl_id c) res))"
    using forget_enabled [where E = E and i = i and req_id = "cl_id c" and res = res, OF doc(1) m1] f by auto
  obtain b3 where s3: "sys_step pl X E (?T b2 w2 (Resolving (cl_id c) res)) (Resolve (resolution (sp_pending S (cl_id c)) p))
      (\<sigma>\<lparr>sy_world := w2, sy_bus := b3, sy_watcher := Scanning\<rparr>)"
    and m3: "simulates V pl X (?S1\<lparr>sp_taken := None, sp_pending := (sp_pending S)(cl_id c := None)\<rparr>)
      (\<sigma>\<lparr>sy_world := w2, sy_bus := b3, sy_watcher := Scanning\<rparr>)"
    using resolve_enabled [where E = E and req_id = "cl_id c" and res = res and p = p, OF m2] by (auto simp: set_phase_def)
  have e: "\<sigma>\<lparr>sy_world := w2, sy_bus := b3, sy_watcher := Scanning\<rparr> = \<sigma>\<lparr>sy_bus := b3, sy_world := w2\<rparr>" using idle by (cases \<sigma>) simp
  have "?S1\<lparr>sp_taken := None, sp_pending := (sp_pending S)(cl_id c := None)\<rparr>
      = (set_phase i Free S)\<lparr>sp_pending := (sp_pending S)(cl_id c := None)\<rparr>"
    using scan by (cases S) (simp add: set_phase_def)
  then have "simulates V pl X ((set_phase i Free S)\<lparr>sp_pending := (sp_pending S)(cl_id c := None)\<rparr>) (\<sigma>\<lparr>sy_bus := b3, sy_world := w2\<rparr>)"
    using m3 e by simp
  then show ?thesis
    using sys_more [OF sys_more [OF sys_run_one [OF s1] s2] s3] unfolding e append_Cons append_Nil by blast
qed

text \<open>
  The whole way; \<open>o1\<close>, \<open>o2\<close>, \<open>o3\<close> are the stale overflow regions found in the maps before the request is written, before
  the response is written and after the slot is released.
\<close>

definition call_events ::
  "shm_region option \<Rightarrow> shm_region option \<Rightarrow> shm_region option \<Rightarrow> usize \<Rightarrow> call \<Rightarrow> nat \<Rightarrow> reply \<Rightarrow> event list" where
  "call_events o1 o2 o3 i c ch p =
     [Claim i, dropped Req i o1, Publish i c, Idle, Register (cl_id c) ch,
      Take i, Deliver i (request_of c), dropped Resp i o2, Reply i p, Idle,
      Release i, dropped Req i o3, Resolve [SendResponse ch (response_of p)]]"

lemma call_runs:
  assumes doc: "shmem_documented X V" "postcard_documented X" "events_separate E V" and sim: "simulates V pl X S \<sigma>"
    and scan: "sp_taken S = None" and idle: "sy_threads \<sigma> t = None" and i: "unat i < slots_of \<sigma>" and ph: "sp_phase S i = Free"
    and c: "call_ok X c" and vec: "request_to_vec X (cl_meta c) = Inr mb" and fits: "payload_fits (bus_region (sy_bus \<sigma>)) Req i mb (cl_body c)"
    and ok: "reply_ok X p" and rvec: "response_to_vec X (rp_meta p) = Inr rb"
    and rfits: "payload_fits (wk_region (sy_worker \<sigma>)) Resp i rb (rp_body p)"
  shows "\<exists>o1 o2 o3 ch \<upsilon>. sys_run pl X E \<sigma> (call_events o1 o2 o3 i c ch p) \<upsilon>"
proof -
  obtain o1 ch b1 w1 where r1: "sys_run pl X E \<sigma> [Claim i, dropped Req i o1, Publish i c, Idle, Register (cl_id c) ch]
      (\<sigma>\<lparr>sy_bus := b1, sy_world := w1\<rparr>)"
    and g1: "bus_region b1 = bus_region (sy_bus \<sigma>)" and m1: "simulates V pl X (register_call i c ch S) (\<sigma>\<lparr>sy_bus := b1, sy_world := w1\<rparr>)"
    using dispatch_steps [OF doc(1,3) sim idle i ph c vec fits] by blast
  let ?S1 = "register_call i c ch S" and ?\<sigma>1 = "\<sigma>\<lparr>sy_bus := b1, sy_world := w1\<rparr>"
  have f1: "sy_threads ?\<sigma>1 t = None" "unat i < slots_of ?\<sigma>1" "sp_phase ?S1 i = Ready c" "\<not> sp_lost ?S1 i"
    using idle i g1 by (simp_all add: slots_of_def) (simp add: register_call_def put_message_def)
  obtain o2 k2 w2 where r2: "sys_run pl X E ?\<sigma>1 [Take i, Deliver i (request_of c), dropped Resp i o2, Reply i p, Idle] (with_worker ?\<sigma>1 (k2, w2))"
    and m2: "simulates V pl X (put_message i (Done c p) ?S1) (with_worker ?\<sigma>1 (k2, w2))"
    using answer_steps [OF doc m1 f1 ok rvec] rfits by auto
  let ?S2 = "put_message i (Done c p) ?S1" and ?\<sigma>2 = "with_worker ?\<sigma>1 (k2, w2)"
  have f2: "unat i < slots_of ?\<sigma>2" "sp_taken ?S2 = None" "sp_phase ?S2 i = Done c p" "\<not> sp_lost ?S2 i"
    using f1(2) scan by (simp_all add: put_message_def set_phase_def register_call_def)
  have "resolution (sp_pending ?S2 (cl_id c)) p = [SendResponse ch (response_of p)]"
    by (simp add: put_message_def set_phase_def resolution_def)
  then obtain o3 \<upsilon> where r3: "sys_run pl X E ?\<sigma>2 [Release i, dropped Req i o3, Resolve [SendResponse ch (response_of p)]] \<upsilon>"
    using collect_steps [where E = E and i = i and c = c and p = p, OF doc(1,2) m2 f2] by auto
  from sys_run_trans [OF r3 sys_run_trans [OF r2 r1]] show ?thesis
    unfolding call_events_def append_Cons append_Nil by blast
qed

end
