(* ===== verification/Demo.thy ===== *)
theory Demo
  imports Progress
begin

text \<open>
  One bus, started on the reference implementation of the shared memory: the instance the witnesses of the
  system's properties use.
\<close>

text \<open>Events that are always signalled and touch nothing.\<close>

definition quiet_events :: "'os event_os" where
  "quiet_events =
     \<lparr>CreateEventW = (\<lambda>n w. (1, w)), OpenEventW = (\<lambda>n w. (1, w)), SetEvent = (\<lambda>h w. w),
      WaitForSingleObject = (\<lambda>h ms w. (0, w)), CloseHandle = (\<lambda>h w. w), sem_unlink = (\<lambda>n w. w),
      sem_open_create = (\<lambda>n w. (Some 0, w)), sem_open_existing = (\<lambda>n w. (Some 0, w)), sem_post = (\<lambda>s w. w),
      sem_timedwait = (\<lambda>s t w. (True, w)), sem_trywait = (\<lambda>s w. (True, w)), sem_close = (\<lambda>s w. w),
      clock_realtime = (\<lambda>w. (0, 0)), instant_now = (\<lambda>w. 0), thread_sleep = (\<lambda>n w. w),
      last_os_error = (\<lambda>w. [])\<rparr>"

lemma quiet_separate: "events_separate quiet_events V"
  by (simp add: events_separate_def leaves_memory_def quiet_events_def)

definition demo_shmem :: shmem where
  "demo_shmem = \<lparr>shm_seg = 1, shm_addr = 65536, shm_len = 256, shm_owner = True\<rparr>"

lemma demo_create:
  "\<exists>w1. create_or_open Linux ref_externals ''slotbus-demo'' 256 ref_world
     = (Inr (region_of_shmem ''slotbus-demo'' demo_shmem), w1)
   \<and> mem w1 1 = replicate 256 0 \<and> bound ref_view w1 = [''slotbus-demo'' \<mapsto> 1]"
  by (simp add: create_or_open_def create_exclusive_def try_create_exclusive_def ref_defs ref_world_def
      demo_shmem_def Let_def fun_eq_iff)

lemma demo_event_names:
  "region_name Linux demo_config = Some ''slotbus-demo''"
  "request_event_name Linux demo_config = Some ''slotbus-demo-req''"
  "response_event_name Linux demo_config = Some ''slotbus-demo-rsp''"
  by (simp_all add: region_name_def request_event_name_def response_event_name_def demo_config_def default_config_def
      sanitize_os_name_def)

lemma quiet_opens:
  "cstring_new (CHR 0x2F # name) = Inr bs \<Longrightarrow> event_create Linux quiet_events name w = (Inr (UnixEvent 0 bs True), w)"
  "cstring_new (CHR 0x2F # name) = Inr bs \<Longrightarrow> event_open Linux quiet_events name w = (Inr (UnixEvent 0 bs False), w)"
  by (simp_all add: event_create_def event_open_def quiet_events_def)

lemma cstring_without_nul: "0 \<notin> set (as_bytes s) \<Longrightarrow> cstring_new s = Inr (as_bytes s)"
  using find_None_iff [of "\<lambda>k. as_bytes s ! k = 0" "[0 ..< length (as_bytes s)]"]
  by (auto simp: cstring_new_def in_set_conv_nth)

lemma demo_cstrings:
  "\<exists>bs. cstring_new ''/slotbus-demo-req'' = Inr bs" "\<exists>bs. cstring_new ''/slotbus-demo-rsp'' = Inr bs"
  by (subst cstring_without_nul; simp add: as_bytes_def)+

text \<open>The world after \<open>create\<close>, and the handle with its layout.\<close>

lemma demo_started: "\<exists>\<sigma>. started Linux ref_externals quiet_events demo_config ref_world \<sigma>
    \<and> r_num_slots (bus_region (sy_bus \<sigma>)) = 1 \<and> r_heap_size (bus_region (sy_bus \<sigma>)) = 64
    \<and> bound ref_view (sy_world \<sigma>) = [''slotbus-demo'' \<mapsto> 1] \<and> bus_config (sy_bus \<sigma>) = demo_config
    \<and> bus_overflow (sy_bus \<sigma>) = (\<lambda>_. None)"
proof -
  let ?base = "region_of_shmem ''slotbus-demo'' demo_shmem"
  obtain w1 where co: "create_or_open Linux ref_externals ''slotbus-demo'' 256 ref_world = (Inr ?base, w1)"
    and w1: "mem w1 1 = replicate 256 0" "bound ref_view w1 = [''slotbus-demo'' \<mapsto> 1]"
    using demo_create by blast
  have f: "r_ptr ?base = 1" "r_len ?base = 256" by (simp_all add: demo_shmem_def)
  let ?r = "init_region demo_config ?base" and ?w2 = "w1\<lparr>mem := (mem w1)(1 := header_bytes (init_region demo_config ?base))\<rparr>"
  have init: "init_control demo_config ?base w1 = Some (Inr (), ?r, ?w2)"
    using init_control_fits [OF demo_hyps(1), of w1 ?base] w1 f demo_hyps(3) by simp
  have L: "r_len ?r = 256" "r_ptr ?r = 1" "r_num_slots ?r = 1" "r_heap_size ?r = 64" "r_heap_offset ?r = 192"
    using f by (simp_all add: init_region_def demo_config_def default_config_def compute_layout_def protocol_consts
        saturating_sub_def)
  obtain q s where c: "cstring_new ''/slotbus-demo-req'' = Inr q" "cstring_new ''/slotbus-demo-rsp'' = Inr s"
    using demo_cstrings by blast
  have ev: "event_create Linux quiet_events ''slotbus-demo-req'' w = (Inr (UnixEvent 0 q True), w)"
    "event_create Linux quiet_events ''slotbus-demo-rsp'' w = (Inr (UnixEvent 0 s True), w)"
    "event_open Linux quiet_events ''slotbus-demo-req'' w = (Inr (UnixEvent 0 q False), w)"
    "event_open Linux quiet_events ''slotbus-demo-rsp'' w = (Inr (UnixEvent 0 s False), w)" for w :: "ref_os world"
    using c by (simp_all add: quiet_opens)
  let ?b = "\<lparr>bus_config = demo_config, bus_region = ?r, bus_req_event = UnixEvent 0 q True,
    bus_rsp_event = UnixEvent 0 s True, bus_pending = (\<lambda>_. None), bus_overflow = (\<lambda>_. None), bus_running = True,
    bus_calls = [], bus_next_channel = 0\<rparr>"
  have "cfg_region_size demo_config = 256" by (simp add: demo_config_def)
  then have hub: "bus_create Linux ref_externals quiet_events demo_config ref_world = Some (Inr ?b, ?w2)"
    using co init ev by (simp add: bus_create_def demo_event_names)
  have names: "bound ref_view ?w2 = [''slotbus-demo'' \<mapsto> 1]"
    using w1(2) ref_shmem_documented unfolding shmem_documented_def view_ignores_bytes_def by simp
  then have op: "bound ref_view ?w2 ''slotbus-demo'' = Some 1" by simp
  have len: "length (mem ?w2 1) = 256" using L by (simp add: length_header_bytes)
  obtain h w3 where "shmem_open ref_externals ''slotbus-demo'' ?w2 = (Inr h, w3)" "shm_seg h = 1"
    using open_bound [OF ref_shmem_documented op] len by auto
  then have ro: "region_open ref_externals ''slotbus-demo'' ?w2 = (Inr (region_of_shmem ''slotbus-demo'' h), w3)"
    by (simp add: region_open_def)
  note O = open_opened [OF ref_shmem_documented ro]
  have names3: "bound ref_view w3 = [''slotbus-demo'' \<mapsto> 1]"
    using open_ok(5) [OF ref_shmem_documented] \<open>shmem_open ref_externals ''slotbus-demo'' ?w2 = (Inr h, w3)\<close> names by metis
  let ?p = "region_of_shmem ''slotbus-demo'' h"
  have "r_ptr ?p = 1" using O(2) op by simp
  moreover have "unat (r_len ?p) = 256" using O(3) op O(2) len by simp
  ultimately have p: "r_ptr ?p = r_ptr ?base" "r_len ?p = r_len ?base" using f by (simp_all add: word_unat_eq_iff)
  have "\<exists>p'. validate_control ?p ?w2 = Some (Inr (), p')"
    using validate_initialised [OF demo_hyps(1) _ init _ p] f w1(1) by auto
  then obtain p' where val: "validate_control ?p w3 = Some (Inr (), p')"
    using validate_bytes [of w3 ?p ?w2] O(4) by auto
  have "worker_open Linux ref_externals quiet_events demo_config ?w2 = Some (Inr
      \<lparr>wk_config = demo_config, wk_region = p', wk_req_event = UnixEvent 0 q False, wk_rsp_event = UnixEvent 0 s False,
       wk_overflow = (\<lambda>_. None), wk_running = True\<rparr>, w3)"
    using ro val ev by (simp add: worker_open_def demo_event_names)
  then have "started Linux ref_externals quiet_events demo_config ref_world (start_system ?b
      \<lparr>wk_config = demo_config, wk_region = p', wk_req_event = UnixEvent 0 q False, wk_rsp_event = UnixEvent 0 s False,
       wk_overflow = (\<lambda>_. None), wk_running = True\<rparr> w3)"
    using hub L demo_hyps(1) unfolding started_def names_ok_def by auto
  then show ?thesis using L names3 by (intro exI conjI) (auto simp: start_system_def)
qed


definition demo_call :: call where
  "demo_call = \<lparr>cl_id = ''a'', cl_method = ''POST'', cl_meta = demo_request, cl_body = [1, 2, 3]\<rparr>"

definition demo_answer :: "request \<Rightarrow> reply" where
  "demo_answer rq = \<lparr>rp_status = 200, rp_meta = demo_response, rp_body = rq_body rq\<rparr>"

lemma demo_call_ok: "call_ok ref_externals demo_call" "request_to_vec ref_externals (cl_meta demo_call) = Inr (as_bytes ''/x'')"
proof -
  have "req_id_ok ''a''" by (simp add: req_id_ok_def as_bytes_def) (rule valid_utf8_ascii, simp)
  then show "call_ok ref_externals demo_call" using demo_request_vec by (simp add: call_ok_def demo_call_def)
qed (simp add: demo_call_def demo_request_vec)

lemma demo_answer_ok:
  "demo_answer (request_of demo_call) = \<lparr>rp_status = 200, rp_meta = demo_response, rp_body = [1, 2, 3]\<rparr>"
  "reply_ok ref_externals (demo_answer (request_of demo_call))"
  "response_to_vec ref_externals (rp_meta (demo_answer (request_of demo_call))) = Inr (as_bytes ''t'')"
  using demo_response_vec
  by (simp_all add: demo_answer_def request_of_def decode_request_def demo_call_def reply_ok_def)

text \<open>The started system, its free slot and the room in its arenas.\<close>

lemma demo_system:
  obtains \<sigma> where "started Linux ref_externals quiet_events demo_config ref_world \<sigma>"
    and "simulates ref_view Linux ref_externals initial \<sigma>" and "sy_threads \<sigma> = (\<lambda>_. None)" and "slots_of \<sigma> = 1"
    and "payload_fits (bus_region (sy_bus \<sigma>)) Req 0 (as_bytes ''/x'') [1, 2, 3]"
    and "payload_fits (wk_region (sy_worker \<sigma>)) Resp 0 (as_bytes ''t'') [1, 2, 3]"
    and "slot_indices (bus_region (sy_bus \<sigma>)) = [0]" and "arena (wk_region (sy_worker \<sigma>)) Resp 0 = (32, 32)"
    and "arena (bus_region (sy_bus \<sigma>)) Req 0 = (0, 32)"
    and "bound ref_view (sy_world \<sigma>) = [''slotbus-demo'' \<mapsto> 1]" and "bus_config (sy_bus \<sigma>) = demo_config"
    and "bus_overflow (sy_bus \<sigma>) = (\<lambda>_. None)"
proof -
  obtain \<sigma> where st: "started Linux ref_externals quiet_events demo_config ref_world \<sigma>"
    and lay: "r_num_slots (bus_region (sy_bus \<sigma>)) = 1" "r_heap_size (bus_region (sy_bus \<sigma>)) = 64"
    and fresh: "bound ref_view (sy_world \<sigma>) = [''slotbus-demo'' \<mapsto> 1]" "bus_config (sy_bus \<sigma>) = demo_config"
      "bus_overflow (sy_bus \<sigma>) = (\<lambda>_. None)"
    using demo_started by blast
  obtain S where S: "spec_run initial [] S" and sim': "simulates ref_view Linux ref_externals S \<sigma>"
    using started_run [OF ref_shmem_documented ref_postcard_documented quiet_separate st sys_start] by blast
  have "S = initial" using S by (cases rule: spec_run.cases) auto
  with sim' have sim: "simulates ref_view Linux ref_externals initial \<sigma>" by simp
  have q: "same_layout (wk_region (sy_worker \<sigma>)) (bus_region (sy_bus \<sigma>))"
    using simulatesD(2) [OF sim] by (simp add: linked_def)
  have a: "arena (bus_region (sy_bus \<sigma>)) s 0 = arena demo_region s 0" for s
    using lay by (cases s) (simp_all add: arena_def region_slot_arenas_def)
  then have b: "arena (wk_region (sy_worker \<sigma>)) s 0 = arena demo_region s 0" for s
    using same_layout_arena(1) [OF q] by simp
  have "sy_threads \<sigma> = (\<lambda>_. None)" using st by (auto simp: started_def start_system_def)
  moreover have "payload_fits (bus_region (sy_bus \<sigma>)) Req 0 (as_bytes ''/x'') [1, 2, 3]"
    "payload_fits (wk_region (sy_worker \<sigma>)) Resp 0 (as_bytes ''t'') [1, 2, 3]"
    by (simp_all add: payload_fits_def inline_fits_def a b demo_arena)
  moreover have "arena (wk_region (sy_worker \<sigma>)) Resp 0 = (32, 32)" "arena (bus_region (sy_bus \<sigma>)) Req 0 = (0, 32)"
    by (simp_all add: a b demo_arena)
  moreover have "slots_of \<sigma> = 1" "slot_indices (bus_region (sy_bus \<sigma>)) = [0]"
    using lay by (simp_all add: slots_of_def slot_indices_def usize_of_def)
  ultimately show ?thesis using that st sim fresh by blast
qed

text \<open>The whole way of a call through the started system.\<close>

definition demo_events :: "shm_region option \<Rightarrow> shm_region option \<Rightarrow> shm_region option \<Rightarrow> nat \<Rightarrow> event list" where
  "demo_events o1 o2 o3 ch = call_events o1 o2 o3 0 demo_call ch (demo_answer (request_of demo_call))"

lemma demo_run_fits:
  obtains \<sigma> o1 o2 o3 ch \<upsilon> where "started Linux ref_externals quiet_events demo_config ref_world \<sigma>"
    and "sys_run Linux ref_externals quiet_events \<sigma> (demo_events o1 o2 o3 ch) \<upsilon>"
    and "payload_fits (bus_region (sy_bus \<sigma>)) Req 0 (as_bytes ''/x'') [1, 2, 3]"
    and "payload_fits (bus_region (sy_bus \<sigma>)) Resp 0 (as_bytes ''t'') [1, 2, 3]"
proof -
  obtain \<sigma> where S: "started Linux ref_externals quiet_events demo_config ref_world \<sigma>"
    "simulates ref_view Linux ref_externals initial \<sigma>" "sy_threads \<sigma> = (\<lambda>_. None)" "slots_of \<sigma> = 1"
    "payload_fits (bus_region (sy_bus \<sigma>)) Req 0 (as_bytes ''/x'') [1, 2, 3]"
    "payload_fits (wk_region (sy_worker \<sigma>)) Resp 0 (as_bytes ''t'') [1, 2, 3]"
    by (rule demo_system)
  have "\<exists>o1 o2 o3 ch \<upsilon>. sys_run Linux ref_externals quiet_events \<sigma>
      (call_events o1 o2 o3 0 demo_call ch (demo_answer (request_of demo_call))) \<upsilon>"
    using S demo_call_ok demo_answer_ok
    by (intro call_runs [OF ref_shmem_documented ref_postcard_documented quiet_separate S(2)])
      (auto simp: initial_def demo_call_def)
  moreover have "same_layout (wk_region (sy_worker \<sigma>)) (bus_region (sy_bus \<sigma>))"
    using simulatesD(2) [OF S(2)] by (simp add: linked_def)
  then have "payload_fits (bus_region (sy_bus \<sigma>)) Resp 0 (as_bytes ''t'') [1, 2, 3]"
    using S(6) same_layout_arena(1) by (simp add: payload_fits_def inline_fits_def)
  ultimately show ?thesis using that S(1,5) unfolding demo_events_def by blast
qed

lemma demo_run:
  obtains \<sigma> o1 o2 o3 ch \<upsilon> where "started Linux ref_externals quiet_events demo_config ref_world \<sigma>"
    and "sys_run Linux ref_externals quiet_events \<sigma> (demo_events o1 o2 o3 ch) \<upsilon>"
  by (rule demo_run_fits)

text \<open>A run of which a prefix is of interest.\<close>

lemma demo_prefix:
  assumes "\<And>o1 o2 o3 ch. \<exists>rest. demo_events o1 o2 o3 ch = pre o1 ch @ rest"
  obtains \<sigma> o1 ch \<tau> where "started Linux ref_externals quiet_events demo_config ref_world \<sigma>"
    and "sys_run Linux ref_externals quiet_events \<sigma> (pre o1 ch) \<tau>"
proof -
  obtain \<sigma> o1 o2 o3 ch \<upsilon> where st: "started Linux ref_externals quiet_events demo_config ref_world \<sigma>"
    and run: "sys_run Linux ref_externals quiet_events \<sigma> (demo_events o1 o2 o3 ch) \<upsilon>" by (rule demo_run)
  obtain rest where "demo_events o1 o2 o3 ch = pre o1 ch @ rest" using assms by blast
  with run sys_run_prefix st that show ?thesis by metis
qed

end
