(* ===== verification/System.thy ===== *)
theory System
  imports Demo
begin

text \<open>
  What the whole system guarantees, stated over a hub and a worker that \<open>SlotBus::create\<close> and
  \<open>SlotWorker::open\<close> have started and over the code's own operations.
\<close>

section \<open>Refinement\<close>

definition status_code :: "phase \<Rightarrow> u32" where
  "status_code ph = (case ph of Free \<Rightarrow> SLOT_FREE | Writing \<Rightarrow> SLOT_WRITING | Ready c \<Rightarrow> SLOT_READY
     | Claimed c \<Rightarrow> SLOT_CLAIMED | Done c p \<Rightarrow> SLOT_DONE)"

lemma simulated_status:
  assumes "simulates V pl X S \<sigma>" and "unat i < slots_of \<sigma>"
  shows "slot_status (bus_region (sy_bus \<sigma>)) i (sy_world \<sigma>) = Some (status_code (sp_phase S i))"
proof -
  have "unat i < unat (r_num_slots (bus_region (sy_bus \<sigma>)))" using assms(2) by (simp add: slots_of_def)
  from status_ops(1) [OF liveD(1) [OF simulatesD(1) [OF assms(1)]] this] sim_slot [OF assms]
  show ?thesis by (cases "sp_phase S i") (simp_all add: slot_matches_def status_code_def)
qed

text \<open>
  C1: the system refines the protocol. Whatever the threads of a hub and a worker do after they are
  started, in any interleaving of the steps of \<open>sys_step\<close> (a compare-exchange, an access to one of the shared
  maps, or the reading or writing of a slot the thread owns), the trace is one of the protocol \<open>spec_step\<close>;
  the status word of every slot is the code of its phase, and the pending map holds exactly the calls
  the protocol has registered.
\<close>

theorem system_refines_protocol:
  assumes "shmem_documented X V" and "postcard_documented X" and "events_separate E V"
    and "started pl X E c w \<sigma>" and "sys_run pl X E \<sigma> es \<sigma>'"
  shows "\<exists>S. spec_run initial es S
    \<and> (\<forall>i. unat i < slots_of \<sigma>' \<longrightarrow>
         slot_status (bus_region (sy_bus \<sigma>')) i (sy_world \<sigma>') = Some (status_code (sp_phase S i)))
    \<and> sp_pending S = (\<lambda>req_id. map_option (snd \<circ> snd) (bus_pending (sy_bus \<sigma>') req_id))"
  using started_run [OF assms] simulated_status simulatesD(5) by metis

theorem system_refines_protocol_witness:
  "\<exists>\<sigma> o1 o2 o3 ch \<upsilon> S. started Linux ref_externals quiet_events demo_config ref_world \<sigma>
    \<and> sys_run Linux ref_externals quiet_events \<sigma> (demo_events o1 o2 o3 ch) \<upsilon>
    \<and> spec_run initial (demo_events o1 o2 o3 ch) S"
proof -
  obtain \<sigma> o1 o2 o3 ch \<upsilon> where "started Linux ref_externals quiet_events demo_config ref_world \<sigma>"
    "sys_run Linux ref_externals quiet_events \<sigma> (demo_events o1 o2 o3 ch) \<upsilon>"
    by (rule demo_run)
  with system_refines_protocol [OF ref_shmem_documented ref_postcard_documented quiet_separate this] show ?thesis by blast
qed

section \<open>Messages\<close>

text \<open>What the trace tells of a delivery and of a resolution.\<close>

lemma deliver_history:
  assumes "shmem_documented X V" and "postcard_documented X" and "events_separate E V"
    and "started pl X E c w \<sigma>" and "sys_run pl X E \<sigma> (es @ [Deliver i rq]) \<sigma>'"
  shows "\<exists>h call. slot_events i es = h @ [Claim i, Publish i call, Take i]
    \<and> rq = (request_of call)\<lparr>rq_body := rq_body rq\<rparr> \<and> (rq = request_of call \<or> body_dropped Req i es)"
proof -
  obtain S where "spec_run initial (es @ [Deliver i rq]) S" using started_run [OF assms] by blast
  then obtain T where T: "spec_run initial es T" "spec_step T (Deliver i rq) S" by (auto elim: spec_run_snocE)
  from T(2) obtain call where ph: "sp_phase T i = Claimed call" and rd: "reads_request (sp_lost T i) call rq"
    by (auto elim: spec_deliverE)
  have "sp_lost T i \<longrightarrow> body_dropped Req i es" using spec_run_history(3) [OF T(1) refl, of i] ph by (simp add: loss_told_def)
  moreover have "rq = (request_of call)\<lparr>rq_body := rq_body rq\<rparr>" "sp_lost T i \<or> rq = request_of call"
    using rd by (auto simp: reads_request_def split: if_splits)
  ultimately show ?thesis using spec_run_history(1) [OF T(1) refl, of i] ph unfolding tells_def by auto
qed

lemma resolve_history:
  assumes "shmem_documented X V" and "postcard_documented X" and "events_separate E V"
    and "started pl X E c w \<sigma>" and "sys_run pl X E \<sigma> (es @ [Resolve calls]) \<sigma>'"
  shows "\<exists>pre i post h call p. es = pre @ Release i # post \<and> (\<forall>e \<in> set post. \<not> watcher_event e)
    \<and> slot_events i pre = h @ [Claim i, Publish i call, Take i, Reply i p]
    \<and> (calls = [] \<or> (\<exists>ch body. calls = [SendResponse ch (response_of (p\<lparr>rp_body := body\<rparr>))]
         \<and> Register (cl_id call) ch \<in> set es \<and> (body = rp_body p \<or> body_dropped Resp i pre)))"
proof -
  obtain S where "spec_run initial (es @ [Resolve calls]) S" using started_run [OF assms] by blast
  then obtain T where T: "spec_run initial es T" "spec_step T (Resolve calls) S" by (auto elim: spec_run_snocE)
  from T(2) obtain req_id q where tk: "sp_taken T = Some (req_id, q)"
    and res: "fst (resolved (sp_pending T) (req_id, q)) = calls"
    by (auto elim!: spec_resolveE)
  from tk spec_run_history(4) [OF T(1) refl]
  obtain pre post i where es: "es = pre @ Release i # post" "\<forall>e \<in> set post. \<not> watcher_event e" and "took i pre req_id q"
    unfolding taken_told_def by blast
  then obtain h call p lost where h: "slot_events i pre = h @ [Claim i, Publish i call, Take i, Reply i p]" "req_id = cl_id call"
    and q: "reads_reply lost p q" "lost \<longrightarrow> body_dropped Resp i pre"
    unfolding took_def by blast
  have "calls = [] \<or> (\<exists>ch body. calls = [SendResponse ch (response_of (p\<lparr>rp_body := body\<rparr>))]
         \<and> Register (cl_id call) ch \<in> set es \<and> (body = rp_body p \<or> body_dropped Resp i pre))"
  proof (cases "calls = []")
    case False
    then obtain p' ch where p': "q = Some p'" "sp_pending T (cl_id call) = Some ch" "calls = [SendResponse ch (response_of p')]"
      using res h(2) by (cases q) (auto simp: resolution_def split: option.splits)
    have "p' = p\<lparr>rp_body := rp_body p'\<rparr>" "rp_body p' = rp_body p \<or> body_dropped Resp i pre"
      using q p'(1) by (auto simp: reads_reply_def split: if_splits)
    then show ?thesis using p'(2,3) spec_run_history(2) [OF T(1) refl] by metis
  qed simp
  then show ?thesis using es h(1) by blast
qed

text \<open>
  C6: a handler is given exactly the request that was dispatched. When a request is delivered from slot
  \<open>i\<close>, the last three phase changes of the slot are its reservation, the publication of a call and the
  worker's claim; the id, method, path, parameters, query and headers of the request are that call's,
  and so is its body, unless the overflow region kept for the slot was removed from the hub's map in
  the meantime.
\<close>

theorem request_delivered_intact:
  assumes "shmem_documented X V" and "postcard_documented X" and "events_separate E V"
    and "started pl X E c w \<sigma>" and "sys_run pl X E \<sigma> (es @ [Deliver i rq]) \<sigma>'"
  shows "\<exists>h call. slot_events i es = h @ [Claim i, Publish i call, Take i]
    \<and> rq = (request_of call)\<lparr>rq_body := rq_body rq\<rparr> \<and> (rq = request_of call \<or> body_dropped Req i es)"
  by (rule deliver_history [OF assms])

theorem request_delivered_intact_witness:
  "\<exists>\<sigma> es \<tau>. sys_run Linux ref_externals quiet_events \<sigma> (es @ [Deliver 0 (request_of demo_call)]) \<tau>
    \<and> (\<exists>h call. slot_events 0 es = h @ [Claim 0, Publish 0 call, Take 0])"
proof -
  obtain \<sigma> o1 ch \<tau> where st: "started Linux ref_externals quiet_events demo_config ref_world \<sigma>"
    and run: "sys_run Linux ref_externals quiet_events \<sigma>
      ([Claim 0, dropped Req 0 o1, Publish 0 demo_call, Idle, Register (cl_id demo_call) ch, Take 0]
        @ [Deliver 0 (request_of demo_call)]) \<tau>"
    by (rule demo_prefix [where pre = "\<lambda>o1 ch. [Claim 0, dropped Req 0 o1, Publish 0 demo_call, Idle,
          Register (cl_id demo_call) ch, Take 0] @ [Deliver 0 (request_of demo_call)]"])
      (simp_all add: demo_events_def call_events_def)
  from run request_delivered_intact [OF ref_shmem_documented ref_postcard_documented quiet_separate st run] show ?thesis
    by blast
qed

text \<open>
  C5: a caller is only ever answered with the reply to its own request. When the watcher makes its calls on
  the channels, it has last released some slot \<open>i\<close>, whose last phase changes were the publication of a
  call, its claim and a reply to it; it resolves at most one channel, which was registered under the call's
  request id, and with that reply, whose body is unchanged unless the worker had dropped the slot's
  overflow region.
\<close>

theorem response_resolves_caller:
  assumes "shmem_documented X V" and "postcard_documented X" and "events_separate E V"
    and "started pl X E c w \<sigma>" and "sys_run pl X E \<sigma> (es @ [Resolve calls]) \<sigma>'"
  shows "\<exists>pre i post h call p. es = pre @ Release i # post \<and> (\<forall>e \<in> set post. \<not> watcher_event e)
    \<and> slot_events i pre = h @ [Claim i, Publish i call, Take i, Reply i p]
    \<and> (calls = [] \<or> (\<exists>ch body. calls = [SendResponse ch (response_of (p\<lparr>rp_body := body\<rparr>))]
         \<and> Register (cl_id call) ch \<in> set es \<and> (body = rp_body p \<or> body_dropped Resp i pre)))"
  by (rule resolve_history [OF assms])

theorem response_resolves_caller_witness:
  "\<exists>\<sigma> es \<tau> ch p. sys_run Linux ref_externals quiet_events \<sigma> (es @ [Resolve [SendResponse ch (response_of p)]]) \<tau>
    \<and> (\<exists>call :: call. Register (cl_id call) ch \<in> set es)"
proof -
  obtain \<sigma> o1 o2 o3 ch \<upsilon> where st: "started Linux ref_externals quiet_events demo_config ref_world \<sigma>"
    and run: "sys_run Linux ref_externals quiet_events \<sigma> (demo_events o1 o2 o3 ch) \<upsilon>"
    by (rule demo_run)
  let ?es = "butlast (demo_events o1 o2 o3 ch)"
  have run': "sys_run Linux ref_externals quiet_events \<sigma>
      (?es @ [Resolve [SendResponse ch (response_of (demo_answer (request_of demo_call)))]]) \<upsilon>"
    using run by (simp add: demo_events_def call_events_def)
  have "\<exists>call :: call. Register (cl_id call) ch \<in> set ?es"
    using response_resolves_caller [OF ref_shmem_documented ref_postcard_documented quiet_separate st run'] by blast
  with run' show ?thesis by blast
qed

section \<open>Ownership\<close>

text \<open>
  C4: slots and overflow regions have one owner. No two threads are ever inside an operation on the same
  slot; while a thread of the hub fills a slot its status is \<open>Writing\<close>, while a thread of the worker
  reads it, runs its handler or answers the status is \<open>Claimed\<close>; and the overflow regions, those the two
  sides keep in their maps and those that threads have in hand on the way to a map, are alive, pairwise
  distinct segments, none of them the control region.
\<close>

theorem slots_exclusively_owned:
  assumes "shmem_documented X V" and "postcard_documented X" and "events_separate E V"
    and "started pl X E c w \<sigma>" and "sys_run pl X E \<sigma> es \<sigma>'"
  shows "(\<forall>t u a b i. sy_threads \<sigma>' t = Some a \<and> sy_threads \<sigma>' u = Some b \<and> slot_of a = Some i \<and> slot_of b = Some i
        \<longrightarrow> t = u)
    \<and> (\<forall>t a i. sy_threads \<sigma>' t = Some a \<and> slot_of a = Some i \<longrightarrow>
        slot_status (bus_region (sy_bus \<sigma>')) i (sy_world \<sigma>')
          = Some (case a of Filling j call \<Rightarrow> SLOT_WRITING | Cleared j call \<Rightarrow> SLOT_WRITING | _ \<Rightarrow> SLOT_CLAIMED))
    \<and> (\<forall>s i x o1. regions_of \<sigma>' s i x = Some o1 \<longrightarrow>
        0 < handles V (sy_world \<sigma>') (r_ptr o1) \<and> r_ptr o1 \<noteq> r_ptr (bus_region (sy_bus \<sigma>')))
    \<and> (\<forall>s i x t j y o1 o2. regions_of \<sigma>' s i x = Some o1 \<and> regions_of \<sigma>' t j y = Some o2 \<and> r_ptr o1 = r_ptr o2
        \<longrightarrow> s = t \<and> i = j \<and> x = y)"
proof -
  obtain S where sim: "simulates V pl X S \<sigma>'" using started_run [OF assms] by blast
  note sD = simulatesD [OF sim]
  have "slot_status (bus_region (sy_bus \<sigma>')) i (sy_world \<sigma>')
      = Some (case a of Filling j call \<Rightarrow> SLOT_WRITING | Cleared j call \<Rightarrow> SLOT_WRITING | _ \<Rightarrow> SLOT_CLAIMED)"
    if a: "sy_threads \<sigma>' t = Some a" "slot_of a = Some i" for t a i
  proof -
    have "activity_ok (slots_of \<sigma>') X (sp_phase S) a" using sD(6) a(1) unfolding threads_match_def by blast
    then have "unat i < slots_of \<sigma>'"
      "status_code (sp_phase S i) = (case a of Filling j call \<Rightarrow> SLOT_WRITING | Cleared j call \<Rightarrow> SLOT_WRITING | _ \<Rightarrow> SLOT_CLAIMED)"
      using a(2) by (cases a; auto simp: activity_ok_def status_code_def)+
    then show ?thesis using simulated_status [OF sim] by simp
  qed
  moreover have "\<forall>t u a b i. sy_threads \<sigma>' t = Some a \<and> sy_threads \<sigma>' u = Some b \<and> slot_of a = Some i \<and> slot_of b = Some i
        \<longrightarrow> t = u"
    using sD(6) unfolding threads_match_def by blast
  ultimately show ?thesis using sD(3) unfolding regions_apart_def by blast
qed

theorem slots_exclusively_owned_witness:
  "\<exists>\<sigma> \<tau> t a. started Linux ref_externals quiet_events demo_config ref_world \<sigma>
    \<and> sys_run Linux ref_externals quiet_events \<sigma> [Claim 0] \<tau> \<and> sy_threads \<tau> t = Some a
    \<and> slot_status (bus_region (sy_bus \<tau>)) 0 (sy_world \<tau>) = Some SLOT_WRITING"
proof -
  obtain \<sigma> where S: "started Linux ref_externals quiet_events demo_config ref_world \<sigma>"
    "simulates ref_view Linux ref_externals initial \<sigma>" "sy_threads \<sigma> = (\<lambda>_. None)" "slots_of \<sigma> = 1"
    by (rule demo_system)
  have "unat (0 :: usize) < slots_of \<sigma>" using S(4) by simp
  then obtain w where step: "sys_step Linux ref_externals quiet_events \<sigma> (Claim 0)
      (\<sigma>\<lparr>sy_world := w, sy_threads := (sy_threads \<sigma>)(0 \<mapsto> Filling 0 demo_call)\<rparr>)"
    using claim_enabled [where E = quiet_events and t = 0 and i = 0 and c = demo_call, OF ref_shmem_documented S(2)] S(3)
      demo_call_ok(1) by (auto simp: initial_def)
  let ?\<tau> = "\<sigma>\<lparr>sy_world := w, sy_threads := (sy_threads \<sigma>)(0 \<mapsto> Filling 0 demo_call)\<rparr>"
  note run = sys_run_one [OF step]
  have "sy_threads ?\<tau> 0 = Some (Filling 0 demo_call) \<and> slot_of (Filling 0 demo_call) = Some 0" by simp
  then have "slot_status (bus_region (sy_bus ?\<tau>)) 0 (sy_world ?\<tau>)
      = Some (case Filling 0 demo_call of Filling j call \<Rightarrow> SLOT_WRITING | Cleared j call \<Rightarrow> SLOT_WRITING | _ \<Rightarrow> SLOT_CLAIMED)"
    using slots_exclusively_owned [OF ref_shmem_documented ref_postcard_documented quiet_separate S(1) run] by blast
  then show ?thesis using S(1) run by (intro exI conjI) auto
qed

section \<open>A call from dispatch to answer\<close>

text \<open>
  C14: what \<open>dispatch\<close> does, on every branch. With no slot free it fails with \<open>NoFreeSlots\<close> and changes nothing.
  Otherwise it takes the lowest free slot. Metadata that cannot be serialised make it fail with the error, and the slot
  it has taken stays \<open>Writing\<close>. With serialisable metadata it either publishes the call in that slot and registers a new
  channel under its id, or reports an error and leaves every slot and the pending map as they were; a message that fits
  its arena is always accepted.
\<close>

theorem dispatch_outcome:
  assumes "shmem_documented X V" and "events_separate E V" and "simulates V pl X S \<sigma>"
    and "sy_threads \<sigma> t = None" and "call_ok X c"
  shows "\<exists>res b w. bus_dispatch pl X E (cl_id c) (cl_method c) (cl_meta c) (cl_body c) (sy_bus \<sigma>, sy_world \<sigma>) = Some (res, b, w)
    \<and> (case find (\<lambda>i. sp_phase S i = Free) (slot_indices (bus_region (sy_bus \<sigma>))) of
         None \<Rightarrow> res = Inl (NoFreeSlots (cfg_num_slots (bus_config (sy_bus \<sigma>)))) \<and> b = sy_bus \<sigma> \<and> w = sy_world \<sigma>
       | Some i \<Rightarrow>
           (case request_to_vec X (cl_meta c) of
              Inl err \<Rightarrow> res = Inl (Serialization err) \<and> b = sy_bus \<sigma>
                \<and> simulates V pl X (set_phase i Writing S) (\<sigma>\<lparr>sy_world := w\<rparr>)
            | Inr mb \<Rightarrow> (payload_fits (bus_region (sy_bus \<sigma>)) Req i mb (cl_body c) \<longrightarrow> (\<exists>ch. res = Inr ch))
                \<and> (case res of
                     Inl e \<Rightarrow> simulates V pl X S (\<sigma>\<lparr>sy_bus := b, sy_world := w\<rparr>)
                   | Inr ch \<Rightarrow> simulates V pl X (register_call i c ch S) (\<sigma>\<lparr>sy_bus := b, sy_world := w\<rparr>))))"
proof (cases "request_to_vec X (cl_meta c)")
  case (Inr mb)
  then show ?thesis using dispatch_simulated [OF assms Inr] by (simp cong: option.case_cong)
next
  case (Inl err)
  show ?thesis
  proof (cases "find (\<lambda>i. sp_phase S i = Free) (slot_indices (bus_region (sy_bus \<sigma>)))")
    case None
    then show ?thesis using dispatch_claims [OF assms(3)] by (simp add: bus_dispatch_def)
  next
    case (Some i)
    then show ?thesis using dispatch_unserialisable [OF assms(1,3-5) Inl Some, of E] Inl by auto
  qed
qed

theorem dispatch_outcome_witness:
  "\<exists>(\<sigma> :: ref_os system) ch b w. bus_dispatch Linux ref_externals quiet_events ''a'' ''POST'' demo_request [1, 2, 3] (sy_bus \<sigma>, sy_world \<sigma>)
    = Some (Inr ch, b, w)"
proof -
  obtain \<sigma> where S: "simulates ref_view Linux ref_externals initial \<sigma>" "sy_threads \<sigma> = (\<lambda>_. None)"
    "payload_fits (bus_region (sy_bus \<sigma>)) Req 0 (as_bytes ''/x'') [1, 2, 3]" "slot_indices (bus_region (sy_bus \<sigma>)) = [0]"
    by (rule demo_system)
  have "sy_threads \<sigma> 0 = None" using S(2) by simp
  from dispatch_outcome [OF ref_shmem_documented quiet_separate S(1) this demo_call_ok(1)] S(3,4) demo_call_ok(2)
  show ?thesis by (auto simp: initial_def demo_call_def)
qed

text \<open>
  C2: a call that fits is accepted and answered. The state is one of a running system (\<open>simulates\<close>) in which no message
  has lost its body and the watcher is not on its way from the release of a slot to the resolution of its caller; a slot is free, the call's metadata can be serialised, the
  request fits its arena without an overflow region, no call in flight has its id, and the handler's replies to this
  and to every waiting request can be serialised and fit as well. Then \<open>dispatch\<close> accepts the call, the next turn of the
  receive loop hands exactly this request to the worker's handler, and the next turn of the response watcher resolves its channel
  with the handler's reply and leaves its slot free. No operation on the way leaves the mapping or runs forever.
  (\<open>accepted_call_settled\<close> is for messages of any size.)
\<close>

theorem call_answered:
  assumes "shmem_documented X V" and "postcard_documented X" and "events_separate E V" and "pl = MacOS \<longrightarrow> clock_documented E"
    and "simulates V pl X S \<sigma>" and "calm S" and "sy_threads \<sigma> t = None"
    and "call_ok X c" and "request_to_vec X (cl_meta c) = Inr mb"
    and "find (\<lambda>i. sp_phase S i = Free) (slot_indices (bus_region (sy_bus \<sigma>))) = Some i"
    and "payload_fits (bus_region (sy_bus \<sigma>)) Req i mb (cl_body c)"
    and "replies_fit X (wk_region (sy_worker \<sigma>)) g ((sp_phase S)(i := Ready c))"
    and "\<And>j c'. call_of (sp_phase S j) = Some c' \<Longrightarrow> cl_id c' \<noteq> cl_id c"
  shows "\<exists>ch b1 w1 k2 w2 b3 w3 calls.
      bus_dispatch pl X E (cl_id c) (cl_method c) (cl_meta c) (cl_body c) (sy_bus \<sigma>, sy_world \<sigma>) = Some (Inr ch, b1, w1)
    \<and> receive_turn pl X E (replying pl X E g) (sy_worker \<sigma>, w1) = Some (k2, w2)
    \<and> watch_turn pl X E (b1, w2) = Some (b3, w3)
    \<and> bus_calls b3 = bus_calls b1 @ calls \<and> SendResponse ch (response_of (g (request_of c))) \<in> set calls
    \<and> slot_status (bus_region b3) i w3 = Some SLOT_FREE"
  by (rule call_answered_simulated [OF assms])

theorem call_answered_witness:
  "\<exists>(\<sigma> :: ref_os system) ch b1 w1 k2 w2 b3 w3.
      bus_dispatch Linux ref_externals quiet_events ''a'' ''POST'' demo_request [1, 2, 3] (sy_bus \<sigma>, sy_world \<sigma>)
        = Some (Inr ch, b1, w1)
    \<and> receive_turn Linux ref_externals quiet_events (replying Linux ref_externals quiet_events demo_answer) (sy_worker \<sigma>, w1)
        = Some (k2, w2)
    \<and> watch_turn Linux ref_externals quiet_events (b1, w2) = Some (b3, w3)
    \<and> SendResponse ch \<lparr>rs_status = 200, rs_body = [1, 2, 3], rs_content_type = ''t'', rs_headers = []\<rparr> \<in> set (bus_calls b3)"
proof -
  obtain \<sigma> where S: "simulates ref_view Linux ref_externals initial \<sigma>" "sy_threads \<sigma> = (\<lambda>_. None)"
    "payload_fits (bus_region (sy_bus \<sigma>)) Req 0 (as_bytes ''/x'') [1, 2, 3]"
    "payload_fits (wk_region (sy_worker \<sigma>)) Resp 0 (as_bytes ''t'') [1, 2, 3]" "slot_indices (bus_region (sy_bus \<sigma>)) = [0]"
    by (rule demo_system)
  have "replies_fit ref_externals (wk_region (sy_worker \<sigma>)) demo_answer ((sp_phase initial)(0 := Ready demo_call))"
    using S(4) demo_answer_ok by (auto simp: replies_fit_def initial_def)
  moreover have "find (\<lambda>i. sp_phase initial i = Free) (slot_indices (bus_region (sy_bus \<sigma>))) = Some 0"
    using S(5) by (simp add: initial_def)
  moreover have "payload_fits (bus_region (sy_bus \<sigma>)) Req 0 (as_bytes ''/x'') (cl_body demo_call)"
    using S(3) by (simp add: demo_call_def)
  moreover have "cl_id c' \<noteq> cl_id demo_call" if "call_of (sp_phase initial j) = Some c'" for j c'
    using that by (simp add: initial_def)
  moreover have "sy_threads \<sigma> 0 = None" using S(2) by simp
  moreover have "response_of (demo_answer (request_of demo_call))
      = \<lparr>rs_status = 200, rs_body = [1, 2, 3], rs_content_type = ''t'', rs_headers = []\<rparr>"
    by (simp add: response_of_def demo_answer_ok(1) demo_response_def)
  ultimately show ?thesis
    using call_answered [OF ref_shmem_documented ref_postcard_documented quiet_separate _ S(1) calm_simps(4) _ demo_call_ok, of 0 0 demo_answer]
    by (fastforce simp: demo_call_def)
qed

section \<open>Starting\<close>

text \<open>
  C16: a started bus begins in the protocol's initial state: once \<open>SlotBus::create\<close> has succeeded with a region below 4 GiB
  (the header's fields are \<open>u32\<close>) and \<open>SlotWorker::open\<close> with the same configuration, whose slot table does not
  wrap around and whose overflow names can be formed, both ends map the same segment with the same layout, every slot
  is free and no call is pending. (\<open>header_truncates_large_heap\<close> is about larger regions.)
\<close>

theorem startup_correct:
  assumes "shmem_documented X V" and "events_separate E V" and "slots_fit c" and "names_ok pl c"
    and "bus_create pl X E c w = Some (Inr b, w1)" and "unat (r_len (bus_region b)) < 2 ^ 32"
    and "worker_open pl X E c w1 = Some (Inr k, w2)"
  shows "simulates V pl X initial (start_system b k w2) \<and> same_layout (wk_region k) (bus_region b)
    \<and> (\<forall>i. unat i < unat (r_num_slots (bus_region b)) \<longrightarrow> slot_status (bus_region b) i w2 = Some SLOT_FREE)"
proof -
  note sim = startup_simulates [OF assms]
  have "same_layout (wk_region k) (bus_region b)"
    using simulatesD(2) [OF sim] by (simp add: linked_def start_system_def)
  moreover have "slot_status (bus_region b) i w2 = Some SLOT_FREE" if "unat i < unat (r_num_slots (bus_region b))" for i
    using simulated_status [OF sim, of i] that by (simp add: slots_of_def start_system_def initial_def status_code_def)
  ultimately show ?thesis using sim by blast
qed

theorem startup_correct_witness:
  "\<exists>b w1 k w2. bus_create Linux ref_externals quiet_events demo_config ref_world = Some (Inr b, w1)
    \<and> worker_open Linux ref_externals quiet_events demo_config w1 = Some (Inr k, w2)
    \<and> same_layout (wk_region k) (bus_region b)"
proof -
  obtain \<sigma> where "started Linux ref_externals quiet_events demo_config ref_world \<sigma>" by (rule demo_system)
  then obtain b w1 k w2 where "slots_fit demo_config" "names_ok Linux demo_config"
    "bus_create Linux ref_externals quiet_events demo_config ref_world = Some (Inr b, w1)"
    "unat (r_len (bus_region b)) < 2 ^ 32" "worker_open Linux ref_externals quiet_events demo_config w1 = Some (Inr k, w2)"
    unfolding started_def by blast
  with startup_correct [OF ref_shmem_documented quiet_separate this] show ?thesis by blast
qed

end
