(* ===== verification/Operations.thy ===== *)
theory Operations
  imports System
begin

text \<open>
  The step relation against the code's operations: \<open>dispatch\<close>, a turn of the receive loop and a turn of the
  watcher, each run by one thread that nobody interrupts, are runs of \<open>sys_step\<close>.
\<close>

section \<open>Dispatch\<close>

lemma fill_is_run:
  assumes th: "sy_threads \<sigma> t = Some (Filling i c)"
    and fl: "dispatch_fill pl X i (cl_id c) (cl_method c) (cl_meta c) (cl_body c) (sy_bus \<sigma>, sy_world \<sigma>) = Some (res, b, w)"
  shows "case res of
      Inl e \<Rightarrow> \<exists>es. sys_run pl X E \<sigma> es (\<sigma>\<lparr>sy_bus := b, sy_world := w, sy_threads := (sy_threads \<sigma>)(t := None)\<rparr>)
    | Inr u \<Rightarrow> \<exists>o1 new o2. sys_run pl X E \<sigma> [dropped Req i o1, Publish i c, replaced new Req i o2]
        (\<sigma>\<lparr>sy_bus := b, sy_world := w, sy_threads := (sy_threads \<sigma>)(t \<mapsto> Registering c)\<rparr>)"
proof (cases "request_to_vec X (cl_meta c)")
  case (Inl pe)
  then have r: "res = Inl (Serialization pe)" "b = sy_bus \<sigma>" "w = sy_world \<sigma>" using fl by (simp_all add: dispatch_fill_def)
  have "sys_step pl X E \<sigma> (Stuck i) (\<sigma>\<lparr>sy_bus := b, sy_world := w, sy_threads := (sy_threads \<sigma>)(t := None)\<rparr>)"
    using sys_step.unserialisable [where pl = pl and E = E, OF th Inl] r by simp
  then show ?thesis using r sys_run_one by fastforce
next
  case (Inr mb)
  obtain b1 w1 where fg: "bus_forget X i (sy_bus \<sigma>, sy_world \<sigma>) = (b1, w1)" by fastforce
  then have b1: "bus_region b1 = bus_region (sy_bus \<sigma>)" "bus_config b1 = bus_config (sy_bus \<sigma>)" by (auto simp: bus_forget_def)
  let ?T = "\<lambda>b w a. \<sigma>\<lparr>sy_bus := b, sy_world := w, sy_threads := (sy_threads \<sigma>)(t := a)\<rparr>"
  note s1 = sys_run_one [OF sys_step.clear [where pl = pl and E = E, OF th Inr fg]]
  obtain wres w2 where wr: "write_request pl X (bus_region b1) i (cl_id c) (method_to_u8 (cl_method c)) mb (cl_body c)
      (bus_config b1) w1 = Some (wres, w2)"
    and out: "(case wres of Inl e \<Rightarrow> (Inl e, b1, w2) | Inr ovf \<Rightarrow> (Inr (), bus_keep X i ovf (b1, w2))) = (res, b, w)"
    using fl Inr fg by (auto simp: dispatch_fill_def Let_def split: bind_splits sum.splits)
  have th2: "sy_threads (?T b1 w1 (Some (Cleared i c))) t = Some (Cleared i c)" by simp
  show ?thesis
  proof (cases wres)
    case e: (Inl e)
    have "sys_step pl X E (?T b1 w1 (Some (Cleared i c))) (Abort i) (?T b1 w2 None)"
      using sys_step.abort [where pl = pl and E = E, OF th2 Inr] wr e by simp
    then show ?thesis using sys_more [OF s1] out e by fastforce
  next
    case o: (Inr new)
    have s2: "sys_step pl X E (?T b1 w1 (Some (Cleared i c))) (Publish i c) (?T b1 w2 (Some (Keeping i c new)))"
      using sys_step.publish [where pl = pl and E = E, OF th2 Inr] wr o by simp
    have "bus_keep X i new (b1, w2) = (b, w)" "res = Inr ()" using out o by simp_all
    moreover from this have "sys_step pl X E (?T b1 w2 (Some (Keeping i c new))) (replaced new Req i (bus_overflow b1 i))
        (?T b w (Some (Registering c)))"
      using sys_step.keep [where pl = pl and E = E and \<sigma> = "?T b1 w2 (Some (Keeping i c new))" and t = t] by simp
    ultimately show ?thesis using sys_more [OF sys_more [OF s1 s2]] by (auto intro!: exI)
  qed
qed

lemma dispatch_is_run:
  assumes sim: "simulates V pl X S \<sigma>" and idle: "sy_threads \<sigma> t = None" and c: "call_ok X c"
    and run: "bus_dispatch pl X E (cl_id c) (cl_method c) (cl_meta c) (cl_body c) (sy_bus \<sigma>, sy_world \<sigma>) = Some (res, b, w)"
  shows "\<exists>es. sys_run pl X E \<sigma> es (\<sigma>\<lparr>sy_bus := b, sy_world := w\<rparr>)
    \<and> (\<forall>ch. res = Inr ch \<longrightarrow> (\<exists>i o1 new o2. es = [Claim i, dropped Req i o1, Publish i c, replaced new Req i o2, Register (cl_id c) ch]))"
proof (cases "find (\<lambda>i. sp_phase S i = Free) (slot_indices (bus_region (sy_bus \<sigma>)))")
  case None
  then have "b = sy_bus \<sigma>" "w = sy_world \<sigma>" "\<exists>e. res = Inl e"
    using run dispatch_claims [OF sim] by (auto simp: bus_dispatch_def)
  then show ?thesis by (auto intro: sys_start exI [of _ "[]"])
next
  case (Some i)
  let ?r = "bus_region (sy_bus \<sigma>)" and ?T = "\<lambda>b w a. \<sigma>\<lparr>sy_bus := b, sy_world := w, sy_threads := (sy_threads \<sigma>)(t := a)\<rparr>"
  have fi: "unat i < slots_of \<sigma>" "sp_phase S i = Free"
    using Some by (auto simp: find_Some_iff slots_of_def slot_indices_set dest!: nth_mem)
  have ir: "unat i < unat (r_num_slots ?r)" using fi by (simp add: slots_of_def)
  let ?w1 = "put (r_ptr ?r) (slot_start i) (le32 SLOT_WRITING) (sy_world \<sigma>)"
  have "status_at ?r i (sy_world \<sigma>) = SLOT_FREE" using slot_matches_phase(1) [OF sim_slot [OF sim fi(1)]] fi by simp
  then have cas: "cas_status ?r i SLOT_FREE SLOT_WRITING (sy_world \<sigma>) = Some (Inr SLOT_FREE, ?w1)"
    using status_ops(3) [OF liveD(1) [OF simulatesD(1) [OF sim]] ir] by simp
  let ?\<sigma>1 = "\<sigma>\<lparr>sy_world := ?w1, sy_threads := (sy_threads \<sigma>)(t \<mapsto> Filling i c)\<rparr>"
  note s1 = sys_run_one [OF sys_step.claim [where pl = pl and E = E, OF idle fi(1) c cas]]
  obtain fres b2 w2 where fl: "dispatch_fill pl X i (cl_id c) (cl_method c) (cl_meta c) (cl_body c) (sy_bus ?\<sigma>1, sy_world ?\<sigma>1)
      = Some (fres, b2, w2)"
    and out: "(case fres of Inl e \<Rightarrow> (Inl e, b2, w2) | Inr u \<Rightarrow> dispatch_register E (cl_id c) (cl_method c) (cl_meta c) (b2, w2)) = (res, b, w)"
    using run dispatch_claims [OF sim] Some by (auto simp: bus_dispatch_def and_then_def split: bind_splits sum.splits)
  have "sy_threads ?\<sigma>1 t = Some (Filling i c)" by simp
  note f = fill_is_run [where E = E, OF this fl]
  have e: "?T b w None = \<sigma>\<lparr>sy_bus := b, sy_world := w\<rparr>" using idle by (simp add: fun_upd_idem)
  show ?thesis
  proof (cases fres)
    case (Inl x)
    then obtain es where "sys_run pl X E ?\<sigma>1 es (?T b w None)" using f out by auto
    from sys_run_trans [OF this s1] show ?thesis using e Inl out by auto
  next
    case (Inr u)
    then obtain o1 new o2 where s2: "sys_run pl X E ?\<sigma>1 [dropped Req i o1, Publish i c, replaced new Req i o2]
        (?T b2 w2 (Some (Registering c)))" using f by auto
    have th: "sy_threads (?T b2 w2 (Some (Registering c))) t = Some (Registering c)" by simp
    obtain ch where reg: "dispatch_register E (cl_id c) (cl_method c) (cl_meta c) (b2, w2) = (Inr ch, b, w)" "res = Inr ch"
      using out Inr by (auto simp: dispatch_register_def Let_def)
    have "sys_step pl X E (?T b2 w2 (Some (Registering c))) (Register (cl_id c) ch) (?T b w None)"
      using sys_step.register [where pl = pl and X = X and E = E, OF th] reg by simp
    from sys_more [OF sys_run_trans [OF s2 s1] this]
    have "sys_run pl X E \<sigma> [Claim i, dropped Req i o1, Publish i c, replaced new Req i o2, Register (cl_id c) ch]
        (\<sigma>\<lparr>sy_bus := b, sy_world := w\<rparr>)" unfolding e by simp
    then show ?thesis using reg(2) by blast
  qed
qed

section \<open>The worker's turn\<close>

lemma respond_is_run:
  assumes th: "sy_threads \<sigma> t = Some (Handling i rq)" and ok: "reply_ok X p"
    and sd: "send_response pl X E i (rp_status p) (rp_body p) (content_type (rp_meta p)) (resp_headers (rp_meta p))
      (sy_worker \<sigma>, sy_world \<sigma>) = Some (Inr u, k, w)"
  shows "\<exists>o1 new o2. sys_run pl X E \<sigma> [dropped Resp i o1, Reply i p, replaced new Resp i o2]
    (\<sigma>\<lparr>sy_worker := k, sy_world := w, sy_threads := (sy_threads \<sigma>)(t := None)\<rparr>)"
proof -
  let ?T = "\<lambda>k w a. \<sigma>\<lparr>sy_worker := k, sy_world := w, sy_threads := (sy_threads \<sigma>)(t := a)\<rparr>"
  have meta: "\<lparr>content_type = content_type (rp_meta p), resp_headers = resp_headers (rp_meta p)\<rparr> = rp_meta p" by simp
  obtain mb where vec: "response_to_vec X (rp_meta p) = Inr mb"
    using sd unfolding send_response_def meta by (cases "response_to_vec X (rp_meta p)") simp_all
  obtain k1 w1 where fg: "worker_forget X i (sy_worker \<sigma>, sy_world \<sigma>) = (k1, w1)" by fastforce
  note s1 = sys_run_one [OF sys_step.empty [where pl = pl and E = E, OF th ok vec fg]]
  obtain new w2 where wr: "write_response pl X (wk_region k1) i (rp_status p) mb (rp_body p) (wk_config k1) w1 = Some (Inr new, w2)"
    and out: "(case worker_keep X i new (k1, w2) of (k2, w3) \<Rightarrow> (k2, event_signal E (wk_rsp_event k2) w3)) = (k, w)"
    using sd vec fg unfolding send_response_def meta by (auto split: bind_splits sum.splits prod.splits)
  have th2: "sy_threads (?T k1 w1 (Some (Answering i p))) t = Some (Answering i p)" by simp
  have s2: "sys_step pl X E (?T k1 w1 (Some (Answering i p))) (Reply i p) (?T k1 w2 (Some (Replying i new)))"
    using sys_step.reply [where pl = pl and E = E, OF th2 vec] wr by simp
  obtain k2 w3 where kp: "worker_keep X i new (k1, w2) = (k2, w3)" by fastforce
  have th3: "sy_threads (?T k1 w2 (Some (Replying i new))) t = Some (Replying i new)" by simp
  have "sys_step pl X E (?T k1 w2 (Some (Replying i new))) (replaced new Resp i (wk_overflow k1 i)) (?T k w None)"
    using sys_step.store [where pl = pl and E = E and X = X, OF th3] kp out by auto
  from sys_more [OF sys_more [OF s1 s2] this] show ?thesis by (auto intro!: exI)
qed

text \<open>What a turn on one slot adds to a trace.\<close>

definition receive_events :: "(request \<Rightarrow> reply) \<Rightarrow> usize \<Rightarrow> event list \<Rightarrow> bool" where
  "receive_events g i es \<longleftrightarrow> es = [] \<or> es = [Take i, Unread i]
     \<or> (\<exists>rq o1 new o2. es = [Take i, Deliver i rq, dropped Resp i o1, Reply i (g rq), replaced new Resp i o2])"

lemma receive_slot_is_run:
  assumes idle: "sy_threads \<sigma> t = None" and i: "unat i < slots_of \<sigma>" and ok: "\<And>rq. reply_ok X (g rq)"
    and run: "receive_slot pl X (replying pl X E g) i (sy_worker \<sigma>, sy_world \<sigma>) = Some (k, w)"
  shows "\<exists>es. sys_run pl X E \<sigma> es (with_worker \<sigma> (k, w)) \<and> receive_events g i es"
proof -
  let ?q = "wk_region (sy_worker \<sigma>)"
  let ?T = "\<lambda>k w a. \<sigma>\<lparr>sy_worker := k, sy_world := w, sy_threads := (sy_threads \<sigma>)(t := a)\<rparr>"
  have e: "?T k w None = with_worker \<sigma> (k, w)" using idle by (simp add: fun_upd_idem with_worker_def)
  obtain cas w1 where cs: "cas_status ?q i SLOT_READY SLOT_CLAIMED (sy_world \<sigma>) = Some (cas, w1)"
    using run by (auto simp: receive_slot_def Let_def split: bind_splits)
  show ?thesis
  proof (cases cas)
    case (Inl old)
    then have "w1 = sy_world \<sigma>" using cs by (auto simp: cas_status_def compare_exchange_def split: bind_splits if_splits)
    then have "with_worker \<sigma> (k, w) = \<sigma>" using run cs Inl by (simp add: receive_slot_def with_worker_def)
    then show ?thesis using sys_start [of pl X E \<sigma>] by (auto simp: receive_events_def)
  next
    case (Inr old)
    note s1 = sys_run_one [OF sys_step.take [where pl = pl and E = E and X = X, OF idle i cs [unfolded Inr]]]
    let ?\<sigma>1 = "\<sigma>\<lparr>sy_world := w1, sy_threads := (sy_threads \<sigma>)(t \<mapsto> Reading i)\<rparr>"
    have th1: "sy_threads ?\<sigma>1 t = Some (Reading i)" by simp
    obtain rd w2 where rd: "read_request pl X ?q i (wk_config (sy_worker \<sigma>)) w1 = Some (rd, w2)"
      using run cs Inr by (auto simp: receive_slot_def Let_def split: bind_splits)
    show ?thesis
    proof (cases rd)
      case (Inl x)
      then obtain w3 where st: "store_status ?q i SLOT_FREE w2 = Some w3" "k = sy_worker \<sigma>" "w = w3"
        using run cs Inr rd by (auto simp: receive_slot_def Let_def split: bind_splits)
      have "sys_step pl X E ?\<sigma>1 (Unread i) (?T k w None)"
        using sys_step.unreadable [where pl = pl and E = E, OF th1] rd Inl st by simp
      from sys_more [OF s1 this] show ?thesis unfolding e receive_events_def by auto
    next
      case ok2: (Inr got)
      obtain req_id m meta body where got: "got = (req_id, m, meta, body)" by (cases got)
      let ?rq = "decode_request req_id m meta body"
      have s2: "sys_step pl X E ?\<sigma>1 (Deliver i ?rq) (?T (sy_worker \<sigma>) w2 (Some (Handling i ?rq)))"
        using sys_step.deliver [where pl = pl and E = E, OF th1] rd ok2 got by simp
      have "replying pl X E g i ?rq (sy_worker \<sigma>, w2) = Some (k, w)"
        using run cs Inr rd ok2 got by (simp add: receive_slot_def Let_def)
      then obtain u where sd: "send_response pl X E i (rp_status (g ?rq)) (rp_body (g ?rq)) (content_type (rp_meta (g ?rq)))
          (resp_headers (rp_meta (g ?rq))) (sy_worker \<sigma>, w2) = Some (Inr u, k, w)"
        by (auto simp: replying_def split: option.splits sum.splits prod.splits)
      have th2: "sy_threads (?T (sy_worker \<sigma>) w2 (Some (Handling i ?rq))) t = Some (Handling i ?rq)" by simp
      obtain o1 new o2 where s3: "sys_run pl X E (?T (sy_worker \<sigma>) w2 (Some (Handling i ?rq)))
          [dropped Resp i o1, Reply i (g ?rq), replaced new Resp i o2] (?T k w None)"
        using respond_is_run [where pl = pl and E = E and p = "g ?rq" and u = u and k = k and w = w, OF th2 ok] sd by auto
      have "sys_run pl X E \<sigma> [Take i, Deliver i ?rq, dropped Resp i o1, Reply i (g ?rq), replaced new Resp i o2] (with_worker \<sigma> (k, w))"
        using sys_run_trans [OF s3 sys_more [OF s1 s2]] unfolding e by simp
      then show ?thesis unfolding receive_events_def by blast
    qed
  qed
qed

section \<open>The watcher's turn\<close>

definition watch_events :: "usize \<Rightarrow> event list \<Rightarrow> bool" where
  "watch_events i es \<longleftrightarrow> es = [Idle] \<or> (\<exists>o1 calls. es = [Release i, dropped Req i o1, Resolve calls])"

lemma watch_send_calls: "\<exists>calls. bus_calls (watch_send req_id res b) = bus_calls b @ calls"
  by (auto simp: watch_send_def split: sum.splits option.splits)

lemma watch_slot_is_run:
  assumes scan: "sy_watcher \<sigma> = Scanning" and i: "unat i < slots_of \<sigma>"
    and run: "watch_slot pl X i (sy_bus \<sigma>, sy_world \<sigma>) = Some (b, w)"
  shows "\<exists>es. sys_run pl X E \<sigma> es (\<sigma>\<lparr>sy_bus := b, sy_world := w\<rparr>) \<and> watch_events i es"
proof -
  let ?T = "\<lambda>b w a. \<sigma>\<lparr>sy_bus := b, sy_world := w, sy_watcher := a\<rparr>"
  have e: "?T b w Scanning = \<sigma>\<lparr>sy_bus := b, sy_world := w\<rparr>" using scan by (cases \<sigma>) simp
  obtain got w1 where rel: "watch_release pl X i (sy_bus \<sigma>) (sy_world \<sigma>) = Some (got, w1)"
    using run by (auto simp: watch_slot_def split: bind_splits)
  show ?thesis
  proof (cases got)
    case None
    then have "b = sy_bus \<sigma>" "w = w1" using run rel by (simp_all add: watch_slot_def)
    then have "sys_step pl X E \<sigma> Idle (\<sigma>\<lparr>sy_bus := b, sy_world := w\<rparr>)"
      using sys_step.skip [where pl = pl and E = E, OF scan i] rel None by simp
    then show ?thesis using sys_run_one unfolding watch_events_def by blast
  next
    case (Some x)
    obtain req_id res where x: "got = Some (req_id, res)" using Some by (cases x) simp
    have s1: "sys_run pl X E \<sigma> [Release i] (?T (sy_bus \<sigma>) w1 (Released i req_id res))"
      using sys_run_one [OF sys_step.release [where pl = pl and E = E, OF scan i rel [unfolded x]]] by simp
    obtain b2 w2 where fg: "bus_forget X i (sy_bus \<sigma>, w1) = (b2, w2)" by fastforce
    then have out: "b = watch_send req_id res b2" "w = w2" using run rel x by (simp_all add: watch_slot_def watch_resolve_def)
    have at1: "sy_watcher (?T (sy_bus \<sigma>) w1 (Released i req_id res)) = Released i req_id res" by simp
    have s2: "sys_step pl X E (?T (sy_bus \<sigma>) w1 (Released i req_id res)) (dropped Req i (bus_overflow (sy_bus \<sigma>) i))
        (?T b2 w2 (Resolving req_id res))"
      using sys_step.forget [where pl = pl and E = E, OF at1] fg by simp
    obtain calls where cl: "bus_calls (watch_send req_id res b2) = bus_calls b2 @ calls" using watch_send_calls by blast
    have "sys_step pl X E (?T b2 w2 (Resolving req_id res)) (Resolve calls) (\<sigma>\<lparr>sy_world := w, sy_bus := b, sy_watcher := Scanning\<rparr>)"
      using sys_step.resolve [where pl = pl and X = X and E = E and \<sigma> = "?T b2 w2 (Resolving req_id res)"] cl out by simp
    moreover have "\<sigma>\<lparr>sy_world := w, sy_bus := b, sy_watcher := Scanning\<rparr> = \<sigma>\<lparr>sy_bus := b, sy_world := w\<rparr>"
      using scan by (cases \<sigma>) simp
    ultimately show ?thesis using sys_more [OF sys_more [OF s1 s2]] unfolding watch_events_def by fastforce
  qed
qed

section \<open>Turns\<close>

lemma receive_scan_is_run:
  assumes ok: "\<And>rq. reply_ok X (g rq)"
  shows "sy_threads \<sigma> t = None \<Longrightarrow> (\<And>i. i \<in> set is \<Longrightarrow> unat i < slots_of \<sigma>) \<Longrightarrow>
    receive_scan pl X (replying pl X E g) is (sy_worker \<sigma>, sy_world \<sigma>) = Some (k, w) \<Longrightarrow>
    \<exists>ess. sys_run pl X E \<sigma> (concat ess) (with_worker \<sigma> (k, w)) \<and> list_all2 (receive_events g) is ess"
proof (induction "is" arbitrary: \<sigma>)
  case Nil
  then have "with_worker \<sigma> (k, w) = \<sigma>" by (simp add: with_worker_def)
  then show ?case using sys_start [of pl X E \<sigma>] by (auto intro: exI [of _ "[]"])
next
  case (Cons i "is")
  obtain k1 w1 where one: "receive_slot pl X (replying pl X E g) i (sy_worker \<sigma>, sy_world \<sigma>) = Some (k1, w1)"
    and rest: "receive_scan pl X (replying pl X E g) is (k1, w1) = Some (k, w)"
    using Cons.prems(3) by (auto split: bind_splits)
  have "unat i < slots_of \<sigma>" using Cons.prems(2) by simp
  then obtain es where r1: "sys_run pl X E \<sigma> es (with_worker \<sigma> (k1, w1))" "receive_events g i es"
    using receive_slot_is_run [OF Cons.prems(1) _ ok one] by blast
  have "\<exists>ess. sys_run pl X E (with_worker \<sigma> (k1, w1)) (concat ess) (with_worker (with_worker \<sigma> (k1, w1)) (k, w))
      \<and> list_all2 (receive_events g) is ess"
    by (rule Cons.IH) (use Cons.prems(1,2) rest in simp_all)
  then obtain ess where "sys_run pl X E (with_worker \<sigma> (k1, w1)) (concat ess) (with_worker \<sigma> (k, w))"
    "list_all2 (receive_events g) is ess" by auto
  with r1 show ?case using sys_run_trans [of pl X E "with_worker \<sigma> (k1, w1)" "concat ess" _ \<sigma> es]
    by (intro exI [of _ "es # ess"]) simp
qed

lemma watch_scan_is_run:
  "sy_watcher \<sigma> = Scanning \<Longrightarrow> (\<And>i. i \<in> set is \<Longrightarrow> unat i < slots_of \<sigma>) \<Longrightarrow>
    watch_scan pl X is (sy_bus \<sigma>, sy_world \<sigma>) = Some (b, w) \<Longrightarrow>
    \<exists>ess. sys_run pl X E \<sigma> (concat ess) (\<sigma>\<lparr>sy_bus := b, sy_world := w\<rparr>) \<and> list_all2 watch_events is ess"
proof (induction "is" arbitrary: \<sigma>)
  case Nil
  then have "\<sigma>\<lparr>sy_bus := b, sy_world := w\<rparr> = \<sigma>" by simp
  then show ?case using sys_start [of pl X E \<sigma>] by (auto intro: exI [of _ "[]"])
next
  case (Cons i "is")
  obtain b1 w1 where one: "watch_slot pl X i (sy_bus \<sigma>, sy_world \<sigma>) = Some (b1, w1)"
    and rest: "watch_scan pl X is (b1, w1) = Some (b, w)"
    using Cons.prems(3) by (auto split: bind_splits)
  let ?\<sigma>1 = "\<sigma>\<lparr>sy_bus := b1, sy_world := w1\<rparr>"
  have "unat i < slots_of \<sigma>" using Cons.prems(2) by simp
  then obtain es where r1: "sys_run pl X E \<sigma> es ?\<sigma>1" "watch_events i es"
    using watch_slot_is_run [OF Cons.prems(1) _ one] by blast
  have "slots_of ?\<sigma>1 = slots_of \<sigma>" using watch_slot_keeps(1) [OF one] by (simp add: slots_of_def)
  then have "\<exists>ess. sys_run pl X E ?\<sigma>1 (concat ess) (?\<sigma>1\<lparr>sy_bus := b, sy_world := w\<rparr>) \<and> list_all2 watch_events is ess"
    by (intro Cons.IH) (use Cons.prems(1,2) rest in simp_all)
  then obtain ess where "sys_run pl X E ?\<sigma>1 (concat ess) (\<sigma>\<lparr>sy_bus := b, sy_world := w\<rparr>)" "list_all2 watch_events is ess"
    by auto
  with r1 show ?case using sys_run_trans [of pl X E ?\<sigma>1 "concat ess" _ \<sigma> es]
    by (intro exI [of _ "es # ess"]) simp
qed

lemma wait_is_run:
  "event_wait_timeout pl E ev ms (sy_world \<sigma>) = Some (woken, w) \<Longrightarrow> sys_run pl X E \<sigma> [Idle] (\<sigma>\<lparr>sy_world := w\<rparr>)"
  by (rule sys_run_one [OF sys_step.wait])

section \<open>Property\<close>

text \<open>
  C11: the steps of the system are the code's. \<open>dispatch\<close>, a turn of the receive loop (with a handler that answers
  every request) and a turn of the watcher, run without interruption, are runs of \<open>sys_step\<close> that reach the
  same state: an accepted call is the reservation of a slot, the removal of its stale overflow region, the
  publication, the insertion of the new region and the registration; a turn goes over the slots in order, and
  on each it takes and answers the request that waits there, or releases a reply, removes the region and
  calls the channel, or does nothing.
\<close>

theorem operations_are_runs:
  assumes "simulates V pl X S \<sigma>" and "sy_threads \<sigma> t = None" and "call_ok X c" and "\<And>rq. reply_ok X (g rq)"
    and "sy_watcher \<sigma> = Scanning"
  shows "(\<forall>res b w. bus_dispatch pl X E (cl_id c) (cl_method c) (cl_meta c) (cl_body c) (sy_bus \<sigma>, sy_world \<sigma>) = Some (res, b, w) \<longrightarrow>
        (\<exists>es. sys_run pl X E \<sigma> es (\<sigma>\<lparr>sy_bus := b, sy_world := w\<rparr>)
          \<and> (\<forall>ch. res = Inr ch \<longrightarrow>
               (\<exists>i o1 new o2. es = [Claim i, dropped Req i o1, Publish i c, replaced new Req i o2, Register (cl_id c) ch]))))
    \<and> (\<forall>k w. receive_turn pl X E (replying pl X E g) (sy_worker \<sigma>, sy_world \<sigma>) = Some (k, w) \<longrightarrow>
        (\<exists>ess. sys_run pl X E \<sigma> (Idle # concat ess) (\<sigma>\<lparr>sy_worker := k, sy_world := w\<rparr>)
          \<and> list_all2 (receive_events g) (slot_indices (bus_region (sy_bus \<sigma>))) ess))
    \<and> (\<forall>b w. watch_turn pl X E (sy_bus \<sigma>, sy_world \<sigma>) = Some (b, w) \<longrightarrow>
        (\<exists>ess. sys_run pl X E \<sigma> (Idle # concat ess) (\<sigma>\<lparr>sy_bus := b, sy_world := w\<rparr>)
          \<and> list_all2 watch_events (slot_indices (bus_region (sy_bus \<sigma>))) ess))"
proof (intro conjI allI impI)
  fix res b w
  assume "bus_dispatch pl X E (cl_id c) (cl_method c) (cl_meta c) (cl_body c) (sy_bus \<sigma>, sy_world \<sigma>) = Some (res, b, w)"
  from dispatch_is_run [OF assms(1-3) this]
  show "\<exists>es. sys_run pl X E \<sigma> es (\<sigma>\<lparr>sy_bus := b, sy_world := w\<rparr>)
          \<and> (\<forall>ch. res = Inr ch \<longrightarrow>
               (\<exists>i o1 new o2. es = [Claim i, dropped Req i o1, Publish i c, replaced new Req i o2, Register (cl_id c) ch]))" .
next
  fix k w
  assume "receive_turn pl X E (replying pl X E g) (sy_worker \<sigma>, sy_world \<sigma>) = Some (k, w)"
  then obtain x w1 where wt: "event_wait_timeout pl E (wk_req_event (sy_worker \<sigma>)) (cfg_wait_timeout_ms (wk_config (sy_worker \<sigma>)))
      (sy_world \<sigma>) = Some (x, w1)"
    and scan: "receive_scan pl X (replying pl X E g) (slot_indices (wk_region (sy_worker \<sigma>))) (sy_worker \<sigma>, w1) = Some (k, w)"
    by (auto simp: receive_turn_def split: bind_splits)
  have L: "r_num_slots (wk_region (sy_worker \<sigma>)) = r_num_slots (bus_region (sy_bus \<sigma>))"
    using linked_live(3) [OF simulatesD(2,1) [OF assms(1)]] .
  then have idx: "slot_indices (wk_region (sy_worker \<sigma>)) = slot_indices (bus_region (sy_bus \<sigma>))" by (simp add: slot_indices_def)
  let ?\<sigma>1 = "\<sigma>\<lparr>sy_world := w1\<rparr>"
  have "\<exists>ess. sys_run pl X E ?\<sigma>1 (concat ess) (with_worker ?\<sigma>1 (k, w))
      \<and> list_all2 (receive_events g) (slot_indices (bus_region (sy_bus \<sigma>))) ess"
    by (rule receive_scan_is_run [OF assms(4)])
      (use assms(2) scan idx in \<open>simp_all add: slot_indices_set slots_of_def\<close>)
  then show "\<exists>ess. sys_run pl X E \<sigma> (Idle # concat ess) (\<sigma>\<lparr>sy_worker := k, sy_world := w\<rparr>)
      \<and> list_all2 (receive_events g) (slot_indices (bus_region (sy_bus \<sigma>))) ess"
    using sys_run_trans [OF _ wait_is_run [where X = X, OF wt]] by (fastforce simp: with_worker_def)
next
  fix b w
  assume "watch_turn pl X E (sy_bus \<sigma>, sy_world \<sigma>) = Some (b, w)"
  then obtain x w1 where wt: "event_wait_timeout pl E (bus_rsp_event (sy_bus \<sigma>)) (cfg_wait_timeout_ms (bus_config (sy_bus \<sigma>)))
      (sy_world \<sigma>) = Some (x, w1)"
    and scan: "watch_scan pl X (slot_indices (bus_region (sy_bus \<sigma>))) (sy_bus \<sigma>, w1) = Some (b, w)"
    by (auto simp: watch_turn_def split: bind_splits)
  let ?\<sigma>1 = "\<sigma>\<lparr>sy_world := w1\<rparr>"
  have "\<exists>ess. sys_run pl X E ?\<sigma>1 (concat ess) (?\<sigma>1\<lparr>sy_bus := b, sy_world := w\<rparr>)
      \<and> list_all2 watch_events (slot_indices (bus_region (sy_bus \<sigma>))) ess"
    by (rule watch_scan_is_run) (use assms(5) scan in \<open>simp_all add: slot_indices_set slots_of_def\<close>)
  then show "\<exists>ess. sys_run pl X E \<sigma> (Idle # concat ess) (\<sigma>\<lparr>sy_bus := b, sy_world := w\<rparr>)
      \<and> list_all2 watch_events (slot_indices (bus_region (sy_bus \<sigma>))) ess"
    using sys_run_trans [OF _ wait_is_run [where X = X, OF wt]] by fastforce
qed

theorem operations_are_runs_witness:
  "\<exists>(\<sigma> :: ref_os system) b w ch i o1 new o2.
      bus_dispatch Linux ref_externals quiet_events ''a'' ''POST'' demo_request [1, 2, 3] (sy_bus \<sigma>, sy_world \<sigma>) = Some (Inr ch, b, w)
    \<and> sys_run Linux ref_externals quiet_events \<sigma> [Claim i, dropped Req i o1, Publish i demo_call, replaced new Req i o2, Register ''a'' ch]
        (\<sigma>\<lparr>sy_bus := b, sy_world := w\<rparr>)"
proof -
  obtain \<sigma> where S: "simulates ref_view Linux ref_externals initial \<sigma>" "sy_threads \<sigma> = (\<lambda>_. None)"
    "payload_fits (bus_region (sy_bus \<sigma>)) Req 0 (as_bytes ''/x'') [1, 2, 3]" "slot_indices (bus_region (sy_bus \<sigma>)) = [0]"
    by (rule demo_system)
  have idle: "sy_threads \<sigma> 0 = None" using S(2) by simp
  have f: "cl_id demo_call = ''a''" "cl_method demo_call = ''POST''" "cl_meta demo_call = demo_request" "cl_body demo_call = [1, 2, 3]"
    by (simp_all add: demo_call_def)
  obtain ch b w where d: "bus_dispatch Linux ref_externals quiet_events ''a'' ''POST'' demo_request [1, 2, 3] (sy_bus \<sigma>, sy_world \<sigma>)
      = Some (Inr ch, b, w)"
    using dispatch_simulated [OF ref_shmem_documented quiet_separate S(1) idle demo_call_ok] S(3,4) f
    by (auto simp: initial_def)
  have watcher: "sy_watcher \<sigma> = Scanning" using simulatesD(7) [OF S(1)] by (cases "sy_watcher \<sigma>") (auto simp: initial_def)
  have ok: "reply_ok ref_externals (demo_answer (request_of demo_call))" by (rule demo_answer_ok(2))
  from operations_are_runs [OF S(1) idle demo_call_ok(1) ok watcher, of quiet_events] d f show ?thesis by fastforce
qed

end
