(* ===== verification/Races.thy ===== *)
theory Races
  imports System
begin

text \<open>
  Why the plain accesses to the mapping need no lock. \<open>ShmRegion\<close> is declared \<open>Sync\<close> because ``all mutable access
  uses atomic operations or the protocol-level guarantee that only one side writes to a given offset at a
  time'': here that guarantee is stated on the bytes. It also justifies the grain of \<open>sys_step\<close>, in which a
  thread reads or writes all fields of a slot in one step: no other step touches them in between.
\<close>

section \<open>Accesses\<close>

text \<open>The bytes of the control region a thread reads or writes before it gives up its slot.\<close>

fun footprint :: "shm_region \<Rightarrow> activity \<Rightarrow> nat set" where
  "footprint r (Filling i c) = request_area r i \<union> status_area i"
| "footprint r (Cleared i c) = request_area r i \<union> status_area i"
| "footprint r (Keeping i c ovf) = {}"
| "footprint r (Registering c) = {}"
| "footprint r (Reading i) = request_area r i \<union> status_area i"
| "footprint r (Handling i rq) = response_area r i \<union> status_area i"
| "footprint r (Answering i p) = response_area r i \<union> status_area i"
| "footprint r (Replying i ovf) = {}"

text \<open>The bytes a step writes, and the segment it gives up.\<close>

fun event_area :: "shm_region \<Rightarrow> event \<Rightarrow> nat set" where
  "event_area r (Claim i) = status_area i"
| "event_area r (Publish i c) = request_area r i \<union> status_area i"
| "event_area r (Abort i) = request_area r i \<union> status_area i"
| "event_area r (Take i) = status_area i"
| "event_area r (Unread i) = status_area i"
| "event_area r (Reply i p) = response_area r i \<union> status_area i"
| "event_area r (Refuse i) = response_area r i \<union> status_area i"
| "event_area r (Release i) = status_area i"
| "event_area r (Stuck i) = {}"
| "event_area r (Register req_id ch) = {}"
| "event_area r (Deliver i rq) = {}"
| "event_area r (Resolve calls) = {}"
| "event_area r (Drop s i) = {}"
| "event_area r Idle = {}"

fun dropped_segment :: "regions \<Rightarrow> event \<Rightarrow> nat set" where
  "dropped_segment H (Drop s i) = seg_of (H s i None)"
| "dropped_segment H e = {}"

lemma dropped_events [simp]:
  "event_area r (dropped s i ovf) = {}" "event_area r (replaced new s i ovf) = {}"
  "phase_change (dropped s i ovf) = None" "phase_change (replaced new s i ovf) = None"
  by (simp_all add: dropped_def replaced_def)

lemma dropped_segments [simp]:
  "dropped_segment (owned b k th) (dropped Req i (bus_overflow b i)) = seg_of (bus_overflow b i)"
  "dropped_segment (owned b k th) (dropped Resp i (wk_overflow k i)) = seg_of (wk_overflow k i)"
  "dropped_segment (owned b k th) (replaced new Req i (bus_overflow b i)) = (if new = None then {} else seg_of (bus_overflow b i))"
  "dropped_segment (owned b k th) (replaced new Resp i (wk_overflow k i)) = (if new = None then {} else seg_of (wk_overflow k i))"
  by (auto simp: dropped_def replaced_def)

lemma footprint_slot:
  "slot_of a = Some i \<Longrightarrow> footprint r a \<subseteq> slot_area r i" "slot_of a = None \<Longrightarrow> footprint r a = {}"
  by (cases a; auto simp: slot_area_def)+

lemma event_slot:
  "phase_change e = Some i \<Longrightarrow> event_area r e \<subseteq> slot_area r i" "phase_change e = None \<Longrightarrow> event_area r e = {}"
  by (cases e; auto simp: slot_area_def)+

section \<open>What a step writes\<close>

text \<open>The worker's view of a slot covers the same bytes.\<close>

lemma step_effect:
  assumes doc: "shmem_documented X V" "postcard_documented X" "events_separate E V"
    and sim: "simulates V pl X S \<sigma>" and step: "sys_step pl X E \<sigma> e \<sigma>'"
  shows "affects V (r_ptr (bus_region (sy_bus \<sigma>))) (event_area (bus_region (sy_bus \<sigma>)) e)
    (dropped_segment (regions_of \<sigma>) e) (sy_world \<sigma>) (sy_world \<sigma>')"
proof -
  let ?r = "bus_region (sy_bus \<sigma>)" and ?w = "sy_world \<sigma>"
  note sD = simulatesD [OF sim] note L = linked_live [OF sD(2,1)]
  have held: "0 < handles V ?w (r_ptr ?r)" by (rule liveD(3) [OF sD(1)])
  note signal = signal_affects [OF doc(3)]
  show ?thesis
    using step
  proof cases
    case (claim t i c old w)
    have ir: "unat i < unat (r_num_slots ?r)" using claim by (simp add: slots_of_def)
    have "w = put (r_ptr ?r) (slot_start i) (le32 SLOT_WRITING) ?w" by (rule cas_taken(2) [OF sD(1) ir claim(6)])
    then show ?thesis using claim(1,2) touches_affects [OF set_status_touches(1) [OF doc(1) sD(1) ir]] by simp
  next
    case (clear t i c mb b w)
    then show ?thesis using forget_affects [OF doc(1) sim, of Req i None] by (simp add: bus_forget_def)
  next
    case (publish t i c mb ovf w)
    then show ?thesis using write_simulated [OF doc(1) sim publish(3,4)] by auto
  next
    case (abort t i c mb x w)
    then show ?thesis using write_simulated [OF doc(1) sim abort(3,4)] by auto
  next
    case (keep t i c ovf b w)
    then show ?thesis using forget_affects [OF doc(1) sim, of Req i None] held by (auto simp: bus_keep_def split: option.splits)
  next
    case (register t c ch b w)
    then show ?thesis using signal [OF held] by (auto simp: dispatch_register_def Let_def)
  next
    case (take t i old w)
    have ir: "unat i < unat (r_num_slots ?r)" "unat i < unat (r_num_slots (wk_region (sy_worker \<sigma>)))"
      using take L by (simp_all add: slots_of_def)
    have "w = put (r_ptr ?r) (slot_start i) (le32 SLOT_CLAIMED) ?w" using cas_taken(2) [OF L(1) ir(2) take(5)] L(2) by simp
    then show ?thesis using take(1,2) touches_affects [OF set_status_touches(1) [OF doc(1) sD(1) ir(1)]] by simp
  next
    case (deliver t i req_id m meta body w)
    obtain c res w' where "read_request pl X (wk_region (sy_worker \<sigma>)) i (wk_config (sy_worker \<sigma>)) ?w = Some (res, w')"
      "affects V (r_ptr ?r) {} {} ?w w'"
      by (rule claimed_read [OF doc(1,2) sim deliver(3)])
    then show ?thesis using deliver by simp
  next
    case (unreadable t i x w1 w)
    then show ?thesis using unread_simulated [OF doc(1,2) sim unreadable(3,4,5)] by auto
  next
    case (empty t i rq p mb k w)
    then show ?thesis using forget_affects [OF doc(1) sim, of Resp i None] by (simp add: worker_forget_def)
  next
    case (reply t i p mb ovf w)
    have "unat i < slots_of \<sigma>" "reply_ok X p" using thread_facts(1) [OF sim reply(3)] by (simp_all add: activity_ok_def)
    from response_written [OF doc(1) sim this reply(4)] reply show ?thesis by (auto intro: touches_affects)
  next
    case (refuse t i p mb x w1 w)
    have "unat i < slots_of \<sigma>" "reply_ok X p" using thread_facts(1) [OF sim refuse(3)] by (simp_all add: activity_ok_def)
    from response_written [OF doc(1) sim this refuse(4)] refuse show ?thesis by (auto intro: touches_affects)
  next
    case (store t i ovf k w)
    have af: "affects V (r_ptr ?r) {} (dropped_segment (regions_of \<sigma>) e) ?w w"
      using store forget_affects [OF doc(1) sim, of Resp i None] held by (auto simp: worker_keep_def split: option.splits)
    then have "0 < handles V w (r_ptr ?r)" by (simp add: affects_def)
    from affects_trans [OF af signal [OF this]] show ?thesis using store(1,2) by simp
  next
    case (release i req_id res w)
    then show ?thesis using release_result [OF doc(1,2) sim release(4)] by auto
  next
    case (skip i w)
    then show ?thesis using release_result [OF doc(1,2) sim skip(4)] held by auto
  next
    case (forget i req_id res b w)
    then show ?thesis using forget_affects [OF doc(1) sim, of Req i None] by (simp add: bus_forget_def)
  next
    case (wait ev ms woken w)
    then show ?thesis using same_affects [OF wait_same [OF doc(3) wait(3)] held] by simp
  qed (use held in simp_all)
qed

lemma step_slot:
  assumes sim: "simulates V pl X S \<sigma>" and step: "sys_step pl X E \<sigma> e \<sigma>'" and e: "phase_change e = Some i"
  shows "unat i < slots_of \<sigma>"
proof -
  have owned: "unat j < slots_of \<sigma>" if "sy_threads \<sigma> t = Some a" "slot_of a = Some j" for t a j
    using thread_facts(1) [OF sim that(1)] that(2) by (cases a) (auto simp: activity_ok_def)
  show ?thesis using step e owned by (cases rule: sys_step.cases) fastforce+
qed

text \<open>A step that changes the status of a slot leaves nobody else on it.\<close>

lemma step_bystander:
  assumes sim: "simulates V pl X S \<sigma>" and doc: "shmem_documented X V" "postcard_documented X"
    and step: "sys_step pl X E \<sigma> e \<sigma>'" and e: "phase_change e = Some i"
    and stays: "sy_threads \<sigma> u = Some a" "sy_threads \<sigma>' u = Some a"
  shows "slot_of a \<noteq> Some i"
proof -
  note free = unowned_phase(1) [OF simulatesD(6) [OF sim]]
  have other: "slot_of a \<noteq> Some i" if "sy_threads \<sigma> t = Some x" "slot_of x = Some i" "sy_threads \<sigma>' t \<noteq> Some x" for t x
    using thread_facts(2) [OF sim that(1,2)] stays that unfolding nobody_else_def by (cases "u = t") auto
  show ?thesis
    using step
  proof cases
    case (claim t j c old w)
    then show ?thesis using claim_simulated(1) [OF doc(1) sim claim(3,4,5,6)] e free [OF _ _ stays(1)] by simp
  next
    case (take t j old w)
    obtain c where "sp_phase S j = Ready c" using take_simulated [OF doc(1) sim take(3,4,5)] by blast
    then show ?thesis using take(1) e free [OF _ _ stays(1), of j] by auto
  next
    case (release j req_id res w)
    obtain c p where "sp_phase S j = Done c p" using release_simulated [OF doc sim release(4,3,5)] by blast
    then show ?thesis using release(1) e free [OF _ _ stays(1), of j] by auto
  next
    case (publish t j c mb ovf w)
    then show ?thesis using other [OF publish(3)] e by simp
  next
    case (abort t j c mb x w)
    then show ?thesis using other [OF abort(3)] e by simp
  next
    case (unreadable t j x w1 w)
    then show ?thesis using other [OF unreadable(3)] e by simp
  next
    case (reply t j p mb ovf w)
    then show ?thesis using other [OF reply(3)] e by simp
  next
    case (refuse t j p mb x w1 w)
    then show ?thesis using other [OF refuse(3)] e by simp
  qed (use e in simp_all)
qed

section \<open>Property\<close>

text \<open>
  C9: accesses to the mapping do not race. In every reachable state the bytes that two threads work on are
  disjoint, and no thread works on a slot whose reply waits for the watcher; a step changes nothing of the
  control region but the bytes of its own slot that \<open>event_area\<close> gives (the status word, and for a
  publication or a reply the area of that direction), which no other thread is working on; and of the
  overflow regions it changes and gives up none but the one it removes from a map.
\<close>

theorem accesses_race_free:
  assumes "shmem_documented X V" and "postcard_documented X" and "events_separate E V"
    and "started pl X E c w \<sigma>" and "sys_run pl X E \<sigma> es \<sigma>'" and "sys_step pl X E \<sigma>' e \<sigma>''"
  shows "(\<forall>t u a b. t \<noteq> u \<and> sy_threads \<sigma>' t = Some a \<and> sy_threads \<sigma>' u = Some b \<longrightarrow>
        footprint (bus_region (sy_bus \<sigma>')) a \<inter> footprint (bus_region (sy_bus \<sigma>')) b = {})
    \<and> (\<forall>t a j. sy_threads \<sigma>' t = Some a \<and> unat j < slots_of \<sigma>'
          \<and> slot_status (bus_region (sy_bus \<sigma>')) j (sy_world \<sigma>') = Some SLOT_DONE \<longrightarrow>
        footprint (bus_region (sy_bus \<sigma>')) a \<inter> slot_area (bus_region (sy_bus \<sigma>')) j = {})
    \<and> unchanged_except (event_area (bus_region (sy_bus \<sigma>')) e)
        (mem (sy_world \<sigma>') (r_ptr (bus_region (sy_bus \<sigma>')))) (mem (sy_world \<sigma>'') (r_ptr (bus_region (sy_bus \<sigma>'))))
    \<and> (\<forall>t a. sy_threads \<sigma>' t = Some a \<and> sy_threads \<sigma>'' t = Some a \<longrightarrow>
        event_area (bus_region (sy_bus \<sigma>')) e \<inter> footprint (bus_region (sy_bus \<sigma>')) a = {})
    \<and> kept V (- insert (r_ptr (bus_region (sy_bus \<sigma>'))) (dropped_segment (regions_of \<sigma>') e)) (sy_world \<sigma>') (sy_world \<sigma>'')"
proof -
  let ?r = "bus_region (sy_bus \<sigma>')"
  obtain S where sim: "simulates V pl X S \<sigma>'" using started_run [OF assms(1-5)] by blast
  note sD = simulatesD [OF sim] note cr = liveD(1) [OF sD(1)]
  have n: "slots_of \<sigma>' = unat (r_num_slots ?r)" by (simp add: slots_of_def)
  have inside: "\<exists>i. slot_of a = Some i \<and> unat i < slots_of \<sigma>' \<and> footprint ?r a \<subseteq> slot_area ?r i \<and> sp_phase S i \<noteq> Free
      \<and> (\<forall>c p. sp_phase S i \<noteq> Done c p)"
    if "sy_threads \<sigma>' t = Some a" "footprint ?r a \<noteq> {}" for t a
    using thread_facts(1) [OF sim that(1)] that(2) by (cases a) (auto simp: activity_ok_def slot_area_def)
  have apart: "footprint ?r a \<inter> B = {}"
    if "sy_threads \<sigma>' t = Some a" "B \<subseteq> slot_area ?r j" "unat j < slots_of \<sigma>'" "slot_of a \<noteq> Some j" for t a B j
  proof (cases "footprint ?r a = {}")
    case False
    from inside [OF that(1) this] obtain i where "slot_of a = Some i" "unat i < slots_of \<sigma>'" "footprint ?r a \<subseteq> slot_area ?r i"
      by blast
    then show ?thesis using slot_areas_disjoint [OF cr, of i j] that(2-4) unfolding n by blast
  qed simp
  have "footprint ?r a \<inter> footprint ?r b = {}"
    if "t \<noteq> u" "sy_threads \<sigma>' t = Some a" "sy_threads \<sigma>' u = Some b" for t u a b
  proof (cases "footprint ?r b = {}")
    case False
    from inside [OF that(3) this] obtain j where j: "slot_of b = Some j" "unat j < slots_of \<sigma>'" "footprint ?r b \<subseteq> slot_area ?r j"
      by blast
    have "slot_of a \<noteq> Some j" using thread_facts(2) [OF sim that(3) j(1)] that(1,2) unfolding nobody_else_def by blast
    then show ?thesis by (rule apart [OF that(2) j(3,2)])
  qed simp
  moreover have "footprint ?r a \<inter> slot_area ?r j = {}"
    if a: "sy_threads \<sigma>' t = Some a" and j: "unat j < slots_of \<sigma>'" and st: "slot_status ?r j (sy_world \<sigma>') = Some SLOT_DONE" for t a j
  proof -
    have "\<exists>c p. sp_phase S j = Done c p"
      using simulated_status [OF sim j] st by (cases "sp_phase S j") (simp_all add: status_code_def protocol_consts)
    then have "slot_of a \<noteq> Some j" using unowned_phase(1) [OF sD(6) _ _ a, of j] by auto
    then show ?thesis by (rule apart [OF a subset_refl j])
  qed
  moreover have "event_area ?r e \<inter> footprint ?r a = {}" if a: "sy_threads \<sigma>' t = Some a" "sy_threads \<sigma>'' t = Some a" for t a
  proof (cases "phase_change e")
    case None
    then show ?thesis by (simp add: event_slot(2))
  next
    case (Some i)
    have "unat i < slots_of \<sigma>'" by (rule step_slot [OF sim assms(6) Some])
    from apart [OF a(1) event_slot(1) [OF Some] this step_bystander [OF sim assms(1,2,6) Some a]] show ?thesis by blast
  qed
  moreover note step_effect [OF assms(1-3) sim assms(6)]
  ultimately show ?thesis unfolding affects_def by blast
qed

theorem accesses_race_free_witness:
  "\<exists>\<sigma> \<tau>. sys_step Linux ref_externals quiet_events \<sigma> (Publish 0 demo_call) (\<tau> :: ref_os system)
    \<and> unchanged_except (request_area (bus_region (sy_bus \<sigma>)) 0 \<union> status_area 0)
        (mem (sy_world \<sigma>) (r_ptr (bus_region (sy_bus \<sigma>)))) (mem (sy_world \<tau>) (r_ptr (bus_region (sy_bus \<sigma>))))"
proof -
  obtain \<sigma>0 o1 ch \<tau> where st: "started Linux ref_externals quiet_events demo_config ref_world \<sigma>0"
    and run: "sys_run Linux ref_externals quiet_events \<sigma>0 ([Claim 0, dropped Req 0 o1] @ [Publish 0 demo_call]) \<tau>"
    by (rule demo_prefix [where pre = "\<lambda>o1 ch. [Claim 0, dropped Req 0 o1] @ [Publish 0 demo_call]"])
      (simp_all add: demo_events_def call_events_def)
  from run obtain \<sigma> where run': "sys_run Linux ref_externals quiet_events \<sigma>0 [Claim 0, dropped Req 0 o1] \<sigma>"
    and step: "sys_step Linux ref_externals quiet_events \<sigma> (Publish 0 demo_call) \<tau>"
    by (rule sys_run_snocE)
  from accesses_race_free [OF ref_shmem_documented ref_postcard_documented quiet_separate st run' step] step
  show ?thesis by auto
qed

end
