(* ===== verification/Typing.thy ===== *)
theory Typing
  imports Races
begin

text \<open>
  The shared region stays well formed while it is used: its header keeps describing the layout, every status word
  is one of the five states, and a step moves at most one of them along an edge of the slot's state machine.
\<close>

section \<open>The header\<close>

lemma areas_above_header:
  assumes "control_region r w" and "unat i < unat (r_num_slots r)"
  shows "slot_area r i \<inter> {..< 64} = {}"
  using control_regionD(2) [OF assms(1)]
  by (auto simp: slot_area_def status_area_def request_area_def response_area_def payload_area_def slot_start_def fields_at_def
      arena_start_def split: side.splits)

lemma step_header:
  assumes doc: "shmem_documented X V" "postcard_documented X" "events_separate E V"
    and sim: "simulates V pl X S \<sigma>" and step: "sys_step pl X E \<sigma> e \<sigma>'"
  shows "unchanged_except {64 ..} (mem (sy_world \<sigma>) (r_ptr (bus_region (sy_bus \<sigma>))))
    (mem (sy_world \<sigma>') (r_ptr (bus_region (sy_bus \<sigma>))))"
proof -
  have "event_area (bus_region (sy_bus \<sigma>)) e \<subseteq> {64 ..}"
  proof (cases "phase_change e")
    case (Some i)
    have "unat i < unat (r_num_slots (bus_region (sy_bus \<sigma>)))" using step_slot [OF sim step Some] by (simp add: slots_of_def)
    from areas_above_header [OF liveD(1) [OF simulatesD(1) [OF sim]] this] event_slot(1) [OF Some] show ?thesis
      by (fastforce simp: not_less)
  qed (simp add: event_slot(2))
  then show ?thesis using step_effect [OF doc sim step] unfolding affects_def by (blast intro: unchanged_mono)
qed

lemma run_header:
  assumes "sys_run pl X E \<sigma> es \<sigma>'" and doc: "shmem_documented X V" "postcard_documented X" "events_separate E V"
    and "simulates V pl X S \<sigma>"
  shows "unchanged_except {64 ..} (mem (sy_world \<sigma>) (r_ptr (bus_region (sy_bus \<sigma>))))
    (mem (sy_world \<sigma>') (r_ptr (bus_region (sy_bus \<sigma>)))) \<and> bus_region (sy_bus \<sigma>') = bus_region (sy_bus \<sigma>)"
  using assms(1,5)
proof (induction rule: sys_run.induct)
  case (sys_more \<sigma> es \<tau> e \<upsilon>)
  obtain T where T: "simulates V pl X T \<tau>" using run_simulated [OF sys_more.hyps(1) doc sys_more.prems] by blast
  from step_header [OF doc T sys_more.hyps(2)] sys_more.IH [OF sys_more.prems] step_region [OF sys_more.hyps(2)]
  show ?case by (auto intro: unchanged_trans)
qed simp

lemma validate_header:
  assumes "unchanged_except {64 ..} (mem w (r_ptr r)) (mem w' (r_ptr r))" and "64 \<le> length (mem w (r_ptr r))"
  shows "validate_control r w' = validate_control r w"
proof -
  have "read_u32 (r_ptr r) k w' = read_u32 (r_ptr r) k w" if "k + 4 \<le> 64" for k
  proof -
    have "{k ..< k + 4} \<inter> {64 ..} = {}" using that by auto
    with unchanged_slice [OF assms(1)] show ?thesis
      using unchanged_length [OF assms(1)] by (simp add: read_u32_def mem_read_def slice_def)
  qed
  then show ?thesis by (simp add: validate_control_def)
qed

lemma started_validates:
  assumes doc: "shmem_documented X V" "events_separate E V" and st: "started pl X E c w \<sigma>"
    and p: "r_ptr p = r_ptr (bus_region (sy_bus \<sigma>))" "r_len p = r_len (bus_region (sy_bus \<sigma>))"
  shows "\<exists>p'. validate_control p (sy_world \<sigma>) = Some (Inr (), p') \<and> same_layout p' (bus_region (sy_bus \<sigma>))"
proof -
  from st obtain b w1 k w2 where fit: "slots_fit c" and hub: "bus_create pl X E c w = Some (Inr b, w1)"
    and small: "unat (r_len (bus_region b)) < 2 ^ 32" and wk: "worker_open pl X E c w1 = Some (Inr k, w2)" and \<sigma>: "\<sigma> = start_system b k w2"
    unfolding started_def by blast
  from hub obtain rname r0 wa wb q wc s where rn: "region_name pl c = Some rname"
    and co: "create_or_open pl X rname (cfg_region_size c) w = (Inr r0, wa)"
    and init: "init_control c r0 wa = Some (Inr (), bus_region b, wb)"
    and ev: "event_create pl E q wb = (Inr (bus_req_event b), wc)" "event_create pl E s wc = (Inr (bus_rsp_event b), w1)"
    by (rule bus_create_Inr)
  from wk obtain rname' p0 wd q' we s' where op': "region_open X rname' w1 = (Inr p0, wd)"
    and ev': "event_open pl E q' wd = (Inr (wk_req_event k), we)" "event_open pl E s' we = (Inr (wk_rsp_event k), w2)"
    by (rule worker_open_Inr)
  note op = create_or_open_opened [OF doc(1) co] note I = init_opened [OF doc(1) op fit init]
  have mem2: "mem w2 = mem wb"
    using event_create_same [OF doc(2) ev(1)] event_create_same [OF doc(2) ev(2)] open_opened(4) [OF doc(1) op']
      event_open_same [OF doc(2) ev'(1)] event_open_same [OF doc(2) ev'(2)] by (simp add: same_memory_def)
  have p0: "r_ptr p = r_ptr r0" "r_len p = r_len r0" using p I \<sigma> by (simp_all add: start_system_def)
  have len: "unat (r_len r0) < 2 ^ 32" "length (mem wa (r_ptr r0)) = unat (r_len r0)"
    using small I op by (simp_all add: opened_def)
  obtain p' where p': "validate_control p wb = Some (Inr (), p')" "r_num_slots p' = r_num_slots (bus_region b)"
    "r_heap_offset p' = r_heap_offset (bus_region b)" "r_heap_size p' = r_heap_size (bus_region b)"
    using validate_initialised [OF fit len(2) init len(1) p0] by blast
  have "20 \<le> length (mem wb (r_ptr p))" using control_regionD(3) [OF I(2)] p0 I by simp
  from validate_keeps [OF p'(1) this] have "same_layout p' (bus_region b)" using p' p0 I by (simp add: same_layout_def)
  moreover have "validate_control p w2 = validate_control p wb" by (rule validate_bytes) (simp add: mem2)
  ultimately show ?thesis using p'(1) \<sigma> by (auto simp: start_system_def)
qed

section \<open>The status words\<close>

text \<open>The edges of a slot's state machine.\<close>

definition status_edges :: "(u32 \<times> u32) set" where
  "status_edges = {(SLOT_FREE, SLOT_WRITING), (SLOT_WRITING, SLOT_READY), (SLOT_WRITING, SLOT_FREE), (SLOT_READY, SLOT_CLAIMED),
     (SLOT_CLAIMED, SLOT_DONE), (SLOT_CLAIMED, SLOT_FREE), (SLOT_DONE, SLOT_FREE)}"

lemma spec_step_edge:
  assumes "spec_step S e S'" and "phase_change e = Some i"
  shows "(status_code (sp_phase S i), status_code (sp_phase S' i)) \<in> status_edges"
  by (rule spec_step.cases [OF assms(1)])
    (use assms(2) in \<open>auto simp: set_phase_def put_message_def status_code_def status_edges_def\<close>)

section \<open>Property\<close>

text \<open>
  C10: the region is well formed in every reachable state. Any handle that maps it validates, whatever calls are
  in flight, and gets the hub's layout, so that a worker can be opened at any time; the status word of
  every slot is one of the five declared states; and a step changes at most one status word, along an
  edge of the slot's state machine.
\<close>

theorem region_well_formed:
  assumes "shmem_documented X V" and "postcard_documented X" and "events_separate E V"
    and "started pl X E c w \<sigma>" and "sys_run pl X E \<sigma> es \<sigma>'" and "sys_step pl X E \<sigma>' e \<sigma>''"
  shows "(\<forall>p. r_ptr p = r_ptr (bus_region (sy_bus \<sigma>')) \<and> r_len p = r_len (bus_region (sy_bus \<sigma>')) \<longrightarrow>
        (\<exists>p'. validate_control p (sy_world \<sigma>') = Some (Inr (), p') \<and> same_layout p' (bus_region (sy_bus \<sigma>'))))
    \<and> (\<forall>i. unat i < slots_of \<sigma>' \<longrightarrow> (\<exists>a b.
          slot_status (bus_region (sy_bus \<sigma>')) i (sy_world \<sigma>') = Some a \<and> slot_status (bus_region (sy_bus \<sigma>'')) i (sy_world \<sigma>'') = Some b
        \<and> a \<in> {SLOT_FREE, SLOT_WRITING, SLOT_READY, SLOT_CLAIMED, SLOT_DONE}
        \<and> (if phase_change e = Some i then (a, b) \<in> status_edges else b = a)))"
proof (intro conjI allI impI)
  obtain S0 where S0: "simulates V pl X S0 \<sigma>" using started_run [OF assms(1-4) sys_start] by blast
  note H = run_header [OF assms(5) assms(1-3) S0]
  fix p :: shm_region
  assume p: "r_ptr p = r_ptr (bus_region (sy_bus \<sigma>')) \<and> r_len p = r_len (bus_region (sy_bus \<sigma>'))"
  then obtain p' where "validate_control p (sy_world \<sigma>) = Some (Inr (), p')" "same_layout p' (bus_region (sy_bus \<sigma>))"
    using started_validates [OF assms(1,3,4), of p] H by auto
  moreover have "64 \<le> length (mem (sy_world \<sigma>) (r_ptr p))"
    using control_regionD(3) [OF liveD(1) [OF simulatesD(1) [OF S0]]] p H by simp
  ultimately show "\<exists>p'. validate_control p (sy_world \<sigma>') = Some (Inr (), p') \<and> same_layout p' (bus_region (sy_bus \<sigma>'))"
    using validate_header [of "sy_world \<sigma>" p "sy_world \<sigma>'"] H p by auto
next
  fix i :: usize
  assume i: "unat i < slots_of \<sigma>'"
  obtain S where S: "simulates V pl X S \<sigma>'" using started_run [OF assms(1-5)] by blast
  obtain S' where S': "spec_step S e S'" "simulates V pl X S' \<sigma>''" using system_step_simulated [OF assms(1-3) S assms(6)] by blast
  have i': "unat i < slots_of \<sigma>''" using i step_region [OF assms(6)] by (simp add: slots_of_def)
  have "status_code (sp_phase S i) \<in> {SLOT_FREE, SLOT_WRITING, SLOT_READY, SLOT_CLAIMED, SLOT_DONE}"
    by (cases "sp_phase S i") (simp_all add: status_code_def)
  then show "\<exists>a b. slot_status (bus_region (sy_bus \<sigma>')) i (sy_world \<sigma>') = Some a
        \<and> slot_status (bus_region (sy_bus \<sigma>'')) i (sy_world \<sigma>'') = Some b
        \<and> a \<in> {SLOT_FREE, SLOT_WRITING, SLOT_READY, SLOT_CLAIMED, SLOT_DONE}
        \<and> (if phase_change e = Some i then (a, b) \<in> status_edges else b = a)"
    using simulated_status [OF S i] simulated_status [OF S'(2) i'] spec_step_edge [OF S'(1)] spec_step_other [OF S'(1)]
    by (intro exI conjI) auto
qed

theorem region_well_formed_witness:
  "\<exists>(\<sigma> :: ref_os system) p'. validate_control (bus_region (sy_bus \<sigma>)) (sy_world \<sigma>) = Some (Inr (), p')
    \<and> slot_status (bus_region (sy_bus \<sigma>)) 0 (sy_world \<sigma>) \<noteq> None \<and> (SLOT_FREE, SLOT_WRITING) \<in> status_edges"
proof -
  obtain \<sigma>0 o1 ch \<tau> where st: "started Linux ref_externals quiet_events demo_config ref_world \<sigma>0"
    and run: "sys_run Linux ref_externals quiet_events \<sigma>0 ([Claim 0, dropped Req 0 o1] @ [Publish 0 demo_call]) \<tau>"
    by (rule demo_prefix [where pre = "\<lambda>o1 ch. [Claim 0, dropped Req 0 o1] @ [Publish 0 demo_call]"])
      (simp_all add: demo_events_def call_events_def)
  from run obtain \<sigma> where run': "sys_run Linux ref_externals quiet_events \<sigma>0 [Claim 0, dropped Req 0 o1] \<sigma>"
    and step: "sys_step Linux ref_externals quiet_events \<sigma> (Publish 0 demo_call) \<tau>"
    by (rule sys_run_snocE)
  obtain S where S: "simulates ref_view Linux ref_externals S \<sigma>"
    using started_run [OF ref_shmem_documented ref_postcard_documented quiet_separate st run'] by blast
  have "unat (0 :: usize) < slots_of \<sigma>" by (rule step_slot [OF S step]) simp
  with region_well_formed [OF ref_shmem_documented ref_postcard_documented quiet_separate st run' step] show ?thesis
    by (intro exI [of _ \<sigma>]) (force simp: status_edges_def)
qed

end
