(* ===== verification/Inline.thy ===== *)
theory Inline
  imports System
begin

text \<open>
  Bodies that fit their arenas: no overflow region ever exists, so no body is ever lost and the guarantees
  of \<open>System\<close> hold without their reservation about dropped regions.
\<close>

text \<open>The messages of a trace fit: the request or reply an event writes fits its arena.\<close>

fun event_fits :: "'os externals \<Rightarrow> shm_region \<Rightarrow> event \<Rightarrow> bool" where
  "event_fits X r (Publish i c) = (\<forall>mb. request_to_vec X (cl_meta c) = Inr mb \<longrightarrow> payload_fits r Req i mb (cl_body c))"
| "event_fits X r (Reply i p) = (\<forall>mb. response_to_vec X (rp_meta p) = Inr mb \<longrightarrow> payload_fits r Resp i mb (rp_body p))"
| "event_fits X r e = True"

lemma layout_fits:
  assumes "same_layout q r"
  shows "payload_fits q s i mb body \<longleftrightarrow> payload_fits r s i mb body"
  using same_layout_arena(1) [OF assms] by (simp add: payload_fits_def inline_fits_def)

definition no_regions :: "'os system \<Rightarrow> bool" where
  "no_regions \<sigma> \<longleftrightarrow> (\<forall>s i x. regions_of \<sigma> s i x = None)"

lemma no_regionsD:
  assumes "no_regions \<sigma>"
  shows "bus_overflow (sy_bus \<sigma>) i = None" and "wk_overflow (sy_worker \<sigma>) i = None"
    and "hands (sy_threads \<sigma> t) s i = None"
  using assms owned_simps(3,4,5) unfolding no_regions_def by metis+

lemma no_regionsI:
  assumes "\<And>i. bus_overflow (sy_bus \<sigma>) i = None" and "\<And>i. wk_overflow (sy_worker \<sigma>) i = None"
    and "\<And>t s i. hands (sy_threads \<sigma> t) s i = None"
  shows "no_regions \<sigma>"
  unfolding no_regions_def
proof (intro allI)
  fix s i x
  show "regions_of \<sigma> s i x = None" using assms by (cases x; cases s) (simp_all add: owned_def)
qed

lemma hands_update:
  assumes "no_regions \<sigma>" and "\<And>s i. hands a s i = None"
  shows "hands (((sy_threads \<sigma>)(t := a)) u) s i = None"
  using no_regionsD(3) [OF assms(1)] assms(2) by simp

lemma step_no_regions:
  assumes doc: "shmem_documented X V" and sim: "simulates V pl X S \<sigma>" and none: "no_regions \<sigma>"
    and step: "sys_step pl X E \<sigma> e \<sigma>'" and fits: "event_fits X (bus_region (sy_bus \<sigma>)) e"
  shows "no_regions \<sigma>' \<and> (\<forall>s i. e \<noteq> Drop s i)"
proof -
  note N = no_regionsD [OF none]
  note U = hands_update [OF none]
  have q: "same_layout (wk_region (sy_worker \<sigma>)) (bus_region (sy_bus \<sigma>))" using simulatesD(2) [OF sim] by (simp add: linked_def)
  show ?thesis
    using step
  proof cases
    case (publish t i c mb ovf w)
    have "ovf = None" using write_simulated [OF doc sim publish(3,4)] publish fits by auto
    then show ?thesis using publish(1,2) N U by (auto intro!: no_regionsI)
  next
    case (reply t i p mb ovf w)
    have "ovf = None" using answer_simulated [OF doc sim reply(3,4)] reply fits layout_fits [OF q] by auto
    then show ?thesis using reply(1,2) N U by (auto intro!: no_regionsI)
  next
    case (keep t i c ovf b w)
    have "ovf = None" using N(3) [of t Req i] keep(3) by simp
    then show ?thesis using keep N U by (auto intro!: no_regionsI simp: bus_keep_def replaced_def)
  next
    case (store t i ovf k w)
    have "ovf = None" using N(3) [of t Resp i] store(3) by simp
    then show ?thesis using store N U by (auto intro!: no_regionsI simp: worker_keep_def replaced_def)
  qed (use N U in \<open>auto intro!: no_regionsI simp: dropped_def bus_forget_def worker_forget_def dispatch_register_def Let_def\<close>)
qed

lemma run_no_regions:
  assumes "sys_run pl X E \<sigma> es \<sigma>'" and doc: "shmem_documented X V" "postcard_documented X" "events_separate E V"
    and "simulates V pl X S \<sigma>" and "no_regions \<sigma>" and "\<forall>e \<in> set es. event_fits X (bus_region (sy_bus \<sigma>)) e"
  shows "no_regions \<sigma>' \<and> bus_region (sy_bus \<sigma>') = bus_region (sy_bus \<sigma>) \<and> (\<forall>s i. Drop s i \<notin> set es)"
  using assms(1,5-)
proof (induction rule: sys_run.induct)
  case (sys_more \<sigma> es \<tau> e \<upsilon>)
  then have IH: "no_regions \<tau>" "bus_region (sy_bus \<tau>) = bus_region (sy_bus \<sigma>)" "\<forall>s i. Drop s i \<notin> set es" by simp_all
  obtain T where T: "simulates V pl X T \<tau>" using run_simulated [OF sys_more.hyps(1) doc sys_more.prems(1)] by blast
  have "event_fits X (bus_region (sy_bus \<tau>)) e" using sys_more.prems(3) IH(2) by simp
  from step_no_regions [OF doc(1) T IH(1) sys_more.hyps(2) this] show ?case
    using IH(2,3) step_region [OF sys_more.hyps(2)] by auto
qed simp

lemma started_no_regions: "started pl X E c w \<sigma> \<Longrightarrow> no_regions \<sigma>"
  by (auto intro!: no_regionsI
      simp: started_def start_system_def bus_create_def worker_open_def split: bind_splits sum.splits prod.splits)

section \<open>What it means that nothing is lost\<close>

text \<open>
  No request is found unreadable; a handler is given the request last published in its slot; a channel that the
  watcher resolves gets the reply last written to the slot it released, to the call registered under that
  channel.
\<close>

definition messages_intact :: "event list \<Rightarrow> bool" where
  "messages_intact es \<longleftrightarrow>
     (\<forall>i. Unread i \<notin> set es)
   \<and> (\<forall>pre i rq post. es = pre @ Deliver i rq # post \<longrightarrow>
        (\<exists>h call. slot_events i pre = h @ [Claim i, Publish i call, Take i] \<and> rq = request_of call))
   \<and> (\<forall>pre calls post. es = pre @ Resolve calls # post \<longrightarrow>
        calls = [] \<or> (\<exists>ch i h call p. calls = [SendResponse ch (response_of p)] \<and> Register (cl_id call) ch \<in> set pre
          \<and> (\<exists>before after. pre = before @ Release i # after
               \<and> slot_events i before = h @ [Claim i, Publish i call, Take i, Reply i p])))"

text \<open>It is enough that no region has been dropped when a message is read.\<close>

lemma undropped_intact:
  assumes doc: "shmem_documented X V" "postcard_documented X" "events_separate E V"
    and st: "started pl X E c w \<sigma>" and run: "sys_run pl X E \<sigma> es \<sigma>'"
    and rq: "\<And>pre e i post. es = pre @ e # post \<Longrightarrow> e = Unread i \<or> (\<exists>rq. e = Deliver i rq) \<Longrightarrow> \<not> body_dropped Req i pre"
    and rp: "\<And>pre i post. es = pre @ Release i # post \<Longrightarrow> \<not> body_dropped Resp i pre"
  shows "messages_intact es"
proof -
  have upto: "\<exists>\<tau>. sys_run pl X E \<sigma> (pre @ [e]) \<tau>" if "es = pre @ e # post" for pre e post
    using sys_run_prefix [of pl X E \<sigma> "pre @ [e]" post \<sigma>'] run that by simp
  have "Unread i \<notin> set es" for i
  proof
    assume "Unread i \<in> set es"
    then obtain pre post where es: "es = pre @ Unread i # post" by (meson split_list)
    then obtain \<tau> where "sys_run pl X E \<sigma> (pre @ [Unread i]) \<tau>" using upto by blast
    from started_run [OF doc st this] obtain S where "spec_run initial (pre @ [Unread i]) S" by blast
    then obtain T where T: "spec_run initial pre T" "spec_step T (Unread i) S" by (rule spec_run_snocE)
    from T(2) obtain c where "sp_phase T i = Claimed c" "sp_lost T i" by cases auto
    with spec_run_history(3) [OF T(1) refl, of i] have "body_dropped Req i pre" by (simp add: loss_told_def)
    then show False using rq [OF es] by blast
  qed
  moreover have "\<exists>h call. slot_events i pre = h @ [Claim i, Publish i call, Take i] \<and> rq = request_of call"
    if es: "es = pre @ Deliver i rq # post" for pre i rq post
  proof -
    obtain \<tau> where "sys_run pl X E \<sigma> (pre @ [Deliver i rq]) \<tau>" using upto [OF es] by blast
    from deliver_history [OF doc st this] show ?thesis using rq [OF es] by blast
  qed
  moreover have "calls = [] \<or> (\<exists>ch i h call p. calls = [SendResponse ch (response_of p)] \<and> Register (cl_id call) ch \<in> set pre
      \<and> (\<exists>before after. pre = before @ Release i # after
           \<and> slot_events i before = h @ [Claim i, Publish i call, Take i, Reply i p]))"
    if es: "es = pre @ Resolve calls # post" for pre calls post
  proof -
    obtain \<tau> where "sys_run pl X E \<sigma> (pre @ [Resolve calls]) \<tau>" using upto [OF es] by blast
    from resolve_history [OF doc st this]
    obtain before i after h call p where d: "pre = before @ Release i # after"
      "slot_events i before = h @ [Claim i, Publish i call, Take i, Reply i p]"
      "calls = [] \<or> (\<exists>ch body. calls = [SendResponse ch (response_of (p\<lparr>rp_body := body\<rparr>))]
         \<and> Register (cl_id call) ch \<in> set pre \<and> (body = rp_body p \<or> body_dropped Resp i before))" by blast
    have "\<not> body_dropped Resp i before" using rp [of before i] es d(1) by simp
    then have "calls = [] \<or> (\<exists>ch. calls = [SendResponse ch (response_of p)] \<and> Register (cl_id call) ch \<in> set pre)"
      using d(3) by auto
    then show ?thesis using d(1,2) by blast
  qed
  ultimately show ?thesis unfolding messages_intact_def by blast
qed

text \<open>
  C7: with inline messages nothing is ever lost. If every request and every reply written in a run fits its
  arena, no overflow region exists at any time, no request is found unreadable, every handler is given
  exactly the request published in its slot, and a caller is answered with exactly the reply to its own
  request.
\<close>

theorem inline_messages_intact:
  assumes "shmem_documented X V" and "postcard_documented X" and "events_separate E V"
    and "started pl X E c w \<sigma>" and "sys_run pl X E \<sigma> es \<sigma>'" and "\<forall>e \<in> set es. event_fits X (bus_region (sy_bus \<sigma>)) e"
  shows "no_regions \<sigma>' \<and> (\<forall>s i. Drop s i \<notin> set es) \<and> messages_intact es"
proof -
  obtain S0 where S0: "simulates V pl X S0 \<sigma>" using started_run [OF assms(1-4) sys_start] by blast
  note N = run_no_regions [OF assms(5) assms(1-3) S0 started_no_regions [OF assms(4)] assms(6)]
  have "\<not> body_dropped s i pre" if "es = pre @ post" for s i pre post
    using N that unfolding body_dropped_def since_written_def by (metis UnI1 set_append set_rev set_takeWhileD)
  then have "messages_intact es" by (intro undropped_intact [OF assms(1-5)]) blast+
  with N show ?thesis by blast
qed

theorem inline_messages_intact_witness:
  "\<exists>\<sigma> o1 o2 o3 ch \<upsilon>. started Linux ref_externals quiet_events demo_config ref_world \<sigma>
    \<and> sys_run Linux ref_externals quiet_events \<sigma> (demo_events o1 o2 o3 ch) \<upsilon> \<and> no_regions \<upsilon> \<and> demo_events o1 o2 o3 ch ! 1 = Idle"
proof -
  obtain \<sigma> o1 o2 o3 ch \<upsilon> where st: "started Linux ref_externals quiet_events demo_config ref_world \<sigma>"
    and run: "sys_run Linux ref_externals quiet_events \<sigma> (demo_events o1 o2 o3 ch) \<upsilon>"
    and fits: "payload_fits (bus_region (sy_bus \<sigma>)) Req 0 (as_bytes ''/x'') [1, 2, 3]"
      "payload_fits (bus_region (sy_bus \<sigma>)) Resp 0 (as_bytes ''t'') [1, 2, 3]"
    by (rule demo_run_fits)
  have "\<forall>e \<in> set (demo_events o1 o2 o3 ch). event_fits ref_externals (bus_region (sy_bus \<sigma>)) e"
    using fits demo_call_ok(2) demo_answer_ok(1,3)
    by (auto simp: demo_events_def call_events_def dropped_def demo_call_def)
  from inline_messages_intact [OF ref_shmem_documented ref_postcard_documented quiet_separate st run this]
  have *: "no_regions \<upsilon>" "\<forall>s i. Drop s i \<notin> set (demo_events o1 o2 o3 ch)" by blast+
  from *(2) have "demo_events o1 o2 o3 ch ! 1 = Idle"
    by (auto simp: demo_events_def call_events_def dropped_def split: if_splits)
  then show ?thesis using st run *(1) by blast
qed

end
