(* ===== verification/Large.thy ===== *)
theory Large
  imports Inline
begin

text \<open>
  Messages that do not fit their arenas. As long as memory can be mapped and one of the 255 names of the slot is
  free, a message of any size is written; a call of any size that \<open>dispatch\<close> accepts is answered.
\<close>

section \<open>Writing\<close>

text \<open>The system does not run out of memory: a mapping under a free name is always created.\<close>

definition memory_available :: "'os externals \<Rightarrow> 'os shm_view \<Rightarrow> bool" where
  "memory_available X V \<longleftrightarrow>
     (\<forall>name sz w. bound V w name = None \<longrightarrow> (\<exists>h w'. shmem_create X name sz w = (Inr h, w')))"

text \<open>One of the 255 generations of an overflow name is free.\<close>

definition spare_name :: "'os shm_view \<Rightarrow> (u8 \<Rightarrow> string option) \<Rightarrow> 'os world \<Rightarrow> bool" where
  "spare_name V name_for w \<longleftrightarrow> (\<exists>g \<le> 254. \<not> taken V name_for w g)"

text \<open>Deleting a backing file (Windows only) makes no name, as far as the views tell.\<close>

definition binds_nothing :: "'os shm_view \<Rightarrow> 'os world \<Rightarrow> 'os world \<Rightarrow> bool" where
  "binds_nothing V w w' \<longleftrightarrow> (\<forall>name. bound V w name = None \<longrightarrow> bound V w' name = None)"

definition deletes_only :: "'os externals \<Rightarrow> 'os shm_view \<Rightarrow> bool" where
  "deletes_only X V \<longleftrightarrow> (\<forall>p w b w'. delete_if_unshared X p w = (b, w') \<longrightarrow> binds_nothing V w w')"

lemma try_create_available:
  assumes "shmem_documented X V" and "memory_available X V"
  obtains res where "try_create_exclusive X name sz w = (Inr None, w)" | r w' where "try_create_exclusive X name sz w = (Inr (Some r), w')"
proof (cases "shmem_create X name sz w")
  case (Pair res w')
  show ?thesis
  proof (cases res)
    case (Inr h)
    then show ?thesis using that(2) Pair by (simp add: try_create_exclusive_def)
  next
    case (Inl e)
    then have "w' = w" "e = MappingIdExists \<longleftrightarrow> bound V w name \<noteq> None" using create_err [OF assms(1)] Pair by auto
    moreover have "bound V w name \<noteq> None" using assms(2) Pair Inl unfolding memory_available_def by (metis prod.inject sum.distinct(1))
    ultimately show ?thesis using that(1) Pair Inl by (simp add: try_create_exclusive_def)
  qed
qed

lemma create_exclusive_available:
  assumes doc: "shmem_documented X V" "memory_available X V" and del: "pl = Windows \<longrightarrow> deletes_only X V"
  obtains w' where "create_exclusive pl X name sz w = (Inr None, w')" and "binds_nothing V w w'"
  | r w' where "create_exclusive pl X name sz w = (Inr (Some r), w')"
proof (rule try_create_available [OF doc, of name sz w])
  assume t: "try_create_exclusive X name sz w = (Inr None, w)"
  obtain d w2 where rc: "reclaim_orphaned_backing_file pl X name w = (d, w2)" by fastforce
  have keep: "binds_nothing V w w2"
    using rc del by (auto simp: reclaim_orphaned_backing_file_def deletes_only_def binds_nothing_def
        split: platform.splits option.splits if_splits)
  show thesis
  proof (cases d)
    case False
    then show ?thesis using that(1) keep t rc by (simp add: create_exclusive_def)
  next
    case True
    then have e: "create_exclusive pl X name sz w = try_create_exclusive X name sz w2" using t rc by (simp add: create_exclusive_def)
    show ?thesis by (rule try_create_available [OF doc, of name sz w2]) (use e keep that in auto)
  qed
next
  fix r w'
  assume "try_create_exclusive X name sz w = (Inr (Some r), w')"
  then show thesis using that(2) by (simp add: create_exclusive_def)
qed

lemma walk_available:
  assumes doc: "shmem_documented X V" "memory_available X V" and del: "pl = Windows \<longrightarrow> deletes_only X V"
    and names: "names_total nf" and len: "slice_len_ok data"
  shows "\<exists>g \<in> set gs. \<not> taken V nf w g \<Longrightarrow>
    \<exists>r marker w'. fresh_attempts pl X nf data (overflow_size_for (usize_of (length data))) lst gs w = Some (Inr (r, marker), w')"
proof (induction gs arbitrary: lst w)
  case (Cons g gs)
  let ?sz = "overflow_size_for (usize_of (length data))"
  obtain name where n: "nf g = Some name" using names by (auto simp: names_total_def)
  show ?case
  proof (rule create_exclusive_available [OF doc del, of name ?sz w])
    fix r w'
    assume c: "create_exclusive pl X name ?sz w = (Inr (Some r), w')"
    obtain w2 where "fill_overflow X r name data w' = Some (Inr r, w2)" using fresh_then_fill [OF doc(1) len c] by blast
    then show ?thesis using n c by simp
  next
    fix w'
    assume c: "create_exclusive pl X name ?sz w = (Inr None, w')" and keep: "binds_nothing V w w'"
    have "taken V nf w g" using create_exclusive_None(1) [OF doc(1) c] n by (simp add: taken_def)
    then obtain h where h: "h \<in> set gs" "\<not> taken V nf w h" using Cons.prems by auto
    then have "\<not> taken V nf w' h" using keep by (auto simp: taken_def binds_nothing_def)
    then have "\<exists>h \<in> set gs. \<not> taken V nf w' h" using h(1) by blast
    from Cons.IH [OF this, of name] show ?thesis using n c by simp
  qed
qed simp

lemma overflow_available:
  assumes "shmem_documented X V" and "memory_available X V" and "pl = Windows \<longrightarrow> deletes_only X V"
    and "names_total nf" and "spare_name V nf w" and "slice_len_ok data"
  shows "\<exists>r marker w'. create_overflow_fresh pl X nf data w = Some (Inr (r, marker), w')"
  using walk_available [OF assms(1-4,6), of overflow_generations w "[]"] assms(5)
  by (simp add: create_overflow_fresh_def spare_name_def overflow_generations_set Bex_def)

text \<open>Writing bytes leaves the names alone.\<close>

lemma writes_keep_names:
  fixes w w' :: "'os world"
  assumes "shmem_documented X V"
  shows "mem_write seg off bs w = Some w' \<Longrightarrow> bound V w' = bound V w"
    and "write_u8 seg off b w = Some w' \<Longrightarrow> bound V w' = bound V w"
    and "write_u16 seg off h w = Some w' \<Longrightarrow> bound V w' = bound V w"
    and "write_u32 seg off x w = Some w' \<Longrightarrow> bound V w' = bound V w"
    and "heap_write_checked r offset bs w = Some (res, w') \<Longrightarrow> bound V w' = bound V w"
proof -
  have m: "bound V w' = bound V w" if "mem_write seg off bs w = Some w'" for seg off bs and w w' :: "'os world"
    using that assms by (auto simp: mem_write_def shmem_documented_def view_ignores_bytes_def split: if_splits)
  then show "mem_write seg off bs w = Some w' \<Longrightarrow> bound V w' = bound V w" .
  show "write_u8 seg off b w = Some w' \<Longrightarrow> bound V w' = bound V w" using m by (simp add: write_u8_def)
  show "write_u16 seg off h w = Some w' \<Longrightarrow> bound V w' = bound V w" using m by (simp add: write_u16_def split: if_splits)
  show "write_u32 seg off x w = Some w' \<Longrightarrow> bound V w' = bound V w" using m by (simp add: write_u32_def split: if_splits)
  show "heap_write_checked r offset bs w = Some (res, w') \<Longrightarrow> bound V w' = bound V w"
    using m by (auto simp: heap_write_checked_def heap_write_def Let_def split: option.splits if_splits bind_splits)
qed

lemma spare_name_bound: "bound V w' = bound V w \<Longrightarrow> spare_name V nf w' = spare_name V nf w"
  by (simp add: spare_name_def taken_def)

lemma write_body_available:
  assumes doc: "shmem_documented X V" "memory_available X V" and pl: "pl = Windows \<longrightarrow> deletes_only X V" and cr: "control_region r w"
    and i: "unat i < unat (r_num_slots r)" and ha: "heap_addressable r"
    and held: "0 < handles V w (r_ptr r)" and body: "slice_len_ok body"
    and meta: "length meta \<le> unat (snd (arena r s i))" and names: "names_total nf" "spare_name V nf w"
  shows "\<exists>ovf w'. write_body pl X r (slot_base i) (field_base s + 8) (field_base s + 12) (field_base s + 16)
        nf (fst (arena r s i)) (snd (arena r s i)) meta body w = Some (Inr ovf, w') \<and> (ovf = None \<longleftrightarrow> inline_fits r s i meta body)"
proof -
  obtain res w' where b: "write_body pl X r (slot_base i) (field_base s + 8) (field_base s + 12) (field_base s + 16)
        nf (fst (arena r s i)) (snd (arena r s i)) meta body w = Some (res, w')"
    and inl: "inline_fits r s i meta body \<longrightarrow> res = Inr None"
    using write_body_result [OF doc(1) cr i ha held body meta names(1), where pl = pl] by blast
  show ?thesis
  proof (cases "inline_fits r s i meta body")
    case True
    then show ?thesis using b inl by simp
  next
    case False
    then have "body \<noteq> []" "arena_body_offset (fst (arena r s i)) (snd (arena r s i)) (usize_of (length meta))
        (usize_of (length body)) = None"
      using arena_body_offset_None [OF cr i meta body] by (simp_all add: inline_fits_def)
    moreover obtain o1 marker w1 where "create_overflow_fresh pl X nf body w = Some (Inr (o1, marker), w1)"
      using overflow_available [OF doc pl names body] by blast
    ultimately show ?thesis using b False by (auto simp: write_body_def split: bind_splits)
  qed
qed

lemma write_payload_available:
  assumes doc: "shmem_documented X V" "memory_available X V" and pl: "pl = Windows \<longrightarrow> deletes_only X V" and cr: "control_region r w"
    and i: "unat i < unat (r_num_slots r)" and ha: "heap_addressable r"
    and held: "0 < handles V w (r_ptr r)" and lens: "slice_len_ok meta" "slice_len_ok body"
    and meta: "length meta \<le> unat (snd (arena r s i))" and names: "names_total nf" "spare_name V nf w"
  shows "\<exists>ovf w'. write_payload pl X r s i what nf final meta body w = Some (Inr ovf, w')
    \<and> (ovf = None \<longleftrightarrow> inline_fits r s i meta body)"
proof -
  let ?p = "r_ptr r"
  obtain w0 w1 w2 where M: "heap_write_checked r (ucast (fst (arena r s i))) meta w = Some (Inr (), w0)"
    "write_u32 ?p (slot_base i + field_base s) (ucast (fst (arena r s i))) w0 = Some w1"
    "write_u16 ?p (slot_base i + field_base s + 4) (ucast (usize_of (length meta))) w1 = Some w2"
    and t: "touches V ?p (meta_area r s i (length meta)) w w2"
    using write_meta_result [OF doc(1) cr i ha held lens(1) meta] by blast
  have cr2: "control_region r w2" and held2: "0 < handles V w2 ?p"
    using t cr control_region_touches touches_held by blast+
  have "bound V w2 = bound V w" using writes_keep_names [OF doc(1)] M by metis
  then have "spare_name V nf w2" using names(2) spare_name_bound by metis
  then obtain ovf w3 where b: "write_body pl X r (slot_base i) (field_base s + 8) (field_base s + 12)
      (field_base s + 16) nf (fst (arena r s i)) (snd (arena r s i)) meta body w2 = Some (Inr ovf, w3)"
    and kind: "ovf = None \<longleftrightarrow> inline_fits r s i meta body"
    using write_body_available [OF doc pl cr2 i ha held2 lens(2) meta names(1)] by blast
  obtain res w' where p: "write_payload pl X r s i what nf final meta body w = Some (res, w')"
    using write_payload_result [OF doc(1) cr i ha held lens names(1)] by blast
  have "\<not> usize_of (length meta) > snd (arena r s i)" using meta lens(1) by (simp add: word_less_nat_alt not_less)
  then show ?thesis using p M b kind by (auto simp: write_payload_def Let_def split: bind_splits)
qed

lemma message_available:
  assumes "shmem_documented X V" and "memory_available X V" and "pl = Windows \<longrightarrow> deletes_only X V" and "live V r w"
    and "unat i < unat (r_num_slots r)" and "slice_len_ok meta" and "slice_len_ok body"
  shows "(length meta \<le> unat (snd (arena r Req i)) \<and> names_total (request_overflow_name_gen pl c i)
        \<and> spare_name V (request_overflow_name_gen pl c i) w \<longrightarrow>
      (\<exists>ovf w'. write_request pl X r i req_id method meta body c w = Some (Inr ovf, w')
        \<and> (ovf = None \<longleftrightarrow> inline_fits r Req i meta body)))
    \<and> (length meta \<le> unat (snd (arena r Resp i)) \<and> names_total (response_overflow_name_gen pl c i)
        \<and> spare_name V (response_overflow_name_gen pl c i) w \<longrightarrow>
      (\<exists>ovf w'. write_response pl X r i status meta body c w = Some (Inr ovf, w')
        \<and> (ovf = None \<longleftrightarrow> inline_fits r Resp i meta body)))"
proof (intro conjI impI; elim conjE)
  let ?p = "r_ptr r"
  note D = liveD [OF assms(4)]
  have ir: "i < r_num_slots r" using assms(5) by (simp add: word_less_nat_alt)
  {
    let ?nf = "request_overflow_name_gen pl c i"
    assume m: "length meta \<le> unat (snd (arena r Req i))" and n: "names_total ?nf" "spare_name V ?nf w"
    obtain w1 w2 w3 where h: "mem_write ?p (slot_base i + 4) (replicate 36 0) w = Some w1"
      "mem_write ?p (slot_base i + 4) (take (min (length req_id) 36) (as_bytes req_id)) w1 = Some w2"
      "write_u8 ?p (slot_base i + 40) method w2 = Some w3" and t: "touches V ?p {slot_start i + 4 ..< slot_start i + 41} w w3"
      using request_head [OF assms(1,4,5)] by blast
    have "bound V w3 = bound V w" using writes_keep_names(1,2) [OF assms(1)] h by metis
    then have "spare_name V ?nf w3" using n(2) spare_name_bound by metis
    from write_payload_available [OF assms(1-3) liveD(1) [OF live_touches [OF assms(4) t]] assms(5) D(2)
        liveD(3) [OF live_touches [OF assms(4) t]] assms(6,7) m n(1) this, of "''request''" SLOT_READY]
    show "\<exists>ovf w'. write_request pl X r i req_id method meta body c w = Some (Inr ovf, w') \<and> (ovf = None \<longleftrightarrow> inline_fits r Req i meta body)"
      using h by (auto simp: write_request_def write_request_inner_payload [OF ir])
  }
  {
    let ?nf = "response_overflow_name_gen pl c i"
    assume m: "length meta \<le> unat (snd (arena r Resp i))" and n: "names_total ?nf" "spare_name V ?nf w"
    obtain res w' where wr: "write_response pl X r i status meta body c w = Some (res, w')"
      using write_response_result [OF assms(1,4,5,6,7) n(1)] by blast
    then obtain w1 where h: "write_u16 ?p (slot_base i + 64) status w = Some w1"
      by (auto simp: write_response_payload [OF ir] split: bind_splits)
    have t: "touches V ?p {slot_start i + 64 ..< slot_start i + 66} w w1"
      using h slot_base_eq [OF D(1) assms(5)] D(3)
      by (auto simp: write_u16_def mem_write_def put_def [symmetric] split: if_splits intro!: touches_put [OF assms(1)])
    have "bound V w1 = bound V w" using writes_keep_names(3) [OF assms(1)] h by metis
    then have "spare_name V ?nf w1" using n(2) spare_name_bound by metis
    from write_payload_available [OF assms(1-3) liveD(1) [OF live_touches [OF assms(4) t]] assms(5) D(2)
        liveD(3) [OF live_touches [OF assms(4) t]] assms(6,7) m n(1) this]
    show "\<exists>ovf w'. write_response pl X r i status meta body c w = Some (Inr ovf, w') \<and> (ovf = None \<longleftrightarrow> inline_fits r Resp i meta body)"
      using h by (auto simp: write_response_payload [OF ir])
  }
qed

text \<open>
  C20: the size of a body is no obstacle, on any platform. While memory can be mapped and one of the 255 overflow names
  of the slot is free (and, on Windows, deleting a backing file makes no name), writing a request and writing a response
  to a slot of a live region succeed whenever the metadata fits the arena and the names are formed; the body goes to a new
  overflow region exactly when it does not fit after the metadata.
\<close>

theorem any_size_is_written:
  assumes "shmem_documented X V" and "memory_available X V" and "pl = Windows \<longrightarrow> deletes_only X V" and "live V r w"
    and "unat i < unat (r_num_slots r)" and "slice_len_ok meta" and "slice_len_ok body"
  shows "(length meta \<le> unat (snd (arena r Req i)) \<and> names_total (request_overflow_name_gen pl c i)
        \<and> spare_name V (request_overflow_name_gen pl c i) w \<longrightarrow>
      (\<exists>ovf w'. write_request pl X r i req_id method meta body c w = Some (Inr ovf, w')
        \<and> (ovf = None \<longleftrightarrow> inline_fits r Req i meta body)))
    \<and> (length meta \<le> unat (snd (arena r Resp i)) \<and> names_total (response_overflow_name_gen pl c i)
        \<and> spare_name V (response_overflow_name_gen pl c i) w \<longrightarrow>
      (\<exists>ovf w'. write_response pl X r i status meta body c w = Some (Inr ovf, w')
        \<and> (ovf = None \<longleftrightarrow> inline_fits r Resp i meta body)))"
  by (rule message_available [OF assms])

section \<open>Dispatching\<close>

text \<open>A call whose metadata fits and whose body may have any size can be published when a slot is free.\<close>

definition publishable :: "'os shm_view \<Rightarrow> platform \<Rightarrow> 'os externals \<Rightarrow> bus \<Rightarrow> usize \<Rightarrow> call \<Rightarrow> 'os world \<Rightarrow> bool" where
  "publishable V pl X b i c w \<longleftrightarrow>
     call_ok X c \<and> (\<exists>mb. request_to_vec X (cl_meta c) = Inr mb \<and> length mb \<le> unat (snd (arena (bus_region b) Req i)))
   \<and> bus_overflow b i = None \<and> spare_name V (request_overflow_name_gen pl (bus_config b) i) w"

lemma cas_keeps_names:
  assumes "shmem_documented X V" and "cas_status r i old new w = Some (res, w')"
  shows "bound V w' = bound V w"
  using assms writes_keep_names(4) [OF assms(1)]
  by (auto simp: cas_status_def compare_exchange_def atomic_store_def split: bind_splits if_splits)

lemma forget_nothing: "bus_overflow b i = None \<Longrightarrow> bus_forget X i (b, w) = (b, w)"
  by (simp add: bus_forget_def drop_opt_def fun_upd_idem)

lemma write_accepted:
  assumes doc: "shmem_documented X V" "memory_available X V" and pl: "pl \<noteq> Windows" and sim: "simulates V pl X S \<sigma>"
    and i: "unat i < slots_of \<sigma>" and c: "publishable V pl X (sy_bus \<sigma>) i c (sy_world \<sigma>)"
    and vec: "request_to_vec X (cl_meta c) = Inr mb"
  shows "\<exists>ovf w. write_request pl X (bus_region (sy_bus \<sigma>)) i (cl_id c) (method_to_u8 (cl_method c)) mb (cl_body c)
      (bus_config (sy_bus \<sigma>)) (sy_world \<sigma>) = Some (Inr ovf, w)"
proof -
  note sD = simulatesD [OF sim]
  have "unat i < unat (r_num_slots (bus_region (sy_bus \<sigma>)))" using i by (simp add: slots_of_def)
  moreover have "slice_len_ok mb" "slice_len_ok (cl_body c)" using c vec by (auto simp: publishable_def call_ok_def slice_len_ok_def)
  moreover have "names_total (request_overflow_name_gen pl (bus_config (sy_bus \<sigma>)) i)" using sD(2) by (simp add: linked_def)
  moreover have "length mb \<le> unat (snd (arena (bus_region (sy_bus \<sigma>)) Req i))"
    "spare_name V (request_overflow_name_gen pl (bus_config (sy_bus \<sigma>)) i) (sy_world \<sigma>)"
    using c vec by (auto simp: publishable_def)
  ultimately show ?thesis using message_available [OF doc _ sD(1)] pl by blast
qed

text \<open>As stages of a run, and as a call of \<open>dispatch\<close>.\<close>

lemma large_dispatch_steps:
  assumes doc: "shmem_documented X V" "memory_available X V" "events_separate E V" and pl: "pl \<noteq> Windows"
    and sim: "simulates V pl X S \<sigma>" and idle: "sy_threads \<sigma> t = None" and i: "unat i < slots_of \<sigma>"
    and ph: "sp_phase S i = Free" and c: "publishable V pl X (sy_bus \<sigma>) i c (sy_world \<sigma>)"
  shows "\<exists>ch b w. sys_run pl X E \<sigma> [Claim i, Idle, Publish i c, Idle, Register (cl_id c) ch] (\<sigma>\<lparr>sy_bus := b, sy_world := w\<rparr>)
    \<and> bus_region b = bus_region (sy_bus \<sigma>) \<and> simulates V pl X (register_call i c ch S) (\<sigma>\<lparr>sy_bus := b, sy_world := w\<rparr>)"
proof -
  let ?T = "\<lambda>b w a. \<sigma>\<lparr>sy_bus := b, sy_world := w, sy_threads := (sy_threads \<sigma>)(t := a)\<rparr>" and ?b = "sy_bus \<sigma>"
  let ?S1 = "set_phase i Writing S" and ?S2 = "put_message i (Ready c) S"
  obtain mb where vec: "request_to_vec X (cl_meta c) = Inr mb" and ok: "call_ok X c" and none: "bus_overflow ?b i = None"
    using c by (auto simp: publishable_def)
  obtain w1 where s1: "sys_step pl X E \<sigma> (Claim i) (?T ?b w1 (Some (Filling i c)))"
    and m1: "simulates V pl X ?S1 (?T ?b w1 (Some (Filling i c)))"
    using claim_enabled [where E = E, OF doc(1) sim idle i ph ok] by auto
  from s1 have "\<exists>old. cas_status (bus_region ?b) i SLOT_FREE SLOT_WRITING (sy_world \<sigma>) = Some (Inr old, w1)"
    by cases (auto simp: dropped_def replaced_def dest!: arg_cong [where f = sy_world] split: if_splits)
  then have "bound V w1 = bound V (sy_world \<sigma>)" using cas_keeps_names [OF doc(1)] by blast
  then have c1: "publishable V pl X ?b i c w1" using c spare_name_bound unfolding publishable_def by metis
  have "sys_step pl X E (?T ?b w1 (Some (Filling i c))) (dropped Req i (bus_overflow ?b i)) (?T ?b w1 (Some (Cleared i c)))"
    using sys_step.clear [where pl = pl and E = E and t = t and \<sigma> = "?T ?b w1 (Some (Filling i c))" and bus = ?b and w = w1, OF _ vec]
      forget_nothing [OF none, of X w1] by simp
  then have s2: "sys_step pl X E (?T ?b w1 (Some (Filling i c))) Idle (?T ?b w1 (Some (Cleared i c)))" using none by (simp add: dropped_def)
  have m2: "simulates V pl X ?S1 (?T ?b w1 (Some (Cleared i c)))"
    using clear_simulated(1) [OF doc(1) m1, of t i c ?b w1] forget_nothing [OF none, of X w1] by simp
  have th2: "sy_threads (?T ?b w1 (Some (Cleared i c))) t = Some (Cleared i c)" by simp
  obtain ovf w3 where wr: "write_request pl X (bus_region ?b) i (cl_id c) (method_to_u8 (cl_method c)) mb (cl_body c)
      (bus_config ?b) w1 = Some (Inr ovf, w3)"
    using write_accepted [OF doc(1,2) pl m2, of i c mb] i c1 vec by (auto simp: slots_of_def)
  have s3: "sys_step pl X E (?T ?b w1 (Some (Cleared i c))) (Publish i c) (?T ?b w3 (Some (Keeping i c ovf)))"
    using sys_step.publish [where pl = pl and E = E, OF th2 vec] wr by auto
  have "put_message i (Ready c) ?S1 = ?S2" by (simp add: put_message_def set_phase_def)
  then have m3: "simulates V pl X ?S2 (?T ?b w3 (Some (Keeping i c ovf)))"
    using write_simulated [OF doc(1) m2 th2 vec] wr by auto
  have th3: "sy_threads (?T ?b w3 (Some (Keeping i c ovf))) t = Some (Keeping i c ovf)" by simp
  obtain b4 w4 where kp: "bus_keep X i ovf (?b, w3) = (b4, w4)" by fastforce
  have s4: "sys_step pl X E (?T ?b w3 (Some (Keeping i c ovf))) Idle (?T b4 w4 (Some (Registering c)))"
    using sys_step.keep [where pl = pl and X = X and E = E and bus = b4 and w = w4, OF th3] kp none
    by (simp add: replaced_def dropped_def split: if_splits)
  have m4: "simulates V pl X ?S2 (?T b4 w4 (Some (Registering c)))"
    using keep_simulated [OF doc(1) m3 th3] kp none by simp
  have r4: "bus_region b4 = bus_region ?b" using kp by (auto simp: bus_keep_def split: option.splits)
  obtain ch b5 w5 where s5: "sys_step pl X E (?T b4 w4 (Some (Registering c))) (Register (cl_id c) ch) (?T b5 w5 None)"
    and r5: "bus_region b5 = bus_region ?b"
    and m5: "simulates V pl X (?S2\<lparr>sp_pending := (sp_pending ?S2)(cl_id c \<mapsto> ch)\<rparr>) (?T b5 w5 None)"
    using register_enabled [where E = E and t = t and c = c, OF doc(3) m4] r4 by auto
  have e: "?T b5 w5 None = \<sigma>\<lparr>sy_bus := b5, sy_world := w5\<rparr>" using idle by (simp add: fun_upd_idem)
  have "?S2\<lparr>sp_pending := (sp_pending ?S2)(cl_id c \<mapsto> ch)\<rparr> = register_call i c ch S"
    by (simp add: register_call_def put_message_def set_phase_def)
  then have "simulates V pl X (register_call i c ch S) (\<sigma>\<lparr>sy_bus := b5, sy_world := w5\<rparr>)" using m5 e by simp
  then show ?thesis
    using sys_more [OF sys_more [OF sys_more [OF sys_more [OF sys_run_one [OF s1] s2] s3] s4] s5] r5
    unfolding e append_Cons append_Nil by blast
qed

lemma large_dispatch_accepted:
  assumes doc: "shmem_documented X V" "memory_available X V" and pl: "pl \<noteq> Windows"
    and sim: "simulates V pl X S \<sigma>" and idle: "sy_threads \<sigma> t = None"
    and free: "find (\<lambda>i. sp_phase S i = Free) (slot_indices (bus_region (sy_bus \<sigma>))) = Some i"
    and c: "publishable V pl X (sy_bus \<sigma>) i c (sy_world \<sigma>)"
  shows "\<exists>ch b w. bus_dispatch pl X E (cl_id c) (cl_method c) (cl_meta c) (cl_body c) (sy_bus \<sigma>, sy_world \<sigma>) = Some (Inr ch, b, w)"
proof -
  let ?b = "sy_bus \<sigma>" and ?r = "bus_region (sy_bus \<sigma>)"
  let ?w1 = "put (r_ptr ?r) (slot_start i) (le32 SLOT_WRITING) (sy_world \<sigma>)"
  obtain mb where vec: "request_to_vec X (cl_meta c) = Inr mb" and ok: "call_ok X c" and none: "bus_overflow ?b i = None"
    using c by (auto simp: publishable_def)
  have fi: "unat i < slots_of \<sigma>" "sp_phase S i = Free"
    using free by (auto simp: find_Some_iff slots_of_def slot_indices_set dest!: nth_mem)
  have ir: "unat i < unat (r_num_slots ?r)" using fi by (simp add: slots_of_def)
  have "status_at ?r i (sy_world \<sigma>) = SLOT_FREE" using slot_matches_phase(1) [OF sim_slot [OF sim fi(1)]] fi by simp
  then have cas: "cas_status ?r i SLOT_FREE SLOT_WRITING (sy_world \<sigma>) = Some (Inr SLOT_FREE, ?w1)"
    using status_ops(3) [OF liveD(1) [OF simulatesD(1) [OF sim]] ir] by simp
  let ?\<sigma>1 = "\<sigma>\<lparr>sy_world := ?w1, sy_threads := (sy_threads \<sigma>)(t \<mapsto> Filling i c)\<rparr>"
  note sim1 = claim_simulated(2) [OF doc(1) sim idle fi(1) ok cas]
  have "publishable V pl X ?b i c ?w1"
    using c spare_name_bound cas_keeps_names [OF doc(1) cas] unfolding publishable_def by metis
  then obtain ovf w where "write_request pl X ?r i (cl_id c) (method_to_u8 (cl_method c)) mb (cl_body c) (bus_config ?b) ?w1
      = Some (Inr ovf, w)"
    using write_accepted [OF doc pl sim1, of i c mb] fi(1) vec by (auto simp: slots_of_def)
  moreover obtain b2 w2 where "bus_keep X i ovf (?b, w) = (b2, w2)" by fastforce
  ultimately show ?thesis
    using dispatch_claims [OF sim] free vec forget_nothing [OF none, of X ?w1]
    by (simp add: bus_dispatch_def dispatch_fill_def dispatch_register_def Let_def)
qed

section \<open>A call of any size\<close>

text \<open>A handler that computes a reply and sends it, and lets the call be when the reply is refused.\<close>

definition attempting ::
  "platform \<Rightarrow> 'os externals \<Rightarrow> 'os event_os \<Rightarrow> (request \<Rightarrow> reply) \<Rightarrow> 'os handler" where
  "attempting pl X E g i rq s =
     map_option snd (send_response pl X E i (rp_status (g rq)) (rp_body (g rq)) (content_type (rp_meta (g rq)))
       (resp_headers (rp_meta (g rq))) s)"

text \<open>The replies to some calls have a form the protocol covers; their bodies may have any size below 4 GiB.\<close>

definition replies_ok :: "'os externals \<Rightarrow> (request \<Rightarrow> reply) \<Rightarrow> (call \<Rightarrow> bool) \<Rightarrow> bool" where
  "replies_ok X g C \<longleftrightarrow>
     (\<forall>c. C c \<longrightarrow> reply_ok X (g (request_of c)) \<and> (\<exists>mb. response_to_vec X (rp_meta (g (request_of c))) = Inr mb))"

definition reply_fits :: "'os externals \<Rightarrow> shm_region \<Rightarrow> usize \<Rightarrow> reply \<Rightarrow> bool" where
  "reply_fits X r i p \<longleftrightarrow> (\<exists>mb. response_to_vec X (rp_meta p) = Inr mb \<and> payload_fits r Resp i mb (rp_body p))"

text \<open>The outcome for a slot: a waiting request is answered, or refused because its reply is too big for the arena.\<close>

definition outcome ::
  "'os externals \<Rightarrow> shm_region \<Rightarrow> (request \<Rightarrow> reply) \<Rightarrow> usize \<Rightarrow> phase \<Rightarrow> phase \<Rightarrow> bool" where
  "outcome X r g i ph ph' \<longleftrightarrow>
     (case ph of
        Ready c \<Rightarrow> ph' = Done c (g (request_of c)) \<or> (ph' = Free \<and> \<not> reply_fits X r i (g (request_of c)))
      | _ \<Rightarrow> ph' = ph)"

lemma receive_slot_any:
  assumes doc: "shmem_documented X V" "postcard_documented X" "events_separate E V"
    and sim: "simulates V pl X S \<sigma>" and calm: "calm S" and i: "unat i < slots_of \<sigma>"
    and idle: "sy_threads \<sigma> t = None" and g: "replies_ok X g C" and C: "\<And>c. sp_phase S i = Ready c \<Longrightarrow> C c"
  shows "\<exists>k w p. receive_slot pl X (attempting pl X E g) i (sy_worker \<sigma>, sy_world \<sigma>) = Some (k, w)
    \<and> wk_region k = wk_region (sy_worker \<sigma>) \<and> outcome X (wk_region (sy_worker \<sigma>)) g i (sp_phase S i) p
    \<and> simulates V pl X (set_phase i p S) (with_worker \<sigma> (k, w))"
proof (cases "\<exists>c. sp_phase S i = Ready c")
  case True
  then obtain c where ph: "sp_phase S i = Ready c" ..
  let ?p = "g (request_of c)" and ?S = "set_phase i (Claimed c) S"
  obtain mb where ok: "reply_ok X ?p" "response_to_vec X (rp_meta ?p) = Inr mb" using g C [OF ph] by (auto simp: replies_ok_def)
  obtain w1 where run: "\<And>h. receive_slot pl X h i (sy_worker \<sigma>, sy_world \<sigma>) = h i (request_of c) (sy_worker \<sigma>, w1)"
    and sim1: "simulates V pl X ?S (\<sigma>\<lparr>sy_world := w1, sy_threads := (sy_threads \<sigma>)(t \<mapsto> Handling i (request_of c))\<rparr>)"
    using receive_slot_delivers [OF doc(1,2) sim calm i ph idle] by blast
  let ?\<sigma> = "\<sigma>\<lparr>sy_world := w1, sy_threads := (sy_threads \<sigma>)(t \<mapsto> Handling i (request_of c))\<rparr>"
  have th: "sy_threads ?\<sigma> t = Some (Handling i (request_of c))" by simp
  obtain res k w where rs: "respond pl X E i ?p ?\<sigma> = Some (res, k, w)"
    and fit: "payload_fits (wk_region (sy_worker \<sigma>)) Resp i mb (rp_body ?p) \<longrightarrow> res = Inr ()"
    and reg: "wk_region k = wk_region (sy_worker \<sigma>)"
    and sim2: "simulates V pl X (case res of Inl e \<Rightarrow> set_phase i Free ?S | Inr u \<Rightarrow> put_message i (Done c ?p) ?S)
        (?\<sigma>\<lparr>sy_worker := k, sy_world := w, sy_threads := (sy_threads ?\<sigma>)(t := None)\<rparr>)"
    using respond_simulated [OF doc(1,3) sim1 th ok] by (auto simp: set_phase_def)
  let ?ph = "case res of Inl e \<Rightarrow> Free | Inr u \<Rightarrow> Done c ?p"
  have "(case res of Inl e \<Rightarrow> set_phase i Free ?S | Inr u \<Rightarrow> put_message i (Done c ?p) ?S) = set_phase i ?ph S"
    using calm by (simp add: calmD(3) split: sum.split) (simp add: set_phase_def)
  moreover have "?\<sigma>\<lparr>sy_worker := k, sy_world := w, sy_threads := (sy_threads ?\<sigma>)(t := None)\<rparr> = with_worker \<sigma> (k, w)"
    using idle by (simp add: with_worker_def fun_upd_idem)
  ultimately have "simulates V pl X (set_phase i ?ph S) (with_worker \<sigma> (k, w))" using sim2 by simp
  moreover have "outcome X (wk_region (sy_worker \<sigma>)) g i (sp_phase S i) ?ph"
    using ph fit ok(2) by (auto simp: outcome_def reply_fits_def split: sum.split)
  moreover have "receive_slot pl X (attempting pl X E g) i (sy_worker \<sigma>, sy_world \<sigma>) = Some (k, w)"
    using run rs by (simp add: attempting_def respond_def)
  ultimately show ?thesis using reg by blast
next
  case False
  have "set_phase i (sp_phase S i) S = S" by (simp add: set_phase_def)
  moreover have "outcome X (wk_region (sy_worker \<sigma>)) g i (sp_phase S i) (sp_phase S i)"
    using False by (auto simp: outcome_def split: phase.split)
  moreover have "with_worker \<sigma> (sy_worker \<sigma>, sy_world \<sigma>) = \<sigma>" by (simp add: with_worker_def)
  ultimately show ?thesis using receive_slot_idle [OF sim i] False sim by metis
qed

lemma outcome_twice:
  "outcome X r g i ph p \<Longrightarrow> outcome X r g i p q \<Longrightarrow> outcome X r g i ph q"
  by (cases ph) (auto simp: outcome_def)

text \<open>The slots of a scan.\<close>

definition outcomes ::
  "'os externals \<Rightarrow> shm_region \<Rightarrow> (request \<Rightarrow> reply) \<Rightarrow> usize list \<Rightarrow> (usize \<Rightarrow> phase) \<Rightarrow> (usize \<Rightarrow> phase) \<Rightarrow> bool" where
  "outcomes X r g is ph ph' \<longleftrightarrow> (\<forall>i. if i \<in> set is then outcome X r g i (ph i) (ph' i) else ph' i = ph i)"

lemma outcomes_more:
  assumes "outcome X r g i (ph i) p" and "outcomes X r g is (ph(i := p)) ph'"
  shows "outcomes X r g (i # is) ph ph'"
  unfolding outcomes_def
proof
  fix j
  have "if j \<in> set is then outcome X r g j ((ph(i := p)) j) (ph' j) else ph' j = (ph(i := p)) j"
    using assms(2) unfolding outcomes_def by blast
  then show "if j \<in> set (i # is) then outcome X r g j (ph j) (ph' j) else ph' j = ph j"
    using assms(1) outcome_twice [OF assms(1)] by (auto split: if_splits)
qed

lemma receive_scan_any:
  assumes doc: "shmem_documented X V" "postcard_documented X" "events_separate E V" and g: "replies_ok X g C"
  shows "simulates V pl X S \<sigma> \<Longrightarrow> calm S \<Longrightarrow> \<forall>i \<in> set is. unat i < slots_of \<sigma> \<Longrightarrow> sy_threads \<sigma> t = None \<Longrightarrow>
    \<forall>i c. sp_phase S i = Ready c \<longrightarrow> C c \<Longrightarrow>
    \<exists>k w ph. receive_scan pl X (attempting pl X E g) is (sy_worker \<sigma>, sy_world \<sigma>) = Some (k, w)
      \<and> outcomes X (wk_region (sy_worker \<sigma>)) g is (sp_phase S) ph
      \<and> simulates V pl X (S\<lparr>sp_phase := ph\<rparr>) (with_worker \<sigma> (k, w))"
proof (induction "is" arbitrary: S \<sigma>)
  case Nil
  have "with_worker \<sigma> (sy_worker \<sigma>, sy_world \<sigma>) = \<sigma>" by (simp add: with_worker_def)
  moreover have "outcomes X (wk_region (sy_worker \<sigma>)) g [] (sp_phase S) (sp_phase S)" by (simp add: outcomes_def)
  moreover have "S\<lparr>sp_phase := sp_phase S\<rparr> = S" by simp
  ultimately show ?case using Nil.prems(1) by (metis receive_scan.simps(1))
next
  case (Cons i "is")
  have i: "unat i < slots_of \<sigma>" using Cons.prems(3) by simp
  obtain k w p where one: "receive_slot pl X (attempting pl X E g) i (sy_worker \<sigma>, sy_world \<sigma>) = Some (k, w)"
    and reg: "wk_region k = wk_region (sy_worker \<sigma>)" and out: "outcome X (wk_region (sy_worker \<sigma>)) g i (sp_phase S i) p"
    and sim: "simulates V pl X (set_phase i p S) (with_worker \<sigma> (k, w))"
    using receive_slot_any [OF doc Cons.prems(1,2) i Cons.prems(4) g] Cons.prems(5) by blast
  have C': "\<forall>j c. sp_phase (set_phase i p S) j = Ready c \<longrightarrow> C c"
    using out Cons.prems(5) by (auto simp: set_phase_def outcome_def split: phase.splits)
  have S': "calm (set_phase i p S)" "sp_phase (set_phase i p S) = (sp_phase S)(i := p)"
    "\<And>ph. (set_phase i p S)\<lparr>sp_phase := ph\<rparr> = S\<lparr>sp_phase := ph\<rparr>"
    using Cons.prems(2) by simp (simp_all add: set_phase_def)
  obtain k' w' ph where rest: "receive_scan pl X (attempting pl X E g) is (k, w) = Some (k', w')"
    and outs: "outcomes X (wk_region (sy_worker \<sigma>)) g is ((sp_phase S)(i := p)) ph"
    and sim': "simulates V pl X (S\<lparr>sp_phase := ph\<rparr>) (with_worker \<sigma> (k', w'))"
    using Cons.IH [OF sim S'(1) _ _ C'] Cons.prems(3,4) reg unfolding S'(2,3) by (auto simp: fun_upd_def)
  show ?case using one rest outcomes_more [where ph = "sp_phase S", OF out outs] sim' by auto
qed

lemma receive_turn_any:
  assumes doc: "shmem_documented X V" "postcard_documented X" "events_separate E V" "pl = MacOS \<longrightarrow> clock_documented E"
    and sim: "simulates V pl X S \<sigma>" and calm: "calm S" and idle: "sy_threads \<sigma> t = None" and g: "replies_ok X g C"
    and C: "\<forall>i c. sp_phase S i = Ready c \<longrightarrow> C c"
  shows "\<exists>k w ph. receive_turn pl X E (attempting pl X E g) (sy_worker \<sigma>, sy_world \<sigma>) = Some (k, w)
      \<and> outcomes X (wk_region (sy_worker \<sigma>)) g (slot_indices (bus_region (sy_bus \<sigma>))) (sp_phase S) ph
      \<and> simulates V pl X (S\<lparr>sp_phase := ph\<rparr>) (with_worker \<sigma> (k, w))"
proof -
  let ?k = "sy_worker \<sigma>"
  obtain b w1 where wt: "event_wait_timeout pl E (wk_req_event ?k) (cfg_wait_timeout_ms (wk_config ?k)) (sy_world \<sigma>) = Some (b, w1)"
    using wait_total [OF doc(4)] by blast
  let ?\<sigma> = "\<sigma>\<lparr>sy_world := w1\<rparr>"
  note sim1 = waited_simulates [OF sim doc(3) wt]
  have idx: "slot_indices (wk_region ?k) = slot_indices (bus_region (sy_bus \<sigma>))"
    using linked_live(3) [OF simulatesD(2,1) [OF sim]] by (simp add: slot_indices_def)
  have "\<forall>i \<in> set (slot_indices (bus_region (sy_bus \<sigma>))). unat i < slots_of ?\<sigma>"
    by (simp add: slot_indices_set slots_of_def)
  from receive_scan_any [OF doc(1-3) g sim1 calm this _ C, of t] idle
  show ?thesis using wt idx by (auto simp: receive_turn_def with_worker_def)
qed

lemma take_replies_pending:
  "(\<And>j c p. sp_phase S j = Done c p \<Longrightarrow> cl_id c \<noteq> req_id) \<Longrightarrow>
    sp_pending (fst (take_replies is S)) req_id = sp_pending S req_id"
proof (induction "is" arbitrary: S)
  case (Cons i "is")
  obtain S1 calls where t: "take_reply i S = (S1, calls)" by fastforce
  have "cl_id c \<noteq> req_id" if "sp_phase S1 j = Done c p" for j c p
  proof -
    have "sp_phase S j = Done c p" using that take_reply_phase [of i S j] t by (auto split: if_splits)
    then show ?thesis by (rule Cons.prems)
  qed
  then have "sp_pending (fst (take_replies is S1)) req_id = sp_pending S1 req_id" by (rule Cons.IH)
  moreover have "fst (take_replies (i # is) S) = fst (take_replies is S1)" using t by (simp split: prod.split)
  ultimately show ?case using take_reply_pending [of S i req_id] Cons.prems t by simp
qed simp

text \<open>
  C3: a call that \<open>dispatch\<close> accepts is settled, whatever the size of the messages, when it is dispatched in a running system
  in which no message has lost its body, the watcher is not on its way from the release of a slot to the resolution of
  its caller and no call in flight has its id, and when the handler's replies to this and to every waiting request can be serialised. The next turn of the receive loop
  hands exactly this request to the handler, and after the next turn of the watcher its slot is free and its channel has been
  sent the handler's reply, unless the reply does not fit its arena and \<open>send_response\<close> has refused it: then the caller
  is still registered. (\<open>late_remove_loses_call\<close> is about a state in which the watcher is on that way.)
\<close>

theorem accepted_call_settled:
  assumes "shmem_documented X V" and "postcard_documented X" and "events_separate E V" and "pl = MacOS \<longrightarrow> clock_documented E"
    and "simulates V pl X S \<sigma>" and "calm S" and "sy_threads \<sigma> t = None"
    and "call_ok X c" and "request_to_vec X (cl_meta c) = Inr mb"
    and "replies_ok X g (\<lambda>c'. c' = c \<or> (\<exists>j. sp_phase S j = Ready c'))"
    and "\<And>j c'. call_of (sp_phase S j) = Some c' \<Longrightarrow> cl_id c' \<noteq> cl_id c"
    and "bus_dispatch pl X E (cl_id c) (cl_method c) (cl_meta c) (cl_body c) (sy_bus \<sigma>, sy_world \<sigma>) = Some (Inr ch, b1, w1)"
  shows "\<exists>i k2 w2 b3 w3 calls. find (\<lambda>i. sp_phase S i = Free) (slot_indices (bus_region (sy_bus \<sigma>))) = Some i
    \<and> receive_turn pl X E (attempting pl X E g) (sy_worker \<sigma>, w1) = Some (k2, w2)
    \<and> watch_turn pl X E (b1, w2) = Some (b3, w3)
    \<and> bus_calls b3 = bus_calls b1 @ calls \<and> slot_status (bus_region b3) i w3 = Some SLOT_FREE
    \<and> (SendResponse ch (response_of (g (request_of c))) \<in> set calls
       \<or> \<not> reply_fits X (wk_region (sy_worker \<sigma>)) i (g (request_of c))
         \<and> map_option (snd \<circ> snd) (bus_pending b3 (cl_id c)) = Some ch)"
proof -
  let ?is = "slot_indices (bus_region (sy_bus \<sigma>))" and ?p = "g (request_of c)"
  obtain i where free: "find (\<lambda>i. sp_phase S i = Free) ?is = Some i"
    and sim1: "simulates V pl X (register_call i c ch S) (\<sigma>\<lparr>sy_bus := b1, sy_world := w1\<rparr>)"
    using dispatch_simulated [OF assms(1,3,5,7-9)] assms(12) by (auto split: option.splits)
  have i: "i \<in> set ?is" using free by (auto simp: find_Some_iff)
  let ?S1 = "register_call i c ch S" and ?\<sigma>1 = "\<sigma>\<lparr>sy_bus := b1, sy_world := w1\<rparr>"
  have same: "slot_indices (bus_region b1) = ?is" using dispatch_keeps [OF assms(12)] by simp
  have calm1: "calm ?S1" and idle1: "sy_threads ?\<sigma>1 t = None" using assms(6,7) by simp_all
  have waiting: "\<forall>j c'. sp_phase ?S1 j = Ready c' \<longrightarrow> c' = c \<or> (\<exists>j. sp_phase S j = Ready c')" by auto
  obtain k2 w2 ph where r: "receive_turn pl X E (attempting pl X E g) (sy_worker \<sigma>, w1) = Some (k2, w2)"
    and out: "outcomes X (wk_region (sy_worker \<sigma>)) g ?is (sp_phase ?S1) ph"
    and sim2: "simulates V pl X (?S1\<lparr>sp_phase := ph\<rparr>) (with_worker ?\<sigma>1 (k2, w2))"
    using receive_turn_any [OF assms(1-4) sim1 calm1 idle1 assms(10) waiting] same by auto
  let ?S2 = "?S1\<lparr>sp_phase := ph\<rparr>"
  have calm2: "calm ?S2" using calm1 by (simp add: calm_def)
  obtain b3 w3 where w: "watch_turn pl X E (b1, w2) = Some (b3, w3)"
    and calls: "bus_calls b3 = bus_calls b1 @ snd (take_replies ?is ?S2)"
    and sim3: "simulates V pl X (fst (take_replies ?is ?S2)) (with_worker ?\<sigma>1 (k2, w2)\<lparr>sy_bus := b3, sy_world := w3\<rparr>)"
    using watch_turn_simulated [OF assms(1-4) sim2 calm2] same by (auto simp: with_worker_def)
  have outi: "outcome X (wk_region (sy_worker \<sigma>)) g i (Ready c) (ph i)" using out i by (auto simp: outcomes_def split: if_splits)
  have other: "cl_id c' \<noteq> cl_id c" if j: "j \<noteq> i" "sp_phase ?S2 j = Done c' p'" for j c' p'
  proof -
    have "outcome X (wk_region (sy_worker \<sigma>)) g j (sp_phase S j) (Done c' p') \<or> sp_phase S j = Done c' p'"
      using out j unfolding outcomes_def by (metis (no_types, lifting) fun_upd_apply register_call_simps(1) spec.select_convs(1) spec.surjective spec.update_convs(1))
    then have "call_of (sp_phase S j) = Some c'" by (cases "sp_phase S j") (auto simp: outcome_def)
    then show ?thesis by (rule assms(11))
  qed
  have pend: "sp_pending ?S2 (cl_id c) = Some ch" by simp
  have verdict: "SendResponse ch (response_of ?p) \<in> set (snd (take_replies ?is ?S2))
      \<or> \<not> reply_fits X (wk_region (sy_worker \<sigma>)) i ?p \<and> map_option (snd \<circ> snd) (bus_pending b3 (cl_id c)) = Some ch"
  proof (cases "ph i = Free")
    case True
    have "cl_id c' \<noteq> cl_id c" if "sp_phase ?S2 j = Done c' p'" for j c' p'
      using other [OF _ that] that True by (cases "j = i") auto
    then have "sp_pending (fst (take_replies ?is ?S2)) (cl_id c) = Some ch" using take_replies_pending pend by metis
    then show ?thesis using simulatesD(5) [OF sim3] outi True by (auto simp: outcome_def)
  next
    case False
    then have "sp_phase ?S2 i = Done c ?p" using outi by (auto simp: outcome_def)
    then show ?thesis using take_replies_answers [OF i _ pend] other by blast
  qed
  have "bus_region b3 = bus_region (sy_bus \<sigma>)" using dispatch_keeps [OF assms(12)] watch_turn_keeps [OF w] by simp
  then have ir: "unat i < unat (r_num_slots (bus_region b3))" using i by (metis slot_indices_set)
  have "sp_phase (fst (take_replies ?is ?S2)) i = Free" using outi i by (auto simp: take_replies_phase outcome_def)
  then have "status_at (bus_region b3) i w3 = SLOT_FREE"
    using slot_matches_phase(1) [OF sim_slot [OF sim3, of i]] ir by (simp add: slots_of_def)
  moreover have "control_region (bus_region b3) w3" using liveD(1) [OF simulatesD(1) [OF sim3]] by simp
  ultimately have "slot_status (bus_region b3) i w3 = Some SLOT_FREE" using status_ops(1) ir by metis
  then show ?thesis using free r w calls verdict by blast
qed

section \<open>Instances\<close>

lemma ref_memory_available: "memory_available ref_externals ref_view"
  by (simp add: memory_available_def ref_externals_def ref_create_def ref_view_def Let_def)

text \<open>A call whose body is larger than the arena of the started bus, and the started bus.\<close>

definition large_call :: call where
  "large_call = demo_call\<lparr>cl_body := replicate 40 7\<rparr>"

lemma large_call_ok:
  "call_ok ref_externals large_call" "request_to_vec ref_externals (cl_meta large_call) = Inr (as_bytes ''/x'')"
  "cl_id large_call = ''a''" "length (cl_body large_call) = 40"
  using demo_call_ok by (simp_all add: large_call_def call_ok_def) (simp_all add: demo_call_def)

lemma ref_deletes_only: "deletes_only ref_externals ref_view"
  by (simp add: deletes_only_def binds_nothing_def ref_externals_def)

lemma overflow_name_free:
  assumes "bound ref_view w = [''slotbus-demo'' \<mapsto> seg]"
  shows "spare_name ref_view (request_overflow_name_gen Linux demo_config i) w"
proof -
  obtain name where n: "request_overflow_name_gen Linux demo_config i 0 = Some name"
    using demo_names(1) [of demo_config i] by (auto simp: names_total_def)
  moreover have "name \<noteq> ''slotbus-demo''" using n by (auto simp: name_defs overflow_name_def demo_config_def default_config_def)
  ultimately have "\<not> taken ref_view (request_overflow_name_gen Linux demo_config i) w 0" using assms by (simp add: taken_def)
  then show ?thesis unfolding spare_name_def by (intro exI [of _ 0]) simp
qed

lemma large_system:
  obtains \<sigma> where "started Linux ref_externals quiet_events demo_config ref_world \<sigma>"
    and "simulates ref_view Linux ref_externals initial \<sigma>" and "sy_threads \<sigma> = (\<lambda>_. None)" and "slots_of \<sigma> = 1"
    and "slot_indices (bus_region (sy_bus \<sigma>)) = [0]"
    and "publishable ref_view Linux ref_externals (sy_bus \<sigma>) 0 large_call (sy_world \<sigma>)"
    and "\<not> payload_fits (bus_region (sy_bus \<sigma>)) Req 0 (as_bytes ''/x'') (cl_body large_call)"
proof -
  obtain \<sigma> where S: "started Linux ref_externals quiet_events demo_config ref_world \<sigma>"
    "simulates ref_view Linux ref_externals initial \<sigma>" "sy_threads \<sigma> = (\<lambda>_. None)" "slots_of \<sigma> = 1"
    "slot_indices (bus_region (sy_bus \<sigma>)) = [0]" "arena (bus_region (sy_bus \<sigma>)) Req 0 = (0, 32)"
    "bound ref_view (sy_world \<sigma>) = [''slotbus-demo'' \<mapsto> 1]" "bus_config (sy_bus \<sigma>) = demo_config"
    "bus_overflow (sy_bus \<sigma>) = (\<lambda>_. None)" by (rule demo_system)
  have "publishable ref_view Linux ref_externals (sy_bus \<sigma>) 0 large_call (sy_world \<sigma>)"
    using large_call_ok overflow_name_free S(6-9) by (simp add: publishable_def as_bytes_def)
  moreover have "\<not> payload_fits (bus_region (sy_bus \<sigma>)) Req 0 (as_bytes ''/x'') (cl_body large_call)"
    using S(6) large_call_ok(4) by (auto simp: payload_fits_def inline_fits_def)
  ultimately show ?thesis using that S(1-5) by blast
qed

theorem any_size_is_written_witness:
  "\<exists>ovf w ovf' w'. write_request Linux ref_externals demo_region 0 ''a'' 1 (as_bytes ''/x'') (replicate 40 7) demo_config demo_world
      = Some (Inr (Some ovf), w)
    \<and> write_request Windows ref_externals demo_region 0 ''a'' 1 (as_bytes ''/x'') (replicate 40 7) demo_config demo_world
      = Some (Inr (Some ovf'), w')"
proof -
  let ?nf = "\<lambda>pl. request_overflow_name_gen pl demo_config 0"
  have same: "?nf Windows = ?nf Linux" by (simp add: fun_eq_iff request_overflow_name_gen_def)
  have "bound ref_view demo_world = [''slotbus-demo'' \<mapsto> 0]" by (auto simp: ref_defs demo_world_def demo_blank_def fun_eq_iff)
  then have free: "spare_name ref_view (?nf Linux) demo_world" by (rule overflow_name_free)
  have i: "unat (0 :: usize) < unat (r_num_slots demo_region)" by simp
  have l: "slice_len_ok (as_bytes ''/x'')" "slice_len_ok (replicate 40 (7 :: u8))" by (simp_all add: slice_len_ok_def as_bytes_def)
  have m: "length (as_bytes ''/x'') \<le> unat (snd (arena demo_region Req 0))"
    "\<not> inline_fits demo_region Req 0 (as_bytes ''/x'') (replicate 40 7)" using demo_arena by (simp_all add: inline_fits_def as_bytes_def)
  have w: "\<exists>ovf w. write_request pl ref_externals demo_region 0 ''a'' 1 (as_bytes ''/x'') (replicate 40 7) demo_config demo_world
      = Some (Inr (Some ovf), w)" if "?nf pl = ?nf Linux" for pl
    using any_size_is_written [OF ref_shmem_documented ref_memory_available _ demo_live i l, of pl demo_config "''a''" 1]
      ref_deletes_only free m demo_names(1) [of demo_config 0] that by fastforce
  show ?thesis using w [of Linux] w [OF same] by blast
qed

theorem accepted_call_settled_witness:
  "\<exists>(\<sigma> :: ref_os system) ch b1 w1 i k2 w2 b3 w3.
      bus_dispatch Linux ref_externals quiet_events ''a'' ''POST'' demo_request (replicate 40 7) (sy_bus \<sigma>, sy_world \<sigma>)
        = Some (Inr ch, b1, w1)
    \<and> receive_turn Linux ref_externals quiet_events (attempting Linux ref_externals quiet_events demo_answer) (sy_worker \<sigma>, w1)
        = Some (k2, w2)
    \<and> watch_turn Linux ref_externals quiet_events (b1, w2) = Some (b3, w3)
    \<and> slot_status (bus_region b3) i w3 = Some SLOT_FREE"
proof -
  obtain \<sigma> where S: "simulates ref_view Linux ref_externals initial \<sigma>" "sy_threads \<sigma> = (\<lambda>_. None)"
    "slot_indices (bus_region (sy_bus \<sigma>)) = [0]"
    "publishable ref_view Linux ref_externals (sy_bus \<sigma>) 0 large_call (sy_world \<sigma>)" by (rule large_system)
  have idle: "sy_threads \<sigma> 0 = None" using S(2) by simp
  have "find (\<lambda>i. sp_phase initial i = Free) (slot_indices (bus_region (sy_bus \<sigma>))) = Some 0" using S(3) by (simp add: initial_def)
  from large_dispatch_accepted [OF ref_shmem_documented ref_memory_available _ S(1) idle this S(4), where E = quiet_events]
  obtain ch b1 w1 where d: "bus_dispatch Linux ref_externals quiet_events (cl_id large_call) (cl_method large_call) (cl_meta large_call)
      (cl_body large_call) (sy_bus \<sigma>, sy_world \<sigma>) = Some (Inr ch, b1, w1)" by auto
  have r: "replies_ok ref_externals demo_answer (\<lambda>c'. c' = large_call \<or> (\<exists>j. sp_phase initial j = Ready c'))"
    using demo_response_vec large_call_ok(4)
    by (auto simp: replies_ok_def reply_ok_def demo_answer_def request_of_def decode_request_def initial_def)
  have u: "cl_id c' \<noteq> cl_id large_call" if "call_of (sp_phase initial j) = Some c'" for j c' using that by (simp add: initial_def)
  from accepted_call_settled [OF ref_shmem_documented ref_postcard_documented quiet_separate _ S(1) calm_simps(4) idle
      large_call_ok(1,2) r u d] d
  show ?thesis by (fastforce simp: large_call_def demo_call_def)
qed

end
