(* ===== verification/Orderly.thy ===== *)
theory Orderly
  imports Large
begin

text \<open>
  When is a body lost? An overflow region is kept in a map under the number of its slot, and the thread that
  enters or removes it may still be on its way when the slot is used again. In an orderly run a slot is claimed
  only after everybody who worked for its last call is done with the map. Nothing is ever lost then, whatever
  the size of the messages.
\<close>

section \<open>Orderly runs\<close>

text \<open>Nobody is still at work for the last call of slot \<open>i\<close>: no removal and no insertion is under way.\<close>

definition settled :: "'os system \<Rightarrow> usize \<Rightarrow> bool" where
  "settled \<sigma> i \<longleftrightarrow>
     (\<forall>req_id res. sy_watcher \<sigma> \<noteq> Released i req_id res)
   \<and> (\<forall>t c ovf. sy_threads \<sigma> t \<noteq> Some (Keeping i c ovf))
   \<and> (\<forall>t ovf. sy_threads \<sigma> t \<noteq> Some (Replying i ovf))"

inductive orderly_run ::
  "platform \<Rightarrow> 'os externals \<Rightarrow> 'os event_os \<Rightarrow> 'os system \<Rightarrow> event list \<Rightarrow> 'os system \<Rightarrow> bool"
  for pl :: platform and X :: "'os externals" and E :: "'os event_os" where
  orderly_start: "orderly_run pl X E \<sigma> [] \<sigma>"
| orderly_more: "orderly_run pl X E \<sigma> es \<tau> \<Longrightarrow> sys_step pl X E \<tau> e \<upsilon> \<Longrightarrow> (\<And>i. e = Claim i \<Longrightarrow> settled \<tau> i) \<Longrightarrow>
    orderly_run pl X E \<sigma> (es @ [e]) \<upsilon>"

inductive_cases orderly_run_snocE: "orderly_run pl X E \<sigma> (es @ [e]) \<upsilon>"

lemma orderly_is_run: "orderly_run pl X E \<sigma> es \<tau> \<Longrightarrow> sys_run pl X E \<sigma> es \<tau>"
  by (induction rule: orderly_run.induct) (auto intro: sys_run.intros)

lemma orderly_run_prefix: "orderly_run pl X E \<sigma> (es @ fs) \<upsilon> \<Longrightarrow> \<exists>\<tau>. orderly_run pl X E \<sigma> es \<tau>"
proof (induction fs arbitrary: \<upsilon> rule: rev_induct)
  case (snoc f fs)
  then show ?case by (metis append.assoc orderly_run_snocE)
qed auto

text \<open>A run that claims a slot once, at its start, is orderly.\<close>

lemma orderly_without_claims:
  "sys_run pl X E \<tau> fs \<upsilon> \<Longrightarrow> orderly_run pl X E \<sigma> es \<tau> \<Longrightarrow> \<forall>i. Claim i \<notin> set fs \<Longrightarrow> orderly_run pl X E \<sigma> (es @ fs) \<upsilon>"
proof (induction rule: sys_run.induct)
  case (sys_more \<tau> fs \<tau>' e \<upsilon>)
  then have "orderly_run pl X E \<sigma> (es @ fs) \<tau>'" "\<And>i. e = Claim i \<Longrightarrow> settled \<tau>' i" by auto
  from orderly_more [OF this(1) sys_more.hyps(2) this(2)] show ?case by simp
qed simp

section \<open>The invariant\<close>

text \<open>
  The map entry a thread is about to replace: after its removal of the old entry and until its insertion of the
  new one.
\<close>

fun replaces :: "activity \<Rightarrow> (side \<times> usize) option" where
  "replaces (Cleared i c) = Some (Req, i)"
| "replaces (Keeping i c ovf) = Some (Req, i)"
| "replaces (Answering i p) = Some (Resp, i)"
| "replaces (Replying i ovf) = Some (Resp, i)"
| "replaces (Filling i c) = None"
| "replaces (Registering c) = None"
| "replaces (Reading i) = None"
| "replaces (Handling i rq) = None"

text \<open>The phases in which a thread that has published may still be on its way to the map.\<close>

fun timely :: "activity \<Rightarrow> (usize \<Rightarrow> phase) \<Rightarrow> bool" where
  "timely (Keeping i c ovf) ph = (ph i \<noteq> Writing)"
| "timely (Replying i ovf) ph = (ph i = Free \<or> (\<exists>c p. ph i = Done c p))"
| "timely a ph = True"

fun entry :: "'os system \<Rightarrow> side \<Rightarrow> usize \<Rightarrow> shm_region option" where
  "entry \<sigma> Req i = bus_overflow (sy_bus \<sigma>) i"
| "entry \<sigma> Resp i = wk_overflow (sy_worker \<sigma>) i"

lemma entry_updates [simp]:
  "entry (\<sigma>\<lparr>sy_threads := th\<rparr>) s i = entry \<sigma> s i" "entry (\<sigma>\<lparr>sy_watcher := wt\<rparr>) s i = entry \<sigma> s i"
  "entry (\<sigma>\<lparr>sy_world := w\<rparr>) s i = entry \<sigma> s i"
  by (cases s; simp)+

lemma entry_changes:
  "entry (\<sigma>\<lparr>sy_bus := (sy_bus \<sigma>)\<lparr>bus_overflow := (bus_overflow (sy_bus \<sigma>))(i := v)\<rparr>\<rparr>) s j
    = (if s = Req \<and> j = i then v else entry \<sigma> s j)"
  "entry (\<sigma>\<lparr>sy_worker := (sy_worker \<sigma>)\<lparr>wk_overflow := (wk_overflow (sy_worker \<sigma>))(i := v)\<rparr>\<rparr>) s j
    = (if s = Resp \<and> j = i then v else entry \<sigma> s j)"
  "bus_overflow b = bus_overflow (sy_bus \<sigma>) \<Longrightarrow> entry (\<sigma>\<lparr>sy_bus := b\<rparr>) s j = entry \<sigma> s j"
  by (cases s; simp)+

definition orderly :: "spec \<Rightarrow> 'os system \<Rightarrow> bool" where
  "orderly S \<sigma> \<longleftrightarrow>
     (\<forall>i req_id res. sy_watcher \<sigma> = Released i req_id res \<longrightarrow> sp_phase S i = Free)
   \<and> (\<forall>t a. sy_threads \<sigma> t = Some a \<longrightarrow> timely a (sp_phase S)
        \<and> (\<forall>s i. replaces a = Some (s, i) \<longrightarrow> entry \<sigma> s i = None))
   \<and> (\<forall>t u a b. sy_threads \<sigma> t = Some a \<longrightarrow> sy_threads \<sigma> u = Some b \<longrightarrow> replaces a \<noteq> None \<longrightarrow>
        replaces a = replaces b \<longrightarrow> t = u)"

lemma orderlyD:
  assumes "orderly S \<sigma>"
  shows "sy_watcher \<sigma> = Released i req_id res \<Longrightarrow> sp_phase S i = Free"
    and "sy_threads \<sigma> t = Some a \<Longrightarrow> timely a (sp_phase S)"
    and "sy_threads \<sigma> t = Some a \<Longrightarrow> replaces a = Some (s, i) \<Longrightarrow> entry \<sigma> s i = None"
    and "sy_threads \<sigma> t = Some a \<Longrightarrow> sy_threads \<sigma> u = Some b \<Longrightarrow> replaces a = Some x \<Longrightarrow> replaces b = Some x \<Longrightarrow> t = u"
  using assms unfolding orderly_def by (blast, blast, blast, metis option.distinct(1))

text \<open>An orderly state drops no region that matters.\<close>

lemma orderly_drops:
  assumes sim: "simulates V pl X S \<sigma>" and ord: "orderly S \<sigma>" and step: "sys_step pl X E \<sigma> (Drop s i) \<sigma>'"
  shows "\<not> carries s (sp_phase S i)"
  using step
proof cases
  case (clear t j c mb b w)
  then have "sp_phase S i = Writing" "s = Req"
    using thread_facts(1) [OF sim clear(3)] by (auto simp: activity_ok_def dropped_def split: if_splits)
  then show ?thesis by simp
next
  case (keep t j c ovf b w)
  have "bus_overflow (sy_bus \<sigma>) j = None" using orderlyD(3) [OF ord keep(3)] by simp
  then show ?thesis using keep(1) by (auto simp: replaced_def dropped_def split: if_splits)
next
  case (empty t j rq p mb k w)
  then have "\<exists>c. sp_phase S i = Claimed c" "s = Resp"
    using thread_facts(1) [OF sim empty(3)] by (auto simp: activity_ok_def dropped_def split: if_splits)
  then show ?thesis by auto
next
  case (store t j ovf k w)
  have "wk_overflow (sy_worker \<sigma>) j = None" using orderlyD(3) [OF ord store(3)] by simp
  then show ?thesis using store(1) by (auto simp: replaced_def dropped_def split: if_splits)
next
  case (forget j req_id res b w)
  then have "sp_phase S i = Free" "s = Req"
    using orderlyD(1) [OF ord forget(3)] by (auto simp: dropped_def split: if_splits)
  then show ?thesis by simp
qed

text \<open>One thread moves on; the others stay as they are.\<close>

lemma orderly_moves:
  assumes ord: "orderly S \<sigma>" and th: "sy_threads \<sigma>' = (sy_threads \<sigma>)(t := a)"
    and watch: "\<And>i req_id res. sy_watcher \<sigma>' = Released i req_id res \<Longrightarrow> sp_phase S' i = Free"
    and self: "\<And>b. a = Some b \<Longrightarrow> timely b (sp_phase S')"
      "\<And>b s i. a = Some b \<Longrightarrow> replaces b = Some (s, i) \<Longrightarrow> entry \<sigma>' s i = None"
      "\<And>b s i u c. a = Some b \<Longrightarrow> replaces b = Some (s, i) \<Longrightarrow> u \<noteq> t \<Longrightarrow> sy_threads \<sigma> u = Some c \<Longrightarrow> replaces c \<noteq> Some (s, i)"
    and others: "\<And>u b. u \<noteq> t \<Longrightarrow> sy_threads \<sigma> u = Some b \<Longrightarrow> timely b (sp_phase S')"
    and maps: "\<And>s i u b. entry \<sigma>' s i \<noteq> None \<Longrightarrow> u \<noteq> t \<Longrightarrow> sy_threads \<sigma> u = Some b \<Longrightarrow> replaces b = Some (s, i) \<Longrightarrow>
        entry \<sigma> s i \<noteq> None"
  shows "orderly S' \<sigma>'"
  unfolding orderly_def
proof (intro conjI allI impI)
  fix u v b c
  assume b: "sy_threads \<sigma>' u = Some b" and c: "sy_threads \<sigma>' v = Some c" and r: "replaces b \<noteq> None" "replaces b = replaces c"
  then obtain s i where x: "replaces b = Some (s, i)" "replaces c = Some (s, i)" by auto
  show "u = v"
  proof (rule ccontr)
    assume "u \<noteq> v"
    then show False
      using b c x th self(3) [of b s i v c] self(3) [of c s i u b] orderlyD(4) [OF ord, of u b v c]
      by (auto split: if_splits)
  qed
qed (use th watch self(1,2) others maps orderlyD(3) [OF ord] in \<open>fastforce split: if_splits\<close>)+

lemma orderly_stays:
  assumes ord: "orderly S \<sigma>" and th: "sy_threads \<sigma>' = sy_threads \<sigma>"
    and watch: "\<And>i req_id res. sy_watcher \<sigma>' = Released i req_id res \<Longrightarrow> sp_phase S' i = Free"
    and time: "\<And>u b. sy_threads \<sigma> u = Some b \<Longrightarrow> timely b (sp_phase S')"
    and maps: "\<And>s i. entry \<sigma>' s i \<noteq> None \<Longrightarrow> entry \<sigma> s i \<noteq> None"
  shows "orderly S' \<sigma>'"
proof (intro orderly_moves [OF ord, where t = 0 and a = "sy_threads \<sigma> 0"])
  show "entry \<sigma>' s i = None" if "sy_threads \<sigma> 0 = Some b" "replaces b = Some (s, i)" for b s i
    using maps [of s i] orderlyD(3) [OF ord that] by blast
  show "replaces c \<noteq> Some (s, i)"
    if "sy_threads \<sigma> 0 = Some b" "replaces b = Some (s, i)" "u \<noteq> 0" "sy_threads \<sigma> u = Some c" for b s i u c
    using orderlyD(4) [OF ord that(1,4,2)] that(3) by blast
qed (use th watch time maps in simp_all)

lemma timely_update:
  assumes "timely b ph" and "p = Free \<or> (\<exists>c q. p = Done c q) \<or> (p \<noteq> Writing \<and> ph i \<noteq> Free \<and> (\<forall>c q. ph i \<noteq> Done c q))"
  shows "timely b (ph(i := p))"
  using assms by (cases b) auto

text \<open>What the events make of the phases.\<close>

lemma phases_after:
  shows "spec_step S (Claim i) S' \<Longrightarrow> sp_phase S' = (sp_phase S)(i := Writing)"
    and "spec_step S (Publish i c) S' \<Longrightarrow> sp_phase S i = Writing \<and> sp_phase S' = (sp_phase S)(i := Ready c)"
    and "spec_step S (Take i) S' \<Longrightarrow> \<exists>c. sp_phase S i = Ready c \<and> sp_phase S' = (sp_phase S)(i := Claimed c)"
    and "spec_step S (Reply i p) S' \<Longrightarrow> \<exists>c. sp_phase S i = Claimed c \<and> sp_phase S' = (sp_phase S)(i := Done c p)"
    and "spec_step S e S' \<Longrightarrow> e \<in> {Abort i, Unread i, Refuse i, Release i} \<Longrightarrow> sp_phase S' = (sp_phase S)(i := Free)"
    and "spec_step S e S' \<Longrightarrow> phase_change e = None \<Longrightarrow> sp_phase S' = sp_phase S"
  by (auto elim!: spec_step.cases simp: set_phase_def put_message_def lose_def)

lemma drops_change_no_phase [simp]:
  "phase_change (dropped s i ovf) = None" "phase_change (replaced new s i ovf) = None"
  by (simp_all add: dropped_def replaced_def)

lemma orderly_step:
  assumes sim: "simulates V pl X S \<sigma>" and ord: "orderly S \<sigma>"
    and step: "sys_step pl X E \<sigma> e \<sigma>'" and spec: "spec_step S e S'" and free: "\<And>i. e = Claim i \<Longrightarrow> settled \<sigma> i"
  shows "orderly S' \<sigma>'"
proof -
  note O = orderlyD [OF ord] and P = phases_after [where S = S and S' = S']
  note F = thread_facts(1) [OF sim]
  note self = orderly_moves [OF ord, where t = t and a = "sy_threads \<sigma> t" for t]
  note sole = owner_alone [OF simulatesD(6) [OF sim], unfolded nobody_else_def, rule_format]
  have still: "timely b (sp_phase S')" if "sp_phase S' = sp_phase S" "sy_threads \<sigma> u = Some b" for u b
    using that O(2) by simp
  have freed: "timely b (sp_phase S')" if "sp_phase S' = (sp_phase S)(i := Free)" "sy_threads \<sigma> u = Some b" for u b i
    using timely_update O(2) that by simp
  show ?thesis
    using step
  proof cases
    case (claim t i c old w)
    have ph: "sp_phase S' = (sp_phase S)(i := Writing)" using P(1) spec claim(1) by simp
    have st: "settled \<sigma> i" using free claim(1) by simp
    have "timely b (sp_phase S')" if "sy_threads \<sigma> u = Some b" for u b
      using O(2) [OF that] st that ph by (cases b) (auto simp: settled_def)
    then show ?thesis
      by (intro orderly_moves [OF ord, where t = t and a = "Some (Filling i c)"])
        (use claim(2) st ph O(1) in \<open>auto simp: settled_def\<close>)
  next
    case (unserialisable t i c pe)
    have ph: "sp_phase S' = sp_phase S" using P(6) spec unserialisable(1) by simp
    show ?thesis
      by (intro orderly_moves [OF ord, where t = t and a = None]) (use unserialisable(2) ph O(1) still in auto)
  next
    case (clear t i c mb b w)
    have ph: "sp_phase S' = sp_phase S" using P(6) spec clear(1) by simp
    have wr: "sp_phase S i = Writing" using F [OF clear(3)] by (simp add: activity_ok_def)
    have alone: "replaces d \<noteq> Some (Req, i)" if "u \<noteq> t" "sy_threads \<sigma> u = Some d" for u d
      using O(2) [OF that(2)] sole [OF clear(3) _ that] wr by (cases d) auto
    show ?thesis
      by (intro orderly_moves [OF ord, where t = t and a = "Some (Cleared i c)"])
        (use clear(2,5) ph O(1) still alone in \<open>auto simp: bus_forget_def entry_changes split: if_splits\<close>)
  next
    case (publish t i c mb ovf w)
    have ph: "sp_phase S i = Writing" "sp_phase S' = (sp_phase S)(i := Ready c)" using P(2) spec publish(1) by simp_all
    have all: "timely b (sp_phase S')" if "sy_threads \<sigma> u = Some b" for u b
      using timely_update O(2) [OF that] ph by simp
    have "sp_phase S' j = Free" if "sy_watcher \<sigma> = Released j req_id res" for j req_id res
      using O(1) [OF that] ph by auto
    then show ?thesis
      by (intro orderly_moves [OF ord, where t = t and a = "Some (Keeping i c ovf)"])
        (use publish(2) ph all O(3) [OF publish(3)] O(4) [OF publish(3)] in \<open>auto\<close>)
  next
    case (abort t i c mb e w)
    have ph: "sp_phase S' = (sp_phase S)(i := Free)" using P(5) spec abort(1) by simp
    show ?thesis
      by (intro orderly_moves [OF ord, where t = t and a = None]) (use abort(2) ph O(1) freed in auto)
  next
    case (keep t i c ovf b w)
    have ph: "sp_phase S' = sp_phase S" using P(6) spec keep(1) by simp
    show ?thesis
      by (intro orderly_moves [OF ord, where t = t and a = "Some (Registering c)"])
        (use keep(2,4) ph O(1) still O(4) [OF keep(3)] in \<open>auto simp: bus_keep_def entry_changes split: if_splits option.splits\<close>)
  next
    case (register t c ch b w)
    have ph: "sp_phase S' = sp_phase S" using P(6) spec register(1) by simp
    show ?thesis
      by (intro orderly_moves [OF ord, where t = t and a = None])
        (use register(2,4) ph O(1) still in \<open>auto simp: dispatch_register_def Let_def entry_changes\<close>)
  next
    case (take t i old w)
    obtain c where ph: "sp_phase S i = Ready c" "sp_phase S' = (sp_phase S)(i := Claimed c)"
      using P(3) spec take(1) by blast
    have all: "timely b (sp_phase S')" if "sy_threads \<sigma> u = Some b" for u b
      using timely_update O(2) [OF that] ph by simp
    have "sp_phase S' j = Free" if "sy_watcher \<sigma> = Released j req_id res" for j req_id res
      using O(1) [OF that] ph by auto
    then show ?thesis
      by (intro orderly_moves [OF ord, where t = t and a = "Some (Reading i)"]) (use take(2) all in auto)
  next
    case (deliver t i req_id m meta body w)
    have ph: "sp_phase S' = sp_phase S" using P(6) spec deliver(1) by simp
    show ?thesis
      by (intro orderly_moves [OF ord, where t = t and a = "Some (Handling i (decode_request req_id m meta body))"])
        (use deliver(2) ph O(1) still in auto)
  next
    case (unreadable t i e w1 w)
    have ph: "sp_phase S' = (sp_phase S)(i := Free)" using P(5) spec unreadable(1) by simp
    show ?thesis
      by (intro orderly_moves [OF ord, where t = t and a = None]) (use unreadable(2) ph O(1) freed in auto)
  next
    case (unanswerable t i rq p pe)
    have ph: "sp_phase S' = sp_phase S" using P(6) spec unanswerable(1) by simp
    show ?thesis
      by (intro orderly_moves [OF ord, where t = t and a = None]) (use unanswerable(2) ph O(1) still in auto)
  next
    case (empty t i rq p mb k w)
    have ph: "sp_phase S' = sp_phase S" using P(6) spec empty(1) by simp
    have cl: "\<exists>c. sp_phase S i = Claimed c" using F [OF empty(3)] by (auto simp: activity_ok_def)
    have alone: "replaces d \<noteq> Some (Resp, i)" if "u \<noteq> t" "sy_threads \<sigma> u = Some d" for u d
      using O(2) [OF that(2)] sole [OF empty(3) _ that] cl by (cases d) auto
    show ?thesis
      by (intro orderly_moves [OF ord, where t = t and a = "Some (Answering i p)"])
        (use empty(2,6) ph O(1) still alone in \<open>auto simp: worker_forget_def entry_changes split: if_splits\<close>)
  next
    case (reply t i p mb ovf w)
    obtain c where ph: "sp_phase S i = Claimed c" "sp_phase S' = (sp_phase S)(i := Done c p)"
      using P(4) spec reply(1) by blast
    have all: "timely b (sp_phase S')" if "sy_threads \<sigma> u = Some b" for u b
      using timely_update O(2) [OF that] ph by simp
    have "sp_phase S' j = Free" if "sy_watcher \<sigma> = Released j req_id res" for j req_id res
      using O(1) [OF that] ph by auto
    then show ?thesis
      by (intro orderly_moves [OF ord, where t = t and a = "Some (Replying i ovf)"])
        (use reply(2) ph all O(3) [OF reply(3)] O(4) [OF reply(3)] in auto)
  next
    case (refuse t i p mb e w1 w)
    have ph: "sp_phase S' = (sp_phase S)(i := Free)" using P(5) spec refuse(1) by simp
    show ?thesis
      by (intro orderly_moves [OF ord, where t = t and a = None]) (use refuse(2) ph O(1) freed in auto)
  next
    case (store t i ovf k w)
    have ph: "sp_phase S' = sp_phase S" using P(6) spec store(1) by simp
    show ?thesis
      by (intro orderly_moves [OF ord, where t = t and a = None])
        (use store(2,4) ph O(1) still O(4) [OF store(3)] in \<open>auto simp: worker_keep_def entry_changes split: if_splits option.splits\<close>)
  next
    case (release i req_id res w)
    have ph: "sp_phase S' = (sp_phase S)(i := Free)" using P(5) spec release(1) by simp
    show ?thesis by (intro orderly_stays [OF ord]) (use release(2) ph freed in auto)
  next
    case (skip i w)
    have ph: "sp_phase S' = sp_phase S" using P(6) spec skip(1) by simp
    show ?thesis by (intro orderly_stays [OF ord]) (use skip(2) ph O(1) still in auto)
  next
    case (forget i req_id res b w)
    have ph: "sp_phase S' = sp_phase S" using P(6) spec forget(1) by simp
    show ?thesis
      by (intro orderly_stays [OF ord])
        (use forget(2,4) ph still in \<open>auto simp: bus_forget_def entry_changes split: if_splits\<close>)
  next
    case (resolve req_id res calls)
    have ph: "sp_phase S' = sp_phase S" using P(6) spec resolve(1) by simp
    have "bus_overflow (watch_send req_id res (sy_bus \<sigma>)) = bus_overflow (sy_bus \<sigma>)"
      by (simp add: watch_send_def split: sum.split prod.split option.split)
    then show ?thesis
      by (intro orderly_stays [OF ord]) (use resolve(2) ph still in \<open>auto simp: entry_changes\<close>)
  next
    case (wait ev ms woken w)
    have ph: "sp_phase S' = sp_phase S" using P(6) spec wait(1) by simp
    show ?thesis by (intro orderly_stays [OF ord]) (use wait(2) ph O(1) still in auto)
  qed
qed

section \<open>Nothing is lost\<close>

text \<open>In an orderly run no region has been dropped while its message can still be read.\<close>

definition bodies_kept :: "event list \<Rightarrow> spec \<Rightarrow> bool" where
  "bodies_kept es S \<longleftrightarrow> (\<forall>s i. carries s (sp_phase S i) \<longrightarrow> \<not> body_dropped s i es)"

lemma bodies_kept_step:
  assumes "spec_step S e S'" and "bodies_kept es S" and "\<And>s i. e = Drop s i \<Longrightarrow> \<not> carries s (sp_phase S i)"
  shows "bodies_kept (es @ [e]) S'"
  by (rule spec_step.cases [OF assms(1)])
    (use assms(2,3) in \<open>auto simp: bodies_kept_def carries_cases body_dropped_snoc set_phase_def put_message_def lose_def split: if_splits\<close>)

lemma orderly_run_kept:
  assumes "orderly_run pl X E \<sigma> es \<sigma>'" and doc: "shmem_documented X V" "postcard_documented X" "events_separate E V"
    and "started pl X E c w \<sigma>"
  shows "\<exists>S. spec_run initial es S \<and> simulates V pl X S \<sigma>' \<and> orderly S \<sigma>' \<and> bodies_kept es S"
  using assms(1,5)
proof (induction rule: orderly_run.induct)
  case (orderly_start \<sigma>)
  obtain S where S: "spec_run initial [] S" "simulates V pl X S \<sigma>" by (rule started_run [OF doc orderly_start sys_start])
  have "sy_threads \<sigma> = (\<lambda>_. None)" "sy_watcher \<sigma> = Scanning" using orderly_start by (auto simp: started_def start_system_def)
  then have "orderly S \<sigma>" by (simp add: orderly_def)
  moreover have "bodies_kept [] S" by (simp add: bodies_kept_def body_dropped_def since_written_def)
  ultimately show ?case using S by blast
next
  case (orderly_more \<sigma> es \<tau> e \<upsilon>)
  then obtain S where S: "spec_run initial es S" "simulates V pl X S \<tau>" "orderly S \<tau>" "bodies_kept es S" by blast
  obtain S' where S': "spec_step S e S'" "simulates V pl X S' \<upsilon>"
    using system_step_simulated [OF doc S(2) orderly_more.hyps(2)] by blast
  have "orderly S' \<upsilon>" by (rule orderly_step [OF S(2,3) orderly_more.hyps(2) S'(1) orderly_more.hyps(3)])
  moreover have "bodies_kept (es @ [e]) S'"
    using orderly_drops [OF S(2,3)] orderly_more.hyps(2) by (blast intro: bodies_kept_step [OF S'(1) S(4)])
  ultimately show ?case using spec_more [OF S(1) S'(1)] S'(2) by blast
qed

text \<open>
  C8: messages of any size arrive whole in orderly runs. A slot may only be claimed again when the watcher has
  removed the region of its last call and no thread that published there has still to enter its region into the map.
  Then, whatever the sizes and however else the threads interleave, no request is found unreadable,
  every handler is given exactly the request published in its slot, and a caller is answered with exactly the
  reply to its own request. (The theory \<open>Hazards\<close> shows what happens otherwise.)
\<close>

theorem orderly_messages_intact:
  assumes "shmem_documented X V" and "postcard_documented X" and "events_separate E V"
    and "started pl X E c w \<sigma>" and "orderly_run pl X E \<sigma> es \<sigma>'"
  shows "messages_intact es"
proof (intro undropped_intact [OF assms(1-4) orderly_is_run [OF assms(5)]])
  have upto: "\<exists>S S'. spec_run initial pre S \<and> bodies_kept pre S \<and> spec_step S e S'" if "es = pre @ e # post" for pre e post
  proof -
    obtain \<tau> where "orderly_run pl X E \<sigma> (pre @ [e]) \<tau>"
      using orderly_run_prefix [of pl X E \<sigma> "pre @ [e]" post \<sigma>'] assms(5) \<open>es = pre @ e # post\<close> by auto
    then obtain \<upsilon> where u: "orderly_run pl X E \<sigma> pre \<upsilon>" "sys_step pl X E \<upsilon> e \<tau>" by (auto elim: orderly_run_snocE)
    obtain S where S: "spec_run initial pre S" "simulates V pl X S \<upsilon>" "bodies_kept pre S"
      using orderly_run_kept [OF u(1) assms(1-4)] by blast
    then show ?thesis using system_step_simulated [OF assms(1-3) S(2) u(2)] by blast
  qed
  show "\<not> body_dropped Req i pre" if "es = pre @ e # post" "e = Unread i \<or> (\<exists>rq. e = Deliver i rq)" for pre e i post
  proof -
    from upto [OF that(1)] obtain S S' where S: "bodies_kept pre S" "spec_step S e S'" by blast
    then have "carries Req (sp_phase S i)" using that(2) by (auto elim: spec_step.cases simp: carries_cases)
    then show ?thesis using S(1) by (simp add: bodies_kept_def)
  qed
  show "\<not> body_dropped Resp i pre" if "es = pre @ Release i # post" for pre i post
  proof -
    from upto [OF that] obtain S S' where S: "bodies_kept pre S" "spec_step S (Release i) S'" by blast
    then have "carries Resp (sp_phase S i)" by (auto elim: spec_releaseE simp: carries_cases)
    then show ?thesis using S(1) by (simp add: bodies_kept_def)
  qed
qed

text \<open>The orderly run of a large call: its body arrives whole although it does not fit.\<close>

theorem orderly_messages_intact_witness:
  "\<exists>\<sigma> ch \<upsilon>. started Linux ref_externals quiet_events demo_config ref_world \<sigma>
    \<and> \<not> payload_fits (bus_region (sy_bus \<sigma>)) Req 0 (as_bytes ''/x'') (cl_body large_call)
    \<and> orderly_run Linux ref_externals quiet_events \<sigma> [Claim 0, Idle, Publish 0 large_call, Idle, Register ''a'' ch, Take 0,
        Deliver 0 (request_of large_call)] \<upsilon>
    \<and> messages_intact [Claim 0, Idle, Publish 0 large_call, Idle, Register ''a'' ch, Take 0, Deliver 0 (request_of large_call)]"
proof -
  note doc = ref_shmem_documented ref_postcard_documented quiet_separate
  obtain \<sigma> where S: "started Linux ref_externals quiet_events demo_config ref_world \<sigma>"
    "simulates ref_view Linux ref_externals initial \<sigma>" "sy_threads \<sigma> = (\<lambda>_. None)" "slots_of \<sigma> = 1"
    "publishable ref_view Linux ref_externals (sy_bus \<sigma>) 0 large_call (sy_world \<sigma>)"
    "\<not> payload_fits (bus_region (sy_bus \<sigma>)) Req 0 (as_bytes ''/x'') (cl_body large_call)" by (rule large_system)
  have f: "sy_threads \<sigma> 0 = None" "unat (0 :: usize) < slots_of \<sigma>" "sp_phase initial 0 = Free"
    using S(3,4) by (simp_all add: initial_def)
  obtain ch b w where r1: "sys_run Linux ref_externals quiet_events \<sigma> [Claim 0, Idle, Publish 0 large_call, Idle, Register ''a'' ch]
      (\<sigma>\<lparr>sy_bus := b, sy_world := w\<rparr>)" and b: "bus_region b = bus_region (sy_bus \<sigma>)"
    and m1: "simulates ref_view Linux ref_externals (register_call 0 large_call ch initial) (\<sigma>\<lparr>sy_bus := b, sy_world := w\<rparr>)"
    using large_dispatch_steps [OF doc(1) ref_memory_available quiet_separate _ S(2) f S(5)] large_call_ok(3) by auto
  let ?\<sigma>1 = "\<sigma>\<lparr>sy_bus := b, sy_world := w\<rparr>" and ?S1 = "register_call 0 large_call ch initial"
  have g: "sy_threads ?\<sigma>1 0 = None" "unat (0 :: usize) < slots_of ?\<sigma>1" "sp_phase ?S1 0 = Ready large_call"
    using f b by (simp_all add: slots_of_def)
  obtain \<sigma>2 where s2: "sys_step Linux ref_externals quiet_events ?\<sigma>1 (Take 0) \<sigma>2"
    and m2: "simulates ref_view Linux ref_externals (set_phase 0 (Claimed large_call) ?S1) \<sigma>2" and t2: "sy_threads \<sigma>2 0 = Some (Reading 0)"
    using take_enabled [where E = quiet_events, OF doc(1) m1 g] by auto
  have c2: "sp_phase (set_phase 0 (Claimed large_call) ?S1) 0 = Claimed large_call" "\<not> sp_lost (set_phase 0 (Claimed large_call) ?S1) 0"
    by (simp_all add: set_phase_def register_call_def put_message_def)
  obtain \<upsilon> where s3: "sys_step Linux ref_externals quiet_events \<sigma>2 (Deliver 0 (request_of large_call)) \<upsilon>"
    using deliver_enabled [where E = quiet_events, OF doc(1,2) m2 t2 c2] by blast
  let ?es = "[Claim 0, Idle, Publish 0 large_call, Idle, Register ''a'' ch, Take 0, Deliver 0 (request_of large_call)]"
  have "sys_run Linux ref_externals quiet_events \<sigma> ([Claim 0] @ tl ?es) \<upsilon>" using sys_more [OF sys_more [OF r1 s2] s3] by simp
  from sys_run_split [OF this] obtain \<tau> where first: "sys_run Linux ref_externals quiet_events \<sigma> ([] @ [Claim 0]) \<tau>"
    and rest: "sys_run Linux ref_externals quiet_events \<tau> (tl ?es) \<upsilon>" by auto
  obtain \<sigma>0 where z: "sys_run Linux ref_externals quiet_events \<sigma> [] \<sigma>0" "sys_step Linux ref_externals quiet_events \<sigma>0 (Claim 0) \<tau>"
    using first by (rule sys_run_snocE)
  have "\<sigma>0 = \<sigma>" using z(1) by cases simp_all
  moreover have "settled \<sigma> i" for i using S(1) by (auto simp: settled_def started_def start_system_def)
  ultimately have "orderly_run Linux ref_externals quiet_events \<sigma> [Claim 0] \<tau>"
    using orderly_more [OF orderly_start, of Linux ref_externals quiet_events \<sigma> "Claim 0" \<tau>] z(2) by simp
  from orderly_without_claims [OF rest this] have run: "orderly_run Linux ref_externals quiet_events \<sigma> ?es \<upsilon>" by simp
  with orderly_messages_intact [OF doc S(1) run] S(1,6) show ?thesis by blast
qed

end
