(* ===== verification/Losses.thy ===== *)
theory Losses
  imports Orderly
begin

text \<open>
  What a run that is not orderly can lose: the watcher frees a slot before it removes the slot's overflow region, and a call
  that is dispatched in between is lost.
\<close>

text \<open>
  The owner's drop deletes the name of the mapping (\<^verbatim>\<open>shared_memory\<close> unlinks it), and no drop makes a name, as far as
  the views tell.
\<close>

definition names_deleted :: "'os externals \<Rightarrow> 'os shm_view \<Rightarrow> bool" where
  "names_deleted X V \<longleftrightarrow>
     (\<forall>h w name. shm_owner h \<longrightarrow> bound V (shmem_drop X h w) name \<noteq> Some (shm_seg h))
   \<and> (\<forall>h w. binds_nothing V w (shmem_drop X h w))"

lemma dropped_name_free:
  assumes "shmem_documented X V" and "names_deleted X V" and "overflow_holds V name body r w"
  shows "bound V (region_drop X r w) name = None"
proof (cases "bound V (region_drop X r w) name")
  case (Some s)
  have o: "bound V w name = Some (r_ptr r)" "shm_seg (r_shmem r) = r_ptr r" "shm_owner (r_shmem r)"
    using assms(3) by (simp_all add: overflow_holds_def)
  then have "s \<noteq> r_ptr r" using assms(2) Some by (auto simp: names_deleted_def region_drop_def)
  then have "bound V w name = Some s" using drop_bound [OF assms(1), of s "r_shmem r" w name] o Some by (simp add: region_drop_def)
  then show ?thesis using o \<open>s \<noteq> r_ptr r\<close> by simp
qed

lemma open_unbound:
  assumes "shmem_documented X V" and "bound V w name = None"
  obtains e where "shmem_open X name w = (Inl e, w)"
proof (cases "shmem_open X name w")
  case (Pair res w')
  then show ?thesis
  proof (cases res)
    case (Inl e)
    then show ?thesis using open_err(1) [OF assms(1)] Pair that by fastforce
  next
    case (Inr h)
    then show ?thesis using open_ok(1) [OF assms(1)] Pair assms(2) by fastforce
  qed
qed

text \<open>A request whose body is in an overflow region that nobody can open any more.\<close>

definition orphaned :: "'os shm_view \<Rightarrow> platform \<Rightarrow> config \<Rightarrow> shm_region \<Rightarrow> usize \<Rightarrow> 'os world \<Rightarrow> bool" where
  "orphaned V pl cfg r i w \<longleftrightarrow>
     get_u32 (fields_at Req i + 12) (mem w (r_ptr r)) \<noteq> 0
   \<and> (\<exists>g name. g \<le> MAX_OVERFLOW_GENERATION \<and> get_u8 (fields_at Req i + 16) (mem w (r_ptr r)) = g + 1
        \<and> request_overflow_name_gen pl cfg i g = Some name \<and> bound V w name = None)"

lemma read_request_orphaned:
  assumes doc: "shmem_documented X V" "postcard_documented X" and cr: "control_region r w" and i: "unat i < unat (r_num_slots r)"
    and vec: "request_to_vec X (cl_meta c) = Inr mb" and hd: "request_head r i c mb w" and gone: "orphaned V pl cfg r i w"
  shows "\<exists>e. read_request pl X r i cfg w = Some (Inl e, w)"
proof -
  let ?n = "get_u32 (fields_at Req i + 12) (mem w (r_ptr r))" and ?m = "get_u8 (fields_at Req i + 16) (mem w (r_ptr r))"
  have h: "meta_stored r Req i mb w" "length mb < 2 ^ 16" using hd by (simp_all add: request_head_def)
  have "request_from_bytes X mb = Inr (cl_meta c)" using doc(2) vec by (simp add: postcard_documented_def)
  moreover obtain g name where g: "g \<le> MAX_OVERFLOW_GENERATION" "?m = g + 1" "request_overflow_name_gen pl cfg i g = Some name"
    "bound V w name = None" and n: "?n \<noteq> 0" using gone by (auto simp: orphaned_def)
  obtain e where op: "shmem_open X name w = (Inl e, w)" using open_unbound [OF doc(1) g(4)] .
  have "unat (ucast ?n :: usize) = unat ?n" by (rule unat_widen(1))
  then have "(ucast ?n :: usize) \<noteq> 0" using n by (metis unat_0 unat_eq_zero)
  then have "\<exists>e. read_body X r (request_overflow_name_gen pl cfg i) off ?n ?m w = Some (Inl e, w)" for off
    using g(1-3) op by (auto simp: read_body_def overflow_generation_plus1 read_overflow_def region_open_def)
  then obtain e where "read_body X r (request_overflow_name_gen pl cfg i) (get_u32 (fields_at Req i + 8) (mem w (r_ptr r))) ?n ?m w
    = Some (Inl e, w)" by blast
  ultimately show ?thesis
    by (simp add: read_request_eq [OF cr i] heap_read_meta [OF cr i h] req_fields [OF cr i] Let_def and_then_def)
qed

text \<open>Dropping the region of a stored request makes it one; a change of the status word does not matter to it.\<close>

lemma drop_orphans:
  assumes doc: "shmem_documented X V" "names_deleted X V" and lv: "live V r w" and len: "length body < 2 ^ 32" "body \<noteq> []"
    and st: "request_stored V pl cfg r i req_id m meta body (Some o1) w"
  shows "orphaned V pl cfg r i (region_drop X o1 w)"
proof -
  obtain g name where n: "unat (get_u32 (fields_at Req i + 12) (mem w (r_ptr r))) = length body" "r_ptr o1 \<noteq> r_ptr r"
    and g: "g \<le> MAX_OVERFLOW_GENERATION" "get_u8 (fields_at Req i + 16) (mem w (r_ptr r)) = g + 1"
      "request_overflow_name_gen pl cfg i g = Some name" and ov: "overflow_holds V name body o1 w"
    using st by (auto simp: request_stored_def stored_def body_stored_def Let_def)
  have "shm_seg (r_shmem o1) = r_ptr o1" using ov by (simp add: overflow_holds_def)
  then have "mem (region_drop X o1 w) (r_ptr r) = mem w (r_ptr r)"
    using keptD(1) [OF kept_drop [OF doc(1)] _ liveD(3) [OF lv]] n(2) by (simp add: region_drop_def)
  moreover have "get_u32 (fields_at Req i + 12) (mem w (r_ptr r)) \<noteq> 0" using n(1) len by auto
  ultimately show ?thesis using g dropped_name_free [OF doc ov] by (auto simp: orphaned_def)
qed

lemma orphaned_status:
  assumes doc: "shmem_documented X V" and lv: "live V r w" and i: "unat i < unat (r_num_slots r)" and gone: "orphaned V pl cfg r i w"
  shows "orphaned V pl cfg r i (put (r_ptr r) (slot_start i) (le32 v) w)"
proof -
  let ?w' = "put (r_ptr r) (slot_start i) (le32 v) w" and ?p = "r_ptr r" and ?f = "fields_at Req i"
  have u: "unchanged_except (status_area i) (mem w ?p) (mem ?w' ?p)"
    using set_status_touches(1) [OF doc lv i, of v] by (simp add: touches_def)
  have b: "slot_start i + 128 \<le> length (mem w ?p)" using slot_base_eq(3) [OF liveD(1) [OF lv] i] by simp
  have f: "?f = slot_start i + 44" by (simp add: fields_at_def field_base_def)
  have "get_u32 (?f + 12) (mem ?w' ?p) = get_u32 (?f + 12) (mem w ?p)"
    by (rule unchanged_get(3) [OF u]) (use b f in \<open>auto simp: status_area_def\<close>)
  moreover have "get_u8 (?f + 16) (mem ?w' ?p) = get_u8 (?f + 16) (mem w ?p)"
    by (rule unchanged_get(1) [OF u]) (use b f in \<open>auto simp: status_area_def\<close>)
  moreover have "bound V ?w' = bound V w" using doc by (simp add: fun_eq_iff)
  ultimately show ?thesis using gone by (simp add: orphaned_def)
qed

section \<open>The lost call\<close>

text \<open>A published call too large for its arena, when no thread holds a region: its body is in the region of the map.\<close>

lemma published_in_overflow:
  assumes sim: "simulates V pl X S \<sigma>" and idle: "sy_threads \<sigma> = (\<lambda>_. None)" and i: "unat i < slots_of \<sigma>"
    and ph: "sp_phase S i = Ready c" "\<not> sp_lost S i" and big: "unat (snd (arena (bus_region (sy_bus \<sigma>)) Req i)) < length (cl_body c)"
  obtains o1 mb where "bus_overflow (sy_bus \<sigma>) i = Some o1"
    and "request_stored V pl (bus_config (sy_bus \<sigma>)) (bus_region (sy_bus \<sigma>)) i (cl_id c) (method_to_u8 (cl_method c)) mb (cl_body c)
      (Some o1) (sy_world \<sigma>)"
proof -
  obtain mb ovf where c: "carried (\<lambda>s. regions_of \<sigma> s i) Req ovf"
    and st: "request_stored V pl (bus_config (sy_bus \<sigma>)) (bus_region (sy_bus \<sigma>)) i (cl_id c) (method_to_u8 (cl_method c)) mb
      (cl_body c) ovf (sy_world \<sigma>)"
    using sim_slot [OF sim i] ph by (auto simp: slot_matches_def call_stored_def)
  have "ovf \<noteq> None" using st big by (cases ovf) (auto simp: request_stored_def stored_def body_stored_def arena_stop_def Let_def)
  then obtain o1 where o1: "ovf = Some o1" by blast
  then obtain x where "regions_of \<sigma> Req i x = Some o1" using c by (auto simp: carried_def)
  then have "bus_overflow (sy_bus \<sigma>) i = Some o1" using idle by (cases x) simp_all
  then show ?thesis using that st o1 by blast
qed

text \<open>A worker that takes an orphaned request cannot read it, and frees its slot.\<close>

lemma orphan_unread:
  assumes doc: "shmem_documented X V" "postcard_documented X" and sim: "simulates V pl X S \<sigma>" and idle: "sy_threads \<sigma> t = None"
    and i: "unat i < slots_of \<sigma>" and ph: "sp_phase S i = Ready c"
    and gone: "orphaned V pl (bus_config (sy_bus \<sigma>)) (bus_region (sy_bus \<sigma>)) i (sy_world \<sigma>)"
  shows "\<exists>w. sys_run pl X E \<sigma> [Take i, Unread i] (\<sigma>\<lparr>sy_world := w\<rparr>) \<and> simulates V pl X (set_phase i Free S) (\<sigma>\<lparr>sy_world := w\<rparr>)"
proof -
  let ?q = "wk_region (sy_worker \<sigma>)" and ?k = "sy_worker \<sigma>"
  note sD = simulatesD [OF sim] note L = linked_live [OF sD(2,1)]
  have ir: "unat i < unat (r_num_slots ?q)" using i L by (simp add: slots_of_def)
  have "status_at ?q i (sy_world \<sigma>) = SLOT_READY" using slot_matches_phase(2) [OF sim_slot [OF sim i]] ph L by simp
  then obtain w1 where cas: "cas_status ?q i SLOT_READY SLOT_CLAIMED (sy_world \<sigma>) = Some (Inr SLOT_READY, w1)"
    and w1: "w1 = put (r_ptr ?q) (slot_start i) (le32 SLOT_CLAIMED) (sy_world \<sigma>)"
    using status_ops(3) [OF liveD(1) [OF L(1)] ir] by simp
  let ?\<sigma>1 = "\<sigma>\<lparr>sy_world := w1, sy_threads := (sy_threads \<sigma>)(t \<mapsto> Reading i)\<rparr>"
  have s1: "sys_step pl X E \<sigma> (Take i) ?\<sigma>1" by (rule sys_step.take [OF idle i cas])
  have m1: "simulates V pl X (set_phase i (Claimed c) S) ?\<sigma>1" using take_simulated [OF doc(1) sim idle i cas] ph by auto
  have th: "sy_threads ?\<sigma>1 t = Some (Reading i)" by simp
  have "request_overflow_name_gen pl (wk_config ?k) i = request_overflow_name_gen pl (bus_config (sy_bus \<sigma>)) i"
    using sD(2) by (simp add: linked_def)
  then have "orphaned V pl (wk_config ?k) ?q i (sy_world \<sigma>)" using gone L(2) by (simp add: orphaned_def)
  then have g1: "orphaned V pl (wk_config ?k) ?q i w1" using orphaned_status [OF doc(1) L(1) ir] w1 by simp
  obtain c' mb where c': "request_to_vec X (cl_meta c') = Inr mb" "request_head ?q i c' mb w1"
    by (rule claimed_slot [OF m1 th]) simp
  have l1: "live V ?q w1" using linked_live(1) [OF simulatesD(2,1) [OF m1]] by simp
  obtain e where rd: "read_request pl X ?q i (wk_config ?k) w1 = Some (Inl e, w1)"
    using read_request_orphaned [OF doc liveD(1) [OF l1] ir c' g1] by blast
  obtain w2 where st: "store_status ?q i SLOT_FREE w1 = Some w2" using status_ops(2) [OF liveD(1) [OF l1] ir] by simp
  have e: "?\<sigma>1\<lparr>sy_world := w2, sy_threads := (sy_threads ?\<sigma>1)(t := None)\<rparr> = \<sigma>\<lparr>sy_world := w2\<rparr>"
    using idle by (simp add: fun_upd_idem)
  have rd1: "read_request pl X (wk_region (sy_worker ?\<sigma>1)) i (wk_config (sy_worker ?\<sigma>1)) (sy_world ?\<sigma>1) = Some (Inl e, w1)"
    and st1: "store_status (wk_region (sy_worker ?\<sigma>1)) i SLOT_FREE w1 = Some w2" using rd st by simp_all
  have "sys_step pl X E ?\<sigma>1 (Unread i) (\<sigma>\<lparr>sy_world := w2\<rparr>)"
    using sys_step.unreadable [OF th rd1 st1, where E = E] unfolding e .
  moreover have "simulates V pl X (set_phase i Free (set_phase i (Claimed c) S)) (\<sigma>\<lparr>sy_world := w2\<rparr>)"
    using unread_simulated [OF doc m1 th rd1 st1] unfolding e by blast
  then have "simulates V pl X (set_phase i Free S) (\<sigma>\<lparr>sy_world := w2\<rparr>)" by (simp add: set_phase_def)
  ultimately show ?thesis using sys_more [OF sys_run_one [OF s1]] by auto
qed

text \<open>
  C39: the watcher frees a slot before it removes the slot's entry from the map of overflow regions. When a call too
  large for its arena is dispatched into the slot in between, the watcher's next step drops the region of the new request.
  The worker then claims the request, cannot read it and frees the slot: no handler has seen the call and its
  caller stays registered, with nobody left to answer it.
\<close>

theorem late_remove_loses_call:
  assumes "shmem_documented X V" and "postcard_documented X" and "events_separate E V" and "memory_available X V" and "names_deleted X V"
    and "pl \<noteq> Windows" and "simulates V pl X S \<sigma>" and "sy_threads \<sigma> = (\<lambda>_. None)" and "sy_watcher \<sigma> = Released i req_id res"
    and "sp_phase S i = Free" and "publishable V pl X (sy_bus \<sigma>) i c (sy_world \<sigma>)"
    and "unat (snd (arena (bus_region (sy_bus \<sigma>)) Req i)) < length (cl_body c)"
  shows "\<exists>ch \<sigma>' S'. sys_run pl X E \<sigma> [Claim i, Idle, Publish i c, Idle, Register (cl_id c) ch, Drop Req i, Take i, Unread i] \<sigma>'
    \<and> simulates V pl X S' \<sigma>' \<and> sp_phase S' i = Free \<and> sp_pending S' (cl_id c) = Some ch
    \<and> sy_threads \<sigma>' = (\<lambda>_. None) \<and> sy_watcher \<sigma>' = Resolving req_id res"
proof -
  note doc = assms(1-6) and sim = assms(7) and idle = assms(8) and at = assms(9)
  have i: "unat i < slots_of \<sigma>" using simulatesD(7) [OF sim] at by simp
  have free: "sy_threads \<sigma> 0 = None" using idle by simp
  obtain ch b w where run: "sys_run pl X E \<sigma> [Claim i, Idle, Publish i c, Idle, Register (cl_id c) ch] (\<sigma>\<lparr>sy_bus := b, sy_world := w\<rparr>)"
    and b: "bus_region b = bus_region (sy_bus \<sigma>)" and m1: "simulates V pl X (register_call i c ch S) (\<sigma>\<lparr>sy_bus := b, sy_world := w\<rparr>)"
    using large_dispatch_steps [OF doc(1,4,3,6) sim free i assms(10,11)] by blast
  let ?\<sigma>1 = "\<sigma>\<lparr>sy_bus := b, sy_world := w\<rparr>" and ?S1 = "register_call i c ch S"
  have i1: "unat i < slots_of ?\<sigma>1" using i b by (simp add: slots_of_def)
  have lost: "\<not> sp_lost ?S1 i" by (simp add: register_call_def put_message_def)
  obtain o1 mb where o1: "bus_overflow b i = Some o1" and st: "request_stored V pl (bus_config b) (bus_region b) i (cl_id c)
      (method_to_u8 (cl_method c)) mb (cl_body c) (Some o1) w"
    using published_in_overflow [OF m1 _ i1 _ lost, of c] idle assms(12) b by auto
  obtain b2 w2 where fg: "bus_forget X i (b, w) = (b2, w2)" by fastforce
  then have b2: "bus_region b2 = bus_region b" "bus_config b2 = bus_config b" "w2 = region_drop X o1 w"
    using o1 by (auto simp: bus_forget_def drop_opt_def)
  let ?\<sigma>2 = "?\<sigma>1\<lparr>sy_bus := b2, sy_world := w2, sy_watcher := Resolving req_id res\<rparr>" and ?S2 = "after_drop Req i (bus_overflow b i) ?S1"
  have s2: "sys_step pl X E ?\<sigma>1 (Drop Req i) ?\<sigma>2"
    using sys_step.forget [where pl = pl and X = X and E = E and \<sigma> = ?\<sigma>1 and bus = b2 and w = w2] at fg o1 by (simp add: dropped_def)
  have m2: "simulates V pl X ?S2 ?\<sigma>2" using forget_simulated [OF doc(1) m1, of i req_id res b2 w2] at fg by simp
  have "call_ok X c" using assms(11) by (simp add: publishable_def)
  then have "length (cl_body c) < 2 ^ 32" by (simp add: call_ok_def)
  moreover have "cl_body c \<noteq> []" using assms(12) by auto
  moreover have "live V (bus_region b) w" using simulatesD(1) [OF m1] by simp
  ultimately have "orphaned V pl (bus_config b) (bus_region b) i w2" using drop_orphans [OF doc(1,5) _ _ _ st] b2(3) by simp
  then have gone: "orphaned V pl (bus_config (sy_bus ?\<sigma>2)) (bus_region (sy_bus ?\<sigma>2)) i (sy_world ?\<sigma>2)" using b2 by simp
  obtain w3 where run3: "sys_run pl X E ?\<sigma>2 [Take i, Unread i] (?\<sigma>2\<lparr>sy_world := w3\<rparr>)"
    and m3: "simulates V pl X (set_phase i Free ?S2) (?\<sigma>2\<lparr>sy_world := w3\<rparr>)"
    using orphan_unread [OF doc(1,2) m2, where E = E and t = 0 and i = i and c = c] gone i idle b b2 by (auto simp: slots_of_def)
  have "sys_run pl X E \<sigma> ([Claim i, Idle, Publish i c, Idle, Register (cl_id c) ch] @ [Drop Req i] @ [Take i, Unread i])
      (?\<sigma>2\<lparr>sy_world := w3\<rparr>)"
    using sys_run_trans [OF sys_run_trans [OF run3 sys_run_one [OF s2]] run] .
  then show ?thesis using m3 idle by (intro exI [of _ ch] exI [of _ "?\<sigma>2\<lparr>sy_world := w3\<rparr>"] exI [of _ "set_phase i Free ?S2"])
      (auto simp: set_phase_def)
qed

section \<open>Names\<close>

text \<open>As long as no message needs an overflow region no name is bound: the state that the lost call starts from is reached.\<close>

lemma binds_nothing_refl [simp]: "binds_nothing V w w"
  by (simp add: binds_nothing_def)

lemma binds_nothing_trans: "binds_nothing V w1 w2 \<Longrightarrow> binds_nothing V w2 w3 \<Longrightarrow> binds_nothing V w1 w3"
  by (simp add: binds_nothing_def)

lemma binds_nothing_same: "bound V w' = bound V w \<Longrightarrow> binds_nothing V w w'"
  by (simp add: binds_nothing_def)

lemma same_binds_nothing: "same_memory V w w' \<Longrightarrow> binds_nothing V w w'"
  by (simp add: binds_nothing_def same_memory_def)

lemma drop_binds_nothing: "names_deleted X V \<Longrightarrow> binds_nothing V w (drop_opt X ovf w)"
  by (cases ovf) (simp_all add: names_deleted_def drop_opt_def region_drop_def)

lemma read_overflow_names:
  assumes doc: "shmem_documented X V" "names_deleted X V" and run: "read_overflow X name len w = Some (res, w')"
  shows "binds_nothing V w w'"
proof -
  obtain h w1 where op: "shmem_open X name w = (h, w1)" by fastforce
  then have "bound V w1 = bound V w" using open_ok(5) [OF doc(1)] open_err(1) [OF doc(1)] by (metis sum.exhaust)
  then have "binds_nothing V w w1" "\<And>r. binds_nothing V w (shmem_drop X r w1)"
    using doc(2) by (simp_all add: names_deleted_def binds_nothing_def)
  then show ?thesis
    using run op by (auto simp: read_overflow_def region_open_def region_drop_def split: sum.splits if_splits bind_splits)
qed

lemma read_names:
  assumes doc: "shmem_documented X V" "names_deleted X V"
  shows "read_request pl X r i c w = Some (rq, w') \<Longrightarrow> binds_nothing V w w'"
    and "read_response pl X r i c w = Some (rp, w') \<Longrightarrow> binds_nothing V w w'"
proof -
  have b: "binds_nothing V w w'" if "read_body X r nf off len ovf w = Some (res, w')" for nf off len ovf res w w'
    using that read_overflow_names [OF doc] by (auto simp: read_body_def Let_def split: if_splits option.splits bind_splits)
  show "read_request pl X r i c w = Some (rq, w') \<Longrightarrow> binds_nothing V w w'"
    using b by (auto simp: read_request_def Let_def and_then_def split: bind_splits sum.splits)
  show "read_response pl X r i c w = Some (rp, w') \<Longrightarrow> binds_nothing V w w'"
    using b by (auto simp: read_response_def Let_def and_then_def split: bind_splits sum.splits)
qed

lemma inline_write_names:
  assumes doc: "shmem_documented X V" and i: "i < r_num_slots r"
  shows "write_request pl X r i req_id method meta body c w = Some (Inr None, w') \<Longrightarrow> bound V w' = bound V w"
    and "write_response pl X r i status meta body c w = Some (Inr None, w') \<Longrightarrow> bound V w' = bound V w"
proof -
  note W = writes_keep_names [OF doc]
  have st: "bound V w' = bound V w" if "store_status r i v w = Some w'" for v and w w' :: "'a world"
    using that W(4) by (auto simp: store_status_def atomic_store_def split: if_splits)
  have b: "bound V w' = bound V w"
    if "write_body pl X r p off len ovf nf base sz meta body w = Some (Inr None, w')" for p off len ovf nf base sz w w'
    using that by (auto simp: write_body_def and_then_def split: if_splits option.splits bind_splits sum.splits dest!: W)
  have p: "bound V w' = bound V w" if "write_payload pl X r s i what nf final meta body w = Some (Inr None, w')" for s what nf final w w'
    using that by (auto simp: write_payload_def Let_def and_then_def split: if_splits bind_splits sum.splits dest!: W b st)
  show "write_request pl X r i req_id method meta body c w = Some (Inr None, w') \<Longrightarrow> bound V w' = bound V w"
    by (auto simp: write_request_def write_request_inner_payload [OF i] split: bind_splits sum.splits dest!: W p)
  show "write_response pl X r i status meta body c w = Some (Inr None, w') \<Longrightarrow> bound V w' = bound V w"
    by (auto simp: write_response_payload [OF i] split: bind_splits dest!: W p)
qed

text \<open>A run whose messages fit and are not refused binds no name.\<close>

fun refuses :: "event \<Rightarrow> bool" where
  "refuses (Abort i) = True"
| "refuses (Refuse i) = True"
| "refuses e = False"

lemma step_names:
  assumes doc: "shmem_documented X V" "events_separate E V" "names_deleted X V" and sim: "simulates V pl X S \<sigma>"
    and step: "sys_step pl X E \<sigma> e \<sigma>'" and fits: "event_fits X (bus_region (sy_bus \<sigma>)) e" and ok: "\<not> refuses e"
  shows "binds_nothing V (sy_world \<sigma>) (sy_world \<sigma>')"
proof -
  note sD = simulatesD [OF sim]
  note drop = drop_binds_nothing [OF doc(3)] and read = read_names [OF doc(1,3)]
    and wr = inline_write_names [OF doc(1)]
  have cas: "binds_nothing V w w'" if "cas_status r i old new w = Some (res, w')" for r i old new w res w'
    using cas_keeps_names [OF doc(1) that] by (rule binds_nothing_same)
  have watch: "binds_nothing V w w'" if "watch_release pl X i b w = Some (x, w')" for i b w x w'
    using that
    by (auto simp: watch_release_def Let_def split: bind_splits if_splits sum.splits dest!: cas read(2))
      (blast intro: binds_nothing_trans)+
  have sig: "binds_nothing V w (event_signal E ev w)" for ev and w :: "'a world"
    using signal_same [OF doc(2)] by (rule same_binds_nothing)
  have q: "same_layout (wk_region (sy_worker \<sigma>)) (bus_region (sy_bus \<sigma>))" using sD(2) by (simp add: linked_def)
  have slot: "i < r_num_slots (bus_region (sy_bus \<sigma>))" "i < r_num_slots (wk_region (sy_worker \<sigma>))"
    if "unat i < slots_of \<sigma>" for i
    using that q by (simp_all add: slots_of_def word_less_nat_alt same_layout_def)
  show ?thesis
    using step
  proof cases
    case (publish t i c mb ovf w)
    then have "ovf = None" using write_simulated [OF doc(1) sim publish(3,4)] fits by auto
    moreover have "unat i < slots_of \<sigma>" using thread_facts(1) [OF sim publish(3)] by (simp add: activity_ok_def)
    ultimately show ?thesis using publish wr(1) slot(1) binds_nothing_same by fastforce
  next
    case (reply t i p mb ovf w)
    then have "ovf = None" using answer_simulated [OF doc(1) sim reply(3,4)] fits layout_fits [OF q] by auto
    moreover have "unat i < slots_of \<sigma>" using thread_facts(1) [OF sim reply(3)] by (auto simp: activity_ok_def)
    ultimately show ?thesis using reply wr(2) slot(2) binds_nothing_same by fastforce
  next
    case (release i req_id res w)
    then show ?thesis using watch by simp
  next
    case (skip i w)
    then show ?thesis using watch by simp
  next
    case (unreadable t i e w1 w)
    then have "bound V w = bound V w1"
      using writes_keep_names(4) [OF doc(1)] by (auto simp: store_status_def atomic_store_def split: if_splits)
    then show ?thesis using unreadable read(1) binds_nothing_same binds_nothing_trans by fastforce
  next
    case (keep t i c ovf b w)
    then show ?thesis using drop by (auto simp: bus_keep_def split: option.splits)
  next
    case (store t i ovf k w)
    then show ?thesis using sig binds_nothing_trans [OF drop sig] by (auto simp: worker_keep_def split: option.splits)
  next
    case (register t c ch b w)
    then show ?thesis using sig by (auto simp: dispatch_register_def Let_def)
  next
    case (wait ev ms woken w)
    then show ?thesis using wait_same [OF doc(2)] same_binds_nothing by fastforce
  qed (use ok cas drop read in \<open>auto simp: bus_forget_def worker_forget_def\<close>)
qed

lemma run_names:
  assumes "sys_run pl X E \<sigma> es \<sigma>'" and doc: "shmem_documented X V" "postcard_documented X" "events_separate E V" "names_deleted X V"
    and "simulates V pl X S \<sigma>" and "\<forall>e \<in> set es. event_fits X (bus_region (sy_bus \<sigma>)) e \<and> \<not> refuses e"
  shows "binds_nothing V (sy_world \<sigma>) (sy_world \<sigma>') \<and> bus_region (sy_bus \<sigma>') = bus_region (sy_bus \<sigma>)"
  using assms(1,6-)
proof (induction rule: sys_run.induct)
  case (sys_more \<sigma> es \<tau> e \<upsilon>)
  then have IH: "binds_nothing V (sy_world \<sigma>) (sy_world \<tau>)" "bus_region (sy_bus \<tau>) = bus_region (sy_bus \<sigma>)" by simp_all
  obtain T where T: "simulates V pl X T \<tau>" using run_simulated [OF sys_more.hyps(1) doc(1-3) sys_more.prems(1)] by blast
  have "event_fits X (bus_region (sy_bus \<tau>)) e" "\<not> refuses e" using sys_more.prems(2) IH(2) by simp_all
  from step_names [OF doc(1,3,4) T sys_more.hyps(2) this] show ?case
    using IH step_region [OF sys_more.hyps(2)] binds_nothing_trans by auto
qed simp

lemma spare_name_kept:
  assumes "spare_name V nf w" and "binds_nothing V w w'"
  shows "spare_name V nf w'"
proof -
  obtain g where g: "g \<le> 254" "\<not> taken V nf w g" using assms(1) by (auto simp: spare_name_def)
  then have "\<not> taken V nf w' g" using assms(2) by (auto simp: taken_def binds_nothing_def)
  then show ?thesis using g(1) unfolding spare_name_def by blast
qed

lemma run_config: "sys_run pl X E \<sigma> es \<sigma>' \<Longrightarrow> bus_config (sy_bus \<sigma>') = bus_config (sy_bus \<sigma>)"
proof (induction rule: sys_run.induct)
  case (sys_more \<sigma> es \<tau> e \<upsilon>)
  have "bus_config (sy_bus \<upsilon>) = bus_config (sy_bus \<tau>)" using sys_more.hyps(2)
    by cases (auto simp: bus_forget_def bus_keep_def dispatch_register_def Let_def split: option.splits)
  then show ?case using sys_more.IH by simp
qed simp

section \<open>An instance\<close>

lemma ref_names_deleted: "names_deleted ref_externals ref_view"
proof -
  have "ref_bound (ref_drop h w) n = (if shm_owner h \<and> ref_bound w n = Some (shm_seg h) then None else ref_bound w n)" for h w n
    by (simp add: ref_drop_def) (auto simp: ref_bound_def split: option.splits)
  then show ?thesis by (auto simp: names_deleted_def binds_nothing_def ref_externals_def ref_view_def)
qed

text \<open>
  On the started bus: a call that fits is answered and released; then the watcher has freed the slot and not yet
  removed its entry, and a large call of another caller can be dispatched.
\<close>

definition second_call :: call where
  "second_call = large_call\<lparr>cl_id := ''b''\<rparr>"

lemma second_call_ok:
  "call_ok ref_externals second_call" "request_to_vec ref_externals (cl_meta second_call) = Inr (as_bytes ''/x'')"
  "cl_id second_call = ''b''" "length (cl_body second_call) = 40"
proof -
  have "req_id_ok ''b''" by (simp add: req_id_ok_def as_bytes_def) (rule valid_utf8_ascii, simp)
  then show "call_ok ref_externals second_call" "request_to_vec ref_externals (cl_meta second_call) = Inr (as_bytes ''/x'')"
    "cl_id second_call = ''b''" "length (cl_body second_call) = 40"
    using large_call_ok by (simp_all add: second_call_def call_ok_def)
qed

lemma released_system:
  obtains \<sigma> es \<tau> S req_id res where "started Linux ref_externals quiet_events demo_config ref_world \<sigma>"
    and "sys_run Linux ref_externals quiet_events \<sigma> es \<tau>" and "simulates ref_view Linux ref_externals S \<tau>"
    and "sy_threads \<tau> = (\<lambda>_. None)" and "sy_watcher \<tau> = Released 0 req_id res" and "sp_phase S 0 = Free"
    and "publishable ref_view Linux ref_externals (sy_bus \<tau>) 0 second_call (sy_world \<tau>)"
    and "unat (snd (arena (bus_region (sy_bus \<tau>)) Req 0)) < length (cl_body second_call)"
proof -
  let ?p = "demo_answer (request_of demo_call)" and ?c = demo_call
  note doc = ref_shmem_documented ref_postcard_documented quiet_separate
  obtain \<sigma> where st: "started Linux ref_externals quiet_events demo_config ref_world \<sigma>"
    and sim: "simulates ref_view Linux ref_externals initial \<sigma>" and idle: "sy_threads \<sigma> = (\<lambda>_. None)" and n: "slots_of \<sigma> = 1"
    and fits: "payload_fits (bus_region (sy_bus \<sigma>)) Req 0 (as_bytes ''/x'') [1, 2, 3]"
      "payload_fits (wk_region (sy_worker \<sigma>)) Resp 0 (as_bytes ''t'') [1, 2, 3]"
    and a: "arena (bus_region (sy_bus \<sigma>)) Req 0 = (0, 32)" and names: "bound ref_view (sy_world \<sigma>) = [''slotbus-demo'' \<mapsto> 1]"
    and cfg: "bus_config (sy_bus \<sigma>) = demo_config" by (rule demo_system)
  have i: "unat (0 :: usize) < slots_of \<sigma>" "sp_phase initial 0 = Free" "sy_threads \<sigma> 0 = None" "\<not> sp_lost initial 0"
    using n idle by (simp_all add: initial_def)
  obtain o1 ch b1 w1 where r1: "sys_run Linux ref_externals quiet_events \<sigma>
      [Claim 0, dropped Req 0 o1, Publish 0 ?c, Idle, Register (cl_id ?c) ch] (\<sigma>\<lparr>sy_bus := b1, sy_world := w1\<rparr>)"
    and g1: "bus_region b1 = bus_region (sy_bus \<sigma>)"
    and m1: "simulates ref_view Linux ref_externals (register_call 0 ?c ch initial) (\<sigma>\<lparr>sy_bus := b1, sy_world := w1\<rparr>)"
    using dispatch_steps [OF doc(1,3) sim i(3,1,2) demo_call_ok] fits(1) by (auto simp: demo_call_def)
  let ?S1 = "register_call 0 ?c ch initial" and ?\<sigma>1 = "\<sigma>\<lparr>sy_bus := b1, sy_world := w1\<rparr>"
  have f1: "sy_threads ?\<sigma>1 0 = None" "unat 0 < slots_of ?\<sigma>1" "sp_phase ?S1 0 = Ready ?c" "\<not> sp_lost ?S1 0"
    using i g1 by (simp_all add: slots_of_def) (simp add: register_call_def put_message_def)
  obtain o2 k2 w2 where r2: "sys_run Linux ref_externals quiet_events ?\<sigma>1
      [Take 0, Deliver 0 (request_of ?c), dropped Resp 0 o2, Reply 0 ?p, Idle] (with_worker ?\<sigma>1 (k2, w2))"
    and m2: "simulates ref_view Linux ref_externals (put_message 0 (Done ?c ?p) ?S1) (with_worker ?\<sigma>1 (k2, w2))"
    using answer_steps [OF doc m1 f1 demo_answer_ok(2,3)] fits(2) demo_answer_ok(1) by auto
  let ?S2 = "put_message 0 (Done ?c ?p) ?S1" and ?\<sigma>2 = "with_worker ?\<sigma>1 (k2, w2)"
  have f2: "unat 0 < slots_of ?\<sigma>2" "sp_taken ?S2 = None" "sp_phase ?S2 0 = Done ?c ?p" "\<not> sp_lost ?S2 0"
    using f1(2) by (simp_all add: put_message_def set_phase_def register_call_def initial_def)
  let ?S3 = "(set_phase 0 Free ?S2)\<lparr>sp_taken := Some (cl_id ?c, Some ?p)\<rparr>"
  obtain res w3 where s3: "sys_step Linux ref_externals quiet_events ?\<sigma>2 (Release 0) (?\<sigma>2\<lparr>sy_world := w3, sy_watcher := Released 0 (cl_id ?c) res\<rparr>)"
    and m3: "simulates ref_view Linux ref_externals ?S3 (?\<sigma>2\<lparr>sy_world := w3, sy_watcher := Released 0 (cl_id ?c) res\<rparr>)"
    using release_enabled [where E = quiet_events, OF doc(1,2) m2 f2] by blast
  let ?\<sigma>3 = "?\<sigma>2\<lparr>sy_world := w3, sy_watcher := Released 0 (cl_id ?c) res\<rparr>"
  let ?es = "(([Claim 0, dropped Req 0 o1, Publish 0 ?c, Idle, Register (cl_id ?c) ch]
    @ [Take 0, Deliver 0 (request_of ?c), dropped Resp 0 o2, Reply 0 ?p, Idle]) @ [Release 0])"
  have run: "sys_run Linux ref_externals quiet_events \<sigma> ?es ?\<sigma>3"
    by (rule sys_more [OF sys_run_trans [OF r2 r1] s3])
  have "same_layout (wk_region (sy_worker \<sigma>)) (bus_region (sy_bus \<sigma>))" using simulatesD(2) [OF sim] by (simp add: linked_def)
  then have "\<forall>e \<in> set ?es. event_fits ref_externals (bus_region (sy_bus \<sigma>)) e \<and> \<not> refuses e"
    using fits demo_call_ok(2) demo_answer_ok(1,3) layout_fits by (auto simp: dropped_def demo_call_def)
  then have N: "binds_nothing ref_view (sy_world \<sigma>) (sy_world ?\<sigma>3)" "bus_region (sy_bus ?\<sigma>3) = bus_region (sy_bus \<sigma>)"
    and none: "no_regions ?\<sigma>3"
    using run_names [OF run doc ref_names_deleted sim] run_no_regions [OF run doc sim started_no_regions [OF st]] by blast+
  have "spare_name ref_view (request_overflow_name_gen Linux demo_config 0) (sy_world ?\<sigma>3)"
    using spare_name_kept [OF overflow_name_free [OF names] N(1)] .
  then have "publishable ref_view Linux ref_externals (sy_bus ?\<sigma>3) 0 second_call (sy_world ?\<sigma>3)"
    using second_call_ok no_regionsD(1) [OF none] run_config [OF run] cfg N(2) a by (simp add: publishable_def as_bytes_def)
  moreover have "sy_threads ?\<sigma>3 = (\<lambda>_. None)" "sp_phase ?S3 0 = Free" using idle by (simp_all add: with_worker_def set_phase_def)
  moreover have "unat (snd (arena (bus_region (sy_bus ?\<sigma>3)) Req 0)) < length (cl_body second_call)"
    using N(2) a second_call_ok(4) by simp
  ultimately show ?thesis using that [OF st run m3] by simp
qed

theorem late_remove_loses_call_witness:
  "\<exists>\<sigma> es ch \<upsilon> S. started Linux ref_externals quiet_events demo_config ref_world \<sigma>
    \<and> sys_run Linux ref_externals quiet_events \<sigma> (es @ [Claim 0, Idle, Publish 0 second_call, Idle, Register ''b'' ch,
        Drop Req 0, Take 0, Unread 0]) \<upsilon>
    \<and> simulates ref_view Linux ref_externals S \<upsilon> \<and> sp_phase S 0 = Free \<and> sp_pending S ''b'' = Some ch"
proof -
  obtain \<sigma> es \<tau> S req_id res where R: "started Linux ref_externals quiet_events demo_config ref_world \<sigma>"
    "sys_run Linux ref_externals quiet_events \<sigma> es \<tau>" "simulates ref_view Linux ref_externals S \<tau>"
    "sy_threads \<tau> = (\<lambda>_. None)" "sy_watcher \<tau> = Released 0 req_id res" "sp_phase S 0 = Free"
    "publishable ref_view Linux ref_externals (sy_bus \<tau>) 0 second_call (sy_world \<tau>)"
    "unat (snd (arena (bus_region (sy_bus \<tau>)) Req 0)) < length (cl_body second_call)" by (rule released_system)
  from late_remove_loses_call [OF ref_shmem_documented ref_postcard_documented quiet_separate ref_memory_available ref_names_deleted _
      R(3-8)]
  obtain ch \<upsilon> S' where "sys_run Linux ref_externals quiet_events \<tau> [Claim 0, Idle, Publish 0 second_call, Idle,
      Register ''b'' ch, Drop Req 0, Take 0, Unread 0] \<upsilon>" "simulates ref_view Linux ref_externals S' \<upsilon>" "sp_phase S' 0 = Free"
    "sp_pending S' ''b'' = Some ch" by (auto simp: second_call_ok(3))
  then show ?thesis using sys_run_trans R(1,2) by meson
qed

end
