(* ===== verification/Waitfree.thy ===== *)
theory Waitfree
  imports System
begin

text \<open>
  Operations in flight always finish: whatever the other threads do, a thread inside \<open>dispatch\<close>, the receive loop
  or \<open>send_response\<close> has a step it can take, and every step it takes brings it nearer to its end.
\<close>

section \<open>Serialised metadata\<close>

text \<open>A thread past the removal of its stale overflow region has serialised its metadata.\<close>

definition serialised :: "'os externals \<Rightarrow> activity \<Rightarrow> bool" where
  "serialised X a \<longleftrightarrow>
     (case a of
        Cleared i c \<Rightarrow> (\<exists>mb. request_to_vec X (cl_meta c) = Inr mb)
      | Answering i p \<Rightarrow> (\<exists>mb. response_to_vec X (rp_meta p) = Inr mb)
      | _ \<Rightarrow> True)"

lemma step_serialised:
  assumes "sys_step pl X E \<sigma> e \<sigma>'" and "\<And>t a. sy_threads \<sigma> t = Some a \<Longrightarrow> serialised X a"
  shows "sy_threads \<sigma>' t = Some a \<Longrightarrow> serialised X a"
  using assms by (cases rule: sys_step.cases) (auto simp: serialised_def split: if_splits)

lemma run_serialised:
  assumes "sys_run pl X E \<sigma> es \<sigma>'" and "sy_threads \<sigma> = (\<lambda>_. None)"
  shows "sy_threads \<sigma>' t = Some a \<Longrightarrow> serialised X a"
  using assms
proof (induction arbitrary: t a rule: sys_run.induct)
  case (sys_more \<sigma> es \<tau> e \<upsilon>)
  show ?case by (rule step_serialised [OF sys_more.hyps(2) _ sys_more.prems(1)]) (rule sys_more.IH, assumption, rule sys_more.prems(2))
qed simp

section \<open>The distance to the end\<close>

fun remaining :: "activity option \<Rightarrow> nat" where
  "remaining None = 0"
| "remaining (Some (Filling i c)) = 4"
| "remaining (Some (Cleared i c)) = 3"
| "remaining (Some (Keeping i c ovf)) = 2"
| "remaining (Some (Registering c)) = 1"
| "remaining (Some (Reading i)) = 4"
| "remaining (Some (Handling i rq)) = 3"
| "remaining (Some (Answering i p)) = 2"
| "remaining (Some (Replying i ovf)) = 1"

lemma step_nearer:
  assumes "sys_step pl X E \<sigma> e \<sigma>'" and "sy_threads \<sigma> t = Some a"
  shows "sy_threads \<sigma>' t = Some a \<or> remaining (sy_threads \<sigma>' t) < remaining (Some a)"
  using assms by (cases rule: sys_step.cases) (auto split: if_splits)

lemma step_one_thread:
  assumes "sys_step pl X E \<sigma> e \<sigma>'"
  shows "\<exists>t. \<forall>u. u \<noteq> t \<longrightarrow> sy_threads \<sigma>' u = sy_threads \<sigma> u"
  using assms by (cases rule: sys_step.cases) (auto intro!: exI)

section \<open>Progress\<close>

lemma thread_can_step:
  assumes doc: "shmem_documented X V" "postcard_documented X" and sim: "simulates V pl X S \<sigma>"
    and th: "sy_threads \<sigma> t = Some a" and ser: "serialised X a" and g: "reply_ok X p"
  shows "\<exists>e \<sigma>'. sys_step pl X E \<sigma> e \<sigma>' \<and> sy_threads \<sigma>' t \<noteq> Some a"
proof (cases a)
  case (Filling i c)
  show ?thesis
  proof (cases "request_to_vec X (cl_meta c)")
    case (Inl pe)
    from sys_step.unserialisable [OF th [unfolded Filling] this, of pl E] show ?thesis by (fastforce simp: Filling)
  next
    case (Inr mb)
    obtain b w where "bus_forget X i (sy_bus \<sigma>, sy_world \<sigma>) = (b, w)" by fastforce
    from sys_step.clear [OF th [unfolded Filling] Inr this, of pl E] show ?thesis by (fastforce simp: Filling)
  qed
next
  case (Cleared i c)
  obtain mb where vec: "request_to_vec X (cl_meta c) = Inr mb" using ser Cleared by (auto simp: serialised_def)
  note th' = th [unfolded Cleared]
  obtain res w where wr: "write_request pl X (bus_region (sy_bus \<sigma>)) i (cl_id c) (method_to_u8 (cl_method c)) mb (cl_body c)
      (bus_config (sy_bus \<sigma>)) (sy_world \<sigma>) = Some (res, w)"
    using write_simulated [OF doc(1) sim th' vec] by blast
  show ?thesis
  proof (cases res)
    case (Inl x)
    from sys_step.abort [where E = E, OF th' vec wr [unfolded this]] show ?thesis by (fastforce simp: Cleared)
  next
    case (Inr ovf)
    from sys_step.publish [where E = E, OF th' vec wr [unfolded this]] show ?thesis by (fastforce simp: Cleared)
  qed
next
  case (Keeping i c ovf)
  obtain b w where "bus_keep X i ovf (sy_bus \<sigma>, sy_world \<sigma>) = (b, w)" by fastforce
  from sys_step.keep [where pl = pl and E = E, OF th [unfolded Keeping] this] show ?thesis by (fastforce simp: Keeping)
next
  case (Registering c)
  obtain ch b w where "dispatch_register E (cl_id c) (cl_method c) (cl_meta c) (sy_bus \<sigma>, sy_world \<sigma>) = (Inr ch, b, w)"
    by (simp add: dispatch_register_def Let_def)
  from sys_step.register [where pl = pl and X = X, OF th [unfolded Registering] this] show ?thesis by (fastforce simp: Registering)
next
  case (Reading i)
  note th' = th [unfolded Reading]
  obtain c res w where i: "unat i < slots_of \<sigma>" and rd: "read_request pl X (wk_region (sy_worker \<sigma>)) i (wk_config (sy_worker \<sigma>))
      (sy_world \<sigma>) = Some (res, w)" and af: "affects V (r_ptr (bus_region (sy_bus \<sigma>))) {} {} (sy_world \<sigma>) w"
    by (rule claimed_read [OF doc sim th'])
  show ?thesis
  proof (cases res)
    case (Inl x)
    note sD = simulatesD [OF sim] note L = linked_live [OF sD(2) affects_live [OF sD(1) af]]
    have "unat i < unat (r_num_slots (wk_region (sy_worker \<sigma>)))" using i L(3) by (simp add: slots_of_def)
    from sys_step.unreadable [where E = E, OF th' rd [unfolded Inl] status_ops(2) [OF liveD(1) [OF L(1)] this]] show ?thesis
      by (fastforce simp: Reading)
  next
    case (Inr got)
    obtain req_id m meta body where "got = (req_id, m, meta, body)" by (cases got)
    from sys_step.deliver [where E = E, OF th' rd [unfolded Inr this]] show ?thesis by (fastforce simp: Reading)
  qed
next
  case (Handling i rq)
  show ?thesis
  proof (cases "response_to_vec X (rp_meta p)")
    case (Inl pe)
    from sys_step.unanswerable [OF th [unfolded Handling] this, of pl E] show ?thesis by (fastforce simp: Handling)
  next
    case (Inr mb)
    obtain k w where "worker_forget X i (sy_worker \<sigma>, sy_world \<sigma>) = (k, w)" by fastforce
    from sys_step.empty [OF th [unfolded Handling] g Inr this, of pl E] show ?thesis by (fastforce simp: Handling)
  qed
next
  case (Answering i q)
  note th' = th [unfolded Answering]
  obtain mb where vec: "response_to_vec X (rp_meta q) = Inr mb" using ser Answering by (auto simp: serialised_def)
  obtain res w1 w2 where wr: "write_response pl X (wk_region (sy_worker \<sigma>)) i (rp_status q) mb (rp_body q)
        (wk_config (sy_worker \<sigma>)) (sy_world \<sigma>) = Some (res, w1)"
    and st: "\<And>x. res = Inl x \<Longrightarrow> store_status (wk_region (sy_worker \<sigma>)) i SLOT_FREE w1 = Some w2"
    using answer_simulated [OF doc(1) sim th' vec] by fastforce
  show ?thesis
  proof (cases res)
    case (Inl x)
    from sys_step.refuse [where E = E, OF th' vec wr [unfolded Inl] st [OF Inl]] show ?thesis by (fastforce simp: Answering)
  next
    case (Inr ovf)
    from sys_step.reply [where E = E, OF th' vec wr [unfolded Inr]] show ?thesis by (fastforce simp: Answering)
  qed
next
  case (Replying i ovf)
  obtain k w where "worker_keep X i ovf (sy_worker \<sigma>, sy_world \<sigma>) = (k, w)" by fastforce
  from sys_step.store [where pl = pl and E = E, OF th [unfolded Replying] this] show ?thesis by (fastforce simp: Replying)
qed

lemma watcher_can_step:
  assumes doc: "shmem_documented X V" "postcard_documented X" and sim: "simulates V pl X S \<sigma>"
  shows "sy_watcher \<sigma> = Scanning \<Longrightarrow> unat i < slots_of \<sigma> \<Longrightarrow>
      \<exists>e \<sigma>'. sys_step pl X E \<sigma> e \<sigma>' \<and> (if \<exists>c p. sp_phase S i = Done c p then e = Release i else e = Idle \<and> \<sigma>' = \<sigma>)"
    and "sy_watcher \<sigma> \<noteq> Scanning \<Longrightarrow> \<exists>e \<sigma>'. sys_step pl X E \<sigma> e \<sigma>' \<and> sy_watcher \<sigma>' \<noteq> sy_watcher \<sigma>"
proof -
  assume scan: "sy_watcher \<sigma> = Scanning" and i: "unat i < slots_of \<sigma>"
  obtain got w where rel: "watch_release pl X i (sy_bus \<sigma>) (sy_world \<sigma>) = Some (got, w)"
    and r: "case got of None \<Rightarrow> (\<forall>c p. sp_phase S i \<noteq> Done c p) \<and> w = sy_world \<sigma>
      | Some (req_id, res) \<Rightarrow> \<exists>c p. sp_phase S i = Done c p"
    using release_result [OF doc sim i] by (fastforce split: option.splits)
  show "\<exists>e \<sigma>'. sys_step pl X E \<sigma> e \<sigma>' \<and> (if \<exists>c p. sp_phase S i = Done c p then e = Release i else e = Idle \<and> \<sigma>' = \<sigma>)"
  proof (cases got)
    case None
    from sys_step.skip [where E = E, OF scan i rel [unfolded this]] show ?thesis using r None by auto
  next
    case (Some x)
    obtain req_id res where x: "x = (req_id, res)" by (cases x)
    from sys_step.release [where E = E, OF scan i rel [unfolded Some x]] show ?thesis using r Some x by auto
  qed
next
  assume "sy_watcher \<sigma> \<noteq> Scanning"
  then show "\<exists>e \<sigma>'. sys_step pl X E \<sigma> e \<sigma>' \<and> sy_watcher \<sigma>' \<noteq> sy_watcher \<sigma>"
  proof (cases "sy_watcher \<sigma>")
    case (Released i req_id res)
    obtain b w where "bus_forget X i (sy_bus \<sigma>, sy_world \<sigma>) = (b, w)" by fastforce
    from sys_step.forget [where pl = pl and E = E, OF Released this] show ?thesis by (fastforce simp: Released)
  next
    case (Resolving req_id res)
    obtain calls where "bus_calls (watch_send req_id res (sy_bus \<sigma>)) = bus_calls (sy_bus \<sigma>) @ calls"
      using send_simulated [OF sim Resolving] by blast
    from sys_step.resolve [where pl = pl and X = X and E = E, OF Resolving this] show ?thesis by (fastforce simp: Resolving)
  qed simp
qed

lemma runs_to_end:
  assumes doc: "shmem_documented X V" "postcard_documented X" "events_separate E V" and p: "reply_ok X p"
  shows "simulates V pl X S \<sigma> \<Longrightarrow> (\<And>t a. sy_threads \<sigma> t = Some a \<Longrightarrow> serialised X a) \<Longrightarrow>
    \<exists>es \<tau>. sys_run pl X E \<sigma> es \<tau> \<and> length es \<le> remaining (sy_threads \<sigma> t) \<and> sy_threads \<tau> t = None"
proof (induction "remaining (sy_threads \<sigma> t)" arbitrary: S \<sigma> rule: less_induct)
  case less
  show ?case
  proof (cases "sy_threads \<sigma> t")
    case None
    then show ?thesis using sys_start [of pl X E \<sigma>] by (auto intro: exI [of _ "[]"])
  next
    case (Some a)
    obtain e \<tau> where step: "sys_step pl X E \<sigma> e \<tau>" and moved: "sy_threads \<tau> t \<noteq> Some a"
      using thread_can_step [OF doc(1,2) less.prems(1) Some less.prems(2) [OF Some] p] by blast
    have near: "remaining (sy_threads \<tau> t) < remaining (sy_threads \<sigma> t)" using step_nearer [OF step Some] moved Some by simp
    obtain T where T: "simulates V pl X T \<tau>" using system_step_simulated [OF doc less.prems(1) step] by blast
    have ser: "serialised X b" if "sy_threads \<tau> u = Some b" for u b
      by (rule step_serialised [OF step _ that]) (rule less.prems(2))
    have "\<exists>es \<upsilon>. sys_run pl X E \<tau> es \<upsilon> \<and> length es \<le> remaining (sy_threads \<tau> t) \<and> sy_threads \<upsilon> t = None"
      by (rule less.hyps [OF near T]) (rule ser)
    then obtain es \<upsilon> where r: "sys_run pl X E \<tau> es \<upsilon>" "length es \<le> remaining (sy_threads \<tau> t)"
      "sy_threads \<upsilon> t = None" by blast
    have "sys_run pl X E \<sigma> ([e] @ es) \<upsilon>" by (rule sys_run_trans [OF r(1) sys_run_one [OF step]])
    then show ?thesis using r(2,3) near by (intro exI [of _ "[e] @ es"] exI [of _ \<upsilon>]) simp
  qed
qed

section \<open>Property\<close>

text \<open>
  C12: operations never get stuck. In every reachable state a thread inside \<open>dispatch\<close>, the receive loop or
  \<open>send_response\<close> can run to the end of its operation in at most four more steps, given a reply from the
  handler; whatever the others do in between never sets it back, since every step either leaves it where it
  is or brings it nearer to the end. The watcher too can always take its next step: it releases any slot
  that is \<open>Done\<close> and passes over any other, and once inside a slot it goes on.
\<close>

theorem operations_never_stuck:
  assumes "shmem_documented X V" and "postcard_documented X" and "events_separate E V"
    and "started pl X E c w \<sigma>" and "sys_run pl X E \<sigma> es \<sigma>'" and "reply_ok X p"
  shows "(\<forall>t. \<exists>fs \<tau>. sys_run pl X E \<sigma>' fs \<tau> \<and> length fs \<le> 4 \<and> sy_threads \<tau> t = None)
    \<and> (\<forall>t e \<tau>. sys_step pl X E \<sigma>' e \<tau> \<and> sy_threads \<sigma>' t \<noteq> None \<longrightarrow>
         sy_threads \<tau> t = sy_threads \<sigma>' t \<or> remaining (sy_threads \<tau> t) < remaining (sy_threads \<sigma>' t))
    \<and> (\<forall>i. sy_watcher \<sigma>' = Scanning \<and> unat i < slots_of \<sigma>' \<longrightarrow>
         (if slot_status (bus_region (sy_bus \<sigma>')) i (sy_world \<sigma>') = Some SLOT_DONE
          then \<exists>\<tau>. sys_step pl X E \<sigma>' (Release i) \<tau> else sys_step pl X E \<sigma>' Idle \<sigma>'))
    \<and> (sy_watcher \<sigma>' \<noteq> Scanning \<longrightarrow> (\<exists>e \<tau>. sys_step pl X E \<sigma>' e \<tau> \<and> sy_watcher \<tau> \<noteq> sy_watcher \<sigma>'))"
proof -
  obtain S where S: "simulates V pl X S \<sigma>'" using started_run [OF assms(1-5)] by blast
  have none: "sy_threads \<sigma> = (\<lambda>_. None)" using assms(4) by (auto simp: started_def start_system_def)
  have "remaining a \<le> 4" for a by (cases a rule: remaining.cases) simp_all
  then have "\<exists>fs \<tau>. sys_run pl X E \<sigma>' fs \<tau> \<and> length fs \<le> 4 \<and> sy_threads \<tau> t = None" for t
    using runs_to_end [where t = t, OF assms(1-3,6) S run_serialised [OF assms(5) none]] by (meson le_trans)
  moreover have "if slot_status (bus_region (sy_bus \<sigma>')) i (sy_world \<sigma>') = Some SLOT_DONE
          then \<exists>\<tau>. sys_step pl X E \<sigma>' (Release i) \<tau> else sys_step pl X E \<sigma>' Idle \<sigma>'"
    if "sy_watcher \<sigma>' = Scanning" "unat i < slots_of \<sigma>'" for i
  proof -
    have "slot_status (bus_region (sy_bus \<sigma>')) i (sy_world \<sigma>') = Some SLOT_DONE \<longleftrightarrow> (\<exists>c p. sp_phase S i = Done c p)"
      using simulated_status [OF S that(2)] by (cases "sp_phase S i") (simp_all add: status_code_def protocol_consts)
    then show ?thesis using watcher_can_step(1) [where E = E, OF assms(1,2) S that] by (auto split: if_splits)
  qed
  moreover have "sy_threads \<tau> t = sy_threads \<sigma>' t \<or> remaining (sy_threads \<tau> t) < remaining (sy_threads \<sigma>' t)"
    if "sys_step pl X E \<sigma>' e \<tau>" "sy_threads \<sigma>' t \<noteq> None" for t e \<tau>
    using step_nearer [OF that(1)] that(2) by (cases "sy_threads \<sigma>' t") auto
  moreover note watcher_can_step(2) [where E = E, OF assms(1,2) S]
  ultimately show ?thesis by blast
qed

theorem operations_never_stuck_witness:
  "\<exists>\<sigma> (\<tau> :: ref_os system) fs \<upsilon>. sys_run Linux ref_externals quiet_events \<sigma> [Claim 0] \<tau> \<and> sy_threads \<tau> 0 = Some (Filling 0 demo_call)
    \<and> sys_run Linux ref_externals quiet_events \<tau> fs \<upsilon> \<and> length fs \<le> 4 \<and> sy_threads \<upsilon> 0 = None"
proof -
  obtain \<sigma> where S: "started Linux ref_externals quiet_events demo_config ref_world \<sigma>"
    "simulates ref_view Linux ref_externals initial \<sigma>" "sy_threads \<sigma> = (\<lambda>_. None)" "slots_of \<sigma> = 1"
    by (rule demo_system)
  obtain w where step: "sys_step Linux ref_externals quiet_events \<sigma> (Claim 0)
      (\<sigma>\<lparr>sy_world := w, sy_threads := (sy_threads \<sigma>)(0 \<mapsto> Filling 0 demo_call)\<rparr>)"
    using claim_enabled [where E = quiet_events and t = 0 and i = 0 and c = demo_call, OF ref_shmem_documented S(2)] S(3,4)
      demo_call_ok(1) by (auto simp: initial_def)
  let ?\<tau> = "\<sigma>\<lparr>sy_world := w, sy_threads := (sy_threads \<sigma>)(0 \<mapsto> Filling 0 demo_call)\<rparr>"
  have "\<forall>t. \<exists>fs \<upsilon>. sys_run Linux ref_externals quiet_events ?\<tau> fs \<upsilon> \<and> length fs \<le> 4 \<and> sy_threads \<upsilon> t = None"
    using operations_never_stuck [OF ref_shmem_documented ref_postcard_documented quiet_separate S(1) sys_run_one [OF step]
        demo_answer_ok(2)] by (elim conjE)
  then obtain fs \<upsilon> where "sys_run Linux ref_externals quiet_events ?\<tau> fs \<upsilon>" "length fs \<le> 4" "sy_threads \<upsilon> 0 = None" by blast
  then show ?thesis using sys_run_one [OF step] by (intro exI [of _ \<sigma>] exI [of _ ?\<tau>] exI [of _ fs] exI [of _ \<upsilon>]) simp
qed

end
