(* ===== verification/Channels.thy ===== *)
theory Channels
  imports Turns Demo
begin

text \<open>
  The hub's bookkeeping of its callers' channels, for arbitrary contents of the shared memory: a channel is
  either waiting in the pending map or was used once, never both, and none is lost.
\<close>

fun channel_of :: "channel_call \<Rightarrow> nat" where
  "channel_of (SendResponse ch rs) = ch"
| "channel_of (DropSender ch) = ch"

definition waiting :: "bus \<Rightarrow> nat set" where
  "waiting b = {ch. \<exists>req_id t0 label. bus_pending b req_id = Some (t0, label, ch)}"

definition settled :: "bus \<Rightarrow> nat list" where
  "settled b = map channel_of (bus_calls b)"

definition channels_linear :: "bus \<Rightarrow> bool" where
  "channels_linear b \<longleftrightarrow>
     distinct (settled b) \<and> waiting b \<inter> set (settled b) = {} \<and> waiting b \<union> set (settled b) = {..< bus_next_channel b}
     \<and> (\<forall>id1 id2 t1 t2 l1 l2 ch. bus_pending b id1 = Some (t1, l1, ch) \<longrightarrow> bus_pending b id2 = Some (t2, l2, ch) \<longrightarrow> id1 = id2)"

lemma channels_linearD:
  assumes "channels_linear b"
  shows "distinct (settled b)" and "waiting b \<inter> set (settled b) = {}"
    and "waiting b \<union> set (settled b) = {..< bus_next_channel b}"
    and "bus_pending b id1 = Some (t1, l1, ch) \<Longrightarrow> bus_pending b id2 = Some (t2, l2, ch) \<Longrightarrow> id1 = id2"
  using assms unfolding channels_linear_def by blast+

lemma waitingI: "bus_pending b req_id = Some (t0, label, ch) \<Longrightarrow> ch \<in> waiting b"
  by (auto simp: waiting_def)

text \<open>Taking an entry out of the map and using its sender.\<close>

lemma linear_use:
  assumes lin: "channels_linear b" and pend: "bus_pending b req_id = Some (t0, label, ch)" and "channel_of call = ch"
    and b': "bus_pending b' = (bus_pending b)(req_id := None)" "bus_calls b' = bus_calls b @ [call]"
      "bus_next_channel b' = bus_next_channel b"
  shows "channels_linear b'"
proof -
  have ch: "ch \<in> waiting b" by (rule waitingI [OF pend])
  have w: "waiting b' = waiting b - {ch}"
  proof (intro equalityI subsetI)
    fix x
    assume "x \<in> waiting b'"
    then obtain id1 t l where e: "id1 \<noteq> req_id" "bus_pending b id1 = Some (t, l, x)"
      unfolding waiting_def b'(1) by (auto split: if_splits)
    then show "x \<in> waiting b - {ch}" using channels_linearD(4) [OF lin pend] waitingI by blast
  next
    fix x
    assume x: "x \<in> waiting b - {ch}"
    then obtain id1 t l where e: "bus_pending b id1 = Some (t, l, x)" unfolding waiting_def by blast
    then have "id1 \<noteq> req_id" using pend x by auto
    then have "bus_pending b' id1 = Some (t, l, x)" using e b'(1) by simp
    then show "x \<in> waiting b'" by (rule waitingI)
  qed
  have s: "settled b' = settled b @ [ch]" using assms(3) b' by (simp add: settled_def)
  have "distinct (settled b')" "waiting b' \<inter> set (settled b') = {}"
    "waiting b' \<union> set (settled b') = {..< bus_next_channel b'}"
    using channels_linearD(1-3) [OF lin] ch b'(3) unfolding w s by auto
  moreover have "id1 = id2" if "bus_pending b' id1 = Some (t1, l1, x)" "bus_pending b' id2 = Some (t2, l2, x)"
    for id1 id2 t1 t2 l1 l2 x
    using that unfolding b'(1) by (auto split: if_splits intro: channels_linearD(4) [OF lin])
  ultimately show ?thesis unfolding channels_linear_def by blast
qed

lemma linear_same:
  assumes "channels_linear b" and "bus_pending b' = bus_pending b" and "bus_calls b' = bus_calls b"
    and "bus_next_channel b' = bus_next_channel b"
  shows "channels_linear b'"
  using assms by (simp add: channels_linear_def waiting_def settled_def)

text \<open>A new channel under an id that has no entry.\<close>

lemma linear_add:
  assumes lin: "channels_linear b" and none: "bus_pending b req_id = None"
    and b': "bus_pending b' = (bus_pending b)(req_id \<mapsto> (t0, label, bus_next_channel b))" "bus_calls b' = bus_calls b"
      "bus_next_channel b' = Suc (bus_next_channel b)"
  shows "channels_linear b'"
proof -
  let ?n = "bus_next_channel b"
  have w: "waiting b' = insert ?n (waiting b)"
    using none unfolding waiting_def b'(1) by (auto split: if_splits) (metis option.distinct(1))
  have s: "settled b' = settled b" using b' by (simp add: settled_def)
  have n: "?n \<notin> waiting b" "?n \<notin> set (settled b)" using channels_linearD(3) [OF lin] by auto
  have "bus_pending b id1 \<noteq> Some (t, l, ?n)" for id1 t l using n(1) waitingI by blast
  then have "id1 = id2" if "bus_pending b' id1 = Some (t1, l1, x)" "bus_pending b' id2 = Some (t2, l2, x)"
    for id1 id2 t1 t2 l1 l2 x
    using that unfolding b'(1) by (auto split: if_splits intro: channels_linearD(4) [OF lin])
  moreover have "waiting b' \<union> set (settled b') = {..< bus_next_channel b'}"
    using channels_linearD(3) [OF lin] unfolding w s b'(3) lessThan_Suc by blast
  moreover have "waiting b' \<inter> set (settled b') = {}" using channels_linearD(2) [OF lin] n unfolding w s by blast
  moreover have "distinct (settled b')" using channels_linearD(1) [OF lin] unfolding s .
  ultimately show ?thesis unfolding channels_linear_def by blast
qed

lemma linear_register:
  assumes lin: "channels_linear b" and run: "dispatch_register E req_id m meta (b, w) = (r, b', w')"
  shows "channels_linear b'" and "\<exists>ch. r = Inr ch \<and> ch \<in> waiting b'"
proof -
  define replaced where "replaced = (case bus_pending b req_id of None \<Rightarrow> [] | Some (t0, l, tx) \<Rightarrow> [DropSender tx])"
  let ?b1 = "b\<lparr>bus_pending := (bus_pending b)(req_id := None), bus_calls := bus_calls b @ replaced\<rparr>"
  have b1: "channels_linear ?b1"
  proof (cases "bus_pending b req_id")
    case None
    then show ?thesis using lin by (intro linear_same [OF lin]) (auto simp: replaced_def fun_upd_idem)
  next
    case (Some e)
    obtain t0 l tx where "e = (t0, l, tx)" by (cases e)
    then show ?thesis using Some by (intro linear_use [OF lin, of req_id t0 l tx "DropSender tx"]) (auto simp: replaced_def)
  qed
  have b': "bus_pending b' = (bus_pending ?b1)(req_id \<mapsto> (instant_now E w, m @ '' '' @ path meta, bus_next_channel ?b1))"
    "bus_calls b' = bus_calls ?b1" "bus_next_channel b' = Suc (bus_next_channel ?b1)" "r = Inr (bus_next_channel b)"
    using run by (auto simp: dispatch_register_def Let_def replaced_def)
  show "channels_linear b'" by (rule linear_add [OF b1 _ b'(1-3)]) simp
  show "\<exists>ch. r = Inr ch \<and> ch \<in> waiting b'" using b'(1,4) by (auto simp: waiting_def split: if_splits)
qed

lemma linear_forget: "channels_linear b \<Longrightarrow> bus_forget X i (b, w) = (b', w') \<Longrightarrow> channels_linear b'"
  by (auto simp: bus_forget_def intro: linear_same)

lemma linear_resolve:
  assumes lin: "channels_linear b" and run: "watch_resolve X i req_id res (b, w) = (b', w')"
  shows "channels_linear b'"
proof -
  obtain b1 w1 where f: "bus_forget X i (b, w) = (b1, w1)" by fastforce
  note lin1 = linear_forget [OF lin f]
  show ?thesis
  proof (cases "\<exists>x t0 label tx. res = Inr x \<and> bus_pending b1 req_id = Some (t0, label, tx)")
    case False
    then show ?thesis using run f lin1 by (auto simp: watch_resolve_def watch_send_def split: sum.splits option.splits prod.splits)
  next
    case True
    then obtain status meta body t0 label tx where "res = Inr (status, meta, body)" "bus_pending b1 req_id = Some (t0, label, tx)"
      by (metis prod_cases3)
    moreover from this have "b' = b1\<lparr>bus_pending := (bus_pending b1)(req_id := None), bus_calls := bus_calls b1 @ [SendResponse tx
        \<lparr>rs_status = status, rs_body = body, rs_content_type = content_type meta, rs_headers = resp_headers meta\<rparr>]\<rparr>"
      using run f by (simp add: watch_resolve_def watch_send_def)
    ultimately show ?thesis by (intro linear_use [OF lin1]) auto
  qed
qed

lemma fill_channels:
  assumes "dispatch_fill pl X i req_id m meta body (b, w) = Some (res, b', w')"
  shows "bus_pending b' = bus_pending b" and "bus_calls b' = bus_calls b" and "bus_next_channel b' = bus_next_channel b"
  using assms
  by (auto simp: dispatch_fill_def bus_forget_def bus_keep_def Let_def and_then_def
      split: bind_splits sum.splits option.splits prod.splits)


lemma linear_create: "bus_create pl X E c w = Some (Inr b, w') \<Longrightarrow> channels_linear b"
  by (auto simp: bus_create_def channels_linear_def waiting_def settled_def split: bind_splits prod.splits sum.splits)

section \<open>The hub's threads, step by step\<close>

text \<open>
  What any thread of the hub does to its end: the stages of \<open>dispatch\<close>, what the watcher does after it has released a
  slot with any result it may have read there, \<open>stop\<close> and \<open>drop\<close>; and every change of the world, by whomever.
\<close>

inductive hub_step ::
  "platform \<Rightarrow> 'os externals \<Rightarrow> 'os event_os \<Rightarrow> bus \<times> 'os world \<Rightarrow> bus \<times> 'os world \<Rightarrow> bool"
  for pl :: platform and X :: "'os externals" and E :: "'os event_os" where
  fill: "dispatch_fill pl X i req_id m meta body (b, w) = Some (res, b', w') \<Longrightarrow> hub_step pl X E (b, w) (b', w')"
| register: "dispatch_register E req_id m meta (b, w) = (res, b', w') \<Longrightarrow> hub_step pl X E (b, w) (b', w')"
| resolve: "watch_resolve X i req_id res (b, w) = (b', w') \<Longrightarrow> hub_step pl X E (b, w) (b', w')"
| stop: "bus_stop E (b, w) = (b', w') \<Longrightarrow> hub_step pl X E (b, w) (b', w')"
| drop: "bus_drop E (b, w) = (b', w') \<Longrightarrow> hub_step pl X E (b, w) (b', w')"
| world: "hub_step pl X E (b, w) (b, w')"

abbreviation hub_run ::
  "platform \<Rightarrow> 'os externals \<Rightarrow> 'os event_os \<Rightarrow> bus \<times> 'os world \<Rightarrow> bus \<times> 'os world \<Rightarrow> bool" where
  "hub_run pl X E \<equiv> (hub_step pl X E)\<^sup>*\<^sup>*"

lemma hub_step_linear:
  assumes "hub_step pl X E s s'" and lin: "channels_linear (fst s)"
  shows "channels_linear (fst s') \<and> (\<exists>cs. bus_calls (fst s') = bus_calls (fst s) @ cs)"
  using assms(1)
proof cases
  case (fill i req_id m meta body b w res b' w')
  then show ?thesis using lin fill_channels [OF fill(3)] linear_same [of b b'] by simp
next
  case (register req_id m meta b w res b' w')
  then show ?thesis using lin linear_register(1) [OF _ register(3)] by (auto simp: dispatch_register_def Let_def)
next
  case (resolve i req_id res b w b' w')
  then show ?thesis using lin linear_resolve [OF _ resolve(3)]
    by (auto simp: watch_resolve_def watch_send_def bus_forget_def split: sum.splits option.splits prod.splits)
next
  case (stop b w b' w')
  then show ?thesis using lin linear_same [of b b'] by (auto simp: bus_stop_def)
next
  case (drop b w b' w')
  then show ?thesis using lin linear_same [of b b'] by (auto simp: bus_drop_def)
next
  case (world b w w')
  then show ?thesis using lin by simp
qed

lemma hub_run_linear:
  assumes "hub_run pl X E s s'" and lin: "channels_linear (fst s)"
  shows "channels_linear (fst s') \<and> (\<exists>cs. bus_calls (fst s') = bus_calls (fst s) @ cs)"
  using assms(1)
proof (induction rule: rtranclp_induct)
  case (step t u)
  then show ?case using hub_step_linear [OF step(2)] by force
qed (simp add: lin)

lemma hub_run_world: "hub_run pl X E (b, w) (b, w')"
  by (rule r_into_rtranclp, rule hub_step.world)

lemma hub_run_step: "hub_run pl X E s t \<Longrightarrow> hub_step pl X E t u \<Longrightarrow> hub_run pl X E s u"
  by (rule rtranclp.rtrancl_into_rtrancl)

text \<open>The whole operations are sequences of these steps.\<close>

lemma dispatch_runs:
  assumes "bus_dispatch pl X E req_id m meta body (b, w) = Some (res, b', w')"
  shows "hub_run pl X E (b, w) (b', w')"
proof -
  obtain slot w1 where slot: "claim_free_slot (bus_region b) w = Some (slot, w1)"
    using assms by (auto simp: bus_dispatch_def split: bind_splits)
  have claim: "hub_run pl X E (b, w) (b, w1)" by (rule hub_run_world)
  show ?thesis
  proof (cases slot)
    case None
    then show ?thesis using assms slot claim by (auto simp: bus_dispatch_def)
  next
    case (Some i)
    then obtain f b1 w2 where f: "dispatch_fill pl X i req_id m meta body (b, w1) = Some (f, b1, w2)"
      and rest: "(case f of Inl e \<Rightarrow> Some (Inl e, b1, w2) | Inr u \<Rightarrow> Some (dispatch_register E req_id m meta (b1, w2)))
        = Some (res, b', w')"
      using assms slot by (auto simp: bus_dispatch_def and_then_def split: bind_splits sum.splits)
    have run: "hub_run pl X E (b, w) (b1, w2)" by (rule hub_run_step [OF claim hub_step.fill [OF f]])
    then show ?thesis using rest hub_run_step [OF run hub_step.register] by (cases f) auto
  qed
qed

lemma watch_slot_runs:
  assumes "watch_slot pl X i (b, w) = Some (b', w')"
  shows "hub_run pl X E (b, w) (b', w')"
proof -
  from assms obtain got w1 where g: "(case got of None \<Rightarrow> Some (b, w1)
      | Some (req_id, res) \<Rightarrow> Some (watch_resolve X i req_id res (b, w1))) = Some (b', w')"
    by (auto simp: watch_slot_def split: bind_splits prod.splits)
  have release: "hub_run pl X E (b, w) (b, w1)" by (rule hub_run_world)
  show ?thesis using g release hub_run_step [OF release hub_step.resolve]
    by (auto split: option.splits prod.splits)
qed

lemma watch_turn_runs:
  assumes "watch_turn pl X E (b, w) = Some (b', w')"
  shows "hub_run pl X E (b, w) (b', w')"
proof -
  have scan: "watch_scan pl X is (b1, v) = Some (b', w') \<Longrightarrow> hub_run pl X E (b1, v) (b', w')" for "is" b1 v
  proof (induction "is" arbitrary: b1 v)
    case (Cons i "is")
    then obtain b2 v2 where "watch_slot pl X i (b1, v) = Some (b2, v2)" "watch_scan pl X is (b2, v2) = Some (b', w')"
      by (auto split: bind_splits)
    then show ?case using rtranclp_trans [OF watch_slot_runs Cons.IH] by blast
  qed simp
  obtain w1 where "watch_scan pl X (slot_indices (bus_region b)) (b, w1) = Some (b', w')"
    using assms by (auto simp: watch_turn_def split: bind_splits)
  then show ?thesis by (rule rtranclp_trans [OF hub_run_world scan])
qed

section \<open>Property\<close>

text \<open>
  C13: every caller's channel is used at most once and never lost. In whatever order the stages of dispatches,
  of the watcher and of \<open>stop\<close> follow each other, and whatever the shared memory holds, the channels handed out
  since \<open>create\<close> are exactly those waiting in the pending map and those already used; none is used twice, none
  is both, none waits under two ids, and what was sent stays sent.
\<close>

theorem channels_used_once:
  assumes "bus_create pl X E c w0 = Some (Inr b0, w1)" and "hub_run pl X E (b0, w1) (b, w)" and "hub_run pl X E (b, w) (b', w')"
  shows "distinct (settled b) \<and> waiting b \<inter> set (settled b) = {} \<and> waiting b \<union> set (settled b) = {..< bus_next_channel b}
    \<and> (\<forall>id1 id2 t1 t2 l1 l2 ch. bus_pending b id1 = Some (t1, l1, ch) \<longrightarrow> bus_pending b id2 = Some (t2, l2, ch) \<longrightarrow> id1 = id2)
    \<and> (\<exists>cs. bus_calls b' = bus_calls b @ cs)"
proof -
  have "channels_linear b" using hub_run_linear [OF assms(2)] linear_create [OF assms(1)] by simp
  then show ?thesis using hub_run_linear [OF assms(3)] by (simp add: channels_linear_def)
qed

theorem channels_used_once_witness:
  "\<exists>b0 (w :: ref_os world) ch b w'.
      bus_dispatch Linux ref_externals quiet_events ''a'' ''POST'' demo_request [1, 2, 3] (b0, w) = Some (Inr ch, b, w')
    \<and> distinct (settled b) \<and> ch \<in> waiting b \<and> ch \<notin> set (settled b)"
proof -
  obtain \<sigma> where S: "started Linux ref_externals quiet_events demo_config ref_world \<sigma>"
    "simulates ref_view Linux ref_externals initial \<sigma>" "sy_threads \<sigma> = (\<lambda>_. None)"
    "payload_fits (bus_region (sy_bus \<sigma>)) Req 0 (as_bytes ''/x'') [1, 2, 3]" "slot_indices (bus_region (sy_bus \<sigma>)) = [0]"
    by (rule demo_system)
  obtain w1 where hub: "bus_create Linux ref_externals quiet_events demo_config ref_world = Some (Inr (sy_bus \<sigma>), w1)"
    using S(1) by (auto simp: started_def start_system_def)
  have idle: "sy_threads \<sigma> 0 = None" using S(3) by simp
  obtain ch b w where d: "bus_dispatch Linux ref_externals quiet_events ''a'' ''POST'' demo_request [1, 2, 3]
      (sy_bus \<sigma>, sy_world \<sigma>) = Some (Inr ch, b, w)"
    and pend: "[''a'' \<mapsto> ch] = (\<lambda>req_id. map_option (snd \<circ> snd) (bus_pending b req_id))"
    using dispatch_simulated [OF ref_shmem_documented quiet_separate S(2) idle demo_call_ok] S(4,5)
    by (auto simp: initial_def demo_call_def dest!: simulatesD(5))
  obtain t0 l where "bus_pending b ''a'' = Some (t0, l, ch)"
    using fun_cong [OF pend, of "''a''"] by (cases "bus_pending b ''a''") auto
  then have "ch \<in> waiting b" by (rule waitingI)
  moreover have "hub_run Linux ref_externals quiet_events (sy_bus \<sigma>, w1) (b, w)"
    by (rule rtranclp_trans [OF hub_run_world dispatch_runs [OF d]])
  then have "distinct (settled b) \<and> waiting b \<inter> set (settled b) = {}"
    using channels_used_once [OF hub _ rtranclp.rtrancl_refl] by blast
  ultimately show ?thesis using d by blast
qed

end
