(* ===== verification/Loops.thy ===== *)
theory Loops
  imports Demo
begin

text \<open>
  The two threads, for arbitrary contents of the shared memory: a turn of the watcher or of the receive
  loop always returns without leaving the mapping, and the loop ends once \<open>stop\<close> has been called.
\<close>

section \<open>A thread that serves slots\<close>

text \<open>
  The shape both threads share: a loop that stops when \<open>running\<close> is cleared, whose turn waits for an event
  and then serves every slot. \<open>others k\<close> is what other threads do before turn \<open>k\<close>; one of them stops the
  loop before turn \<open>K\<close>.
\<close>

definition stopped_by :: "('s \<Rightarrow> bool) \<Rightarrow> ('s \<Rightarrow> bool) \<Rightarrow> nat \<Rightarrow> (nat \<Rightarrow> 's \<Rightarrow> 's) \<Rightarrow> bool" where
  "stopped_by ok running K others \<longleftrightarrow> (\<forall>k s. ok s \<longrightarrow> ok (others k s)) \<and> (\<forall>s. \<not> running (others K s))"

locale slot_scan =
  fixes ok :: "'s \<Rightarrow> bool"
    and indices :: "'s \<Rightarrow> usize list"
    and serve :: "usize \<Rightarrow> 's \<Rightarrow> 's option"
    and scan :: "usize list \<Rightarrow> 's \<Rightarrow> 's option"
  assumes serve_total: "ok s \<Longrightarrow> i \<in> set (indices s) \<Longrightarrow>
      \<exists>s'. serve i s = Some s' \<and> ok s' \<and> indices s' = indices s"
    and scan_Nil: "scan [] s = Some s"
    and scan_Cons: "scan (i # is) s = Option.bind (serve i s) (scan is)"
begin

lemma scan_total:
  "ok s \<Longrightarrow> set is \<subseteq> set (indices s) \<Longrightarrow> \<exists>s'. scan is s = Some s' \<and> ok s' \<and> indices s' = indices s"
proof (induction "is" arbitrary: s)
  case Nil
  then show ?case by (simp add: scan_Nil)
next
  case (Cons i "is")
  then obtain s1 where "serve i s = Some s1" "ok s1" "indices s1 = indices s" using serve_total [of s i] by auto
  with Cons.IH [of s1] Cons.prems(2) show ?case by (auto simp: scan_Cons)
qed

end

locale slot_service = slot_scan ok indices serve scan
  for ok :: "'s \<Rightarrow> bool"
    and running :: "'s \<Rightarrow> bool"
    and indices :: "'s \<Rightarrow> usize list"
    and serve :: "usize \<Rightarrow> 's \<Rightarrow> 's option"
    and scan :: "usize list \<Rightarrow> 's \<Rightarrow> 's option" +
  fixes turn :: "'s \<Rightarrow> 's option"
    and serve_loop :: "(nat \<Rightarrow> 's \<Rightarrow> 's) \<Rightarrow> nat \<Rightarrow> 's \<Rightarrow> 's option"
  assumes turn_scans: "ok s \<Longrightarrow> \<exists>s1. ok s1 \<and> turn s = scan (indices s1) s1"
    and loop_unfold: "serve_loop others k s =
      (if \<not> running (others k s) then Some (others k s) else Option.bind (turn (others k s)) (serve_loop others (Suc k)))"
begin

lemma turn_total: "ok s \<Longrightarrow> \<exists>s'. turn s = Some s' \<and> ok s'"
  using turn_scans [of s] scan_total by force

lemma loop_ends:
  assumes stop: "stopped_by ok running K others"
  shows "k \<le> K \<Longrightarrow> ok s \<Longrightarrow> \<exists>s'. serve_loop others k s = Some s' \<and> \<not> running s' \<and> ok s'"
proof (induction "K - k" arbitrary: k s)
  case 0
  then have "k = K" by simp
  then have "\<not> running (others k s)" "ok (others k s)" using stop 0 unfolding stopped_by_def by blast+
  then show ?case by (subst loop_unfold) simp
next
  case (Suc n)
  have ok: "ok (others k s)" using stop Suc.prems(2) unfolding stopped_by_def by blast
  show ?case
  proof (cases "running (others k s)")
    case False
    then show ?thesis using ok by (subst loop_unfold) simp
  next
    case True
    obtain s1 where t: "turn (others k s) = Some s1" "ok s1" using turn_total [OF ok] by blast
    have "n = K - Suc k" "Suc k \<le> K" using Suc.hyps(2) by simp_all
    from Suc.hyps(1) [OF this t(2)] show ?thesis using True t(1) by (subst loop_unfold) simp
  qed
qed

end

section \<open>An end that can scan its slots\<close>

definition end_sound ::
  "'os shm_view \<Rightarrow> platform \<Rightarrow> config \<Rightarrow> shm_region \<Rightarrow> (usize \<Rightarrow> shm_region option) \<Rightarrow> 'os world \<Rightarrow> bool" where
  "end_sound V pl c r H w \<longleftrightarrow>
     live V r w \<and> names_ok pl c \<and> (\<forall>i o1. H i = Some o1 \<longrightarrow> r_ptr o1 \<noteq> r_ptr r \<and> shm_seg (r_shmem o1) = r_ptr o1)"

lemma end_soundD:
  assumes "end_sound V pl c r H w"
  shows "live V r w" and "names_ok pl c" and "H i = Some o1 \<Longrightarrow> r_ptr o1 \<noteq> r_ptr r \<and> shm_seg (r_shmem o1) = r_ptr o1"
  using assms unfolding end_sound_def by blast+

lemma end_sound_affects:
  "end_sound V pl c r H w \<Longrightarrow> affects V (r_ptr r) A D w w' \<Longrightarrow> end_sound V pl c r H w'"
  by (auto simp: end_sound_def intro: affects_live)

lemma end_sound_drop:
  assumes doc: "shmem_documented X V" and ok: "end_sound V pl c r H w"
  shows "end_sound V pl c r (H(i := None)) (drop_opt X (H i) w)"
proof -
  have "affects V (r_ptr r) {} (seg_of (H i)) w (drop_opt X (H i) w)"
    using end_soundD [OF ok] liveD(3) by (intro drop_affects [OF doc]) blast+
  from end_sound_affects [OF ok this] show ?thesis by (auto simp: end_sound_def split: if_splits)
qed

lemma end_sound_readers:
  assumes doc: "shmem_documented X V" and ok: "end_sound V pl c r H w" and i: "unat i < unat (r_num_slots r)"
  shows "\<exists>res w'. read_request pl X r i c w = Some (res, w') \<and> end_sound V pl c r H w' \<and> mem w' (r_ptr r) = mem w (r_ptr r)"
    and "\<exists>res w'. read_response pl X r i c w = Some (res, w') \<and> end_sound V pl c r H w' \<and> mem w' (r_ptr r) = mem w (r_ptr r)"
proof -
  note D = end_soundD [OF ok]
  have names: "names_total (request_overflow_name_gen pl c i)" "names_total (response_overflow_name_gen pl c i)"
    using D(2) by (simp_all add: names_ok_def)
  have "end_sound V pl c r H w' \<and> mem w' (r_ptr r) = mem w (r_ptr r)" if "kept V UNIV w w'" for w'
    using end_sound_affects [OF ok kept_affects [OF that liveD(3) [OF D(1)]]] keptD(1) [OF that _ liveD(3) [OF D(1)]] by simp
  then show "\<exists>res w'. read_request pl X r i c w = Some (res, w') \<and> end_sound V pl c r H w' \<and> mem w' (r_ptr r) = mem w (r_ptr r)"
    and "\<exists>res w'. read_response pl X r i c w = Some (res, w') \<and> end_sound V pl c r H w' \<and> mem w' (r_ptr r) = mem w (r_ptr r)"
    using readers_total [OF doc D(1) i names] by blast+
qed

lemma end_sound_status:
  assumes doc: "shmem_documented X V" and ok: "end_sound V pl c r H w" and i: "unat i < unat (r_num_slots r)"
  shows "end_sound V pl c r H (put (r_ptr r) (slot_start i) (le32 v) w)"
  using end_sound_affects [OF ok touches_affects [OF set_status_touches(1) [OF doc end_soundD(1) [OF ok] i]]] by blast

lemma end_sound_wait:
  assumes "events_separate E V" and "pl' = MacOS \<longrightarrow> clock_documented E" and ok: "end_sound V pl c r H w"
  shows "\<exists>b w'. event_wait_timeout pl' E ev ms w = Some (b, w') \<and> end_sound V pl c r H w'"
proof -
  obtain b w' where wt: "event_wait_timeout pl' E ev ms w = Some (b, w')" using wait_total [OF assms(2)] by blast
  from end_sound_affects [OF ok same_affects [OF wait_same [OF assms(1) wt] liveD(3) [OF end_soundD(1) [OF ok]]]] wt
  show ?thesis by blast
qed

section \<open>The watcher\<close>

definition watchable :: "'os shm_view \<Rightarrow> platform \<Rightarrow> bus \<times> 'os world \<Rightarrow> bool" where
  "watchable V pl s = end_sound V pl (bus_config (fst s)) (bus_region (fst s)) (bus_overflow (fst s)) (snd s)"

definition watch_sound ::
  "'os shm_view \<Rightarrow> platform \<Rightarrow> 'os externals \<Rightarrow> 'os event_os \<Rightarrow> bus \<times> 'os world \<Rightarrow> bool" where
  "watch_sound V pl X E s \<longleftrightarrow>
     shmem_documented X V \<and> events_separate E V \<and> (pl = MacOS \<longrightarrow> clock_documented E) \<and> watchable V pl s"

lemma watch_slot_total:
  assumes doc: "shmem_documented X V" and ok: "watchable V pl (b, w)" and i: "unat i < unat (r_num_slots (bus_region b))"
  shows "\<exists>b' w'. watch_slot pl X i (b, w) = Some (b', w') \<and> watchable V pl (b', w') \<and> bus_region b' = bus_region b"
proof -
  let ?r = "bus_region b"
  have es: "end_sound V pl (bus_config b) ?r (bus_overflow b) w" using ok by (simp add: watchable_def)
  note cr = liveD(1) [OF end_soundD(1) [OF es]]
  show ?thesis
  proof (cases "status_at ?r i w = SLOT_DONE")
    case False
    then show ?thesis using ok status_ops(1) [OF cr i] by (simp add: watch_slot_defs)
  next
    case True
    obtain res w1 where rd: "read_response pl X ?r i (bus_config b) w = Some (res, w1)"
      and e1: "end_sound V pl (bus_config b) ?r (bus_overflow b) w1" and m1: "mem w1 (r_ptr ?r) = mem w (r_ptr ?r)"
      using end_sound_readers(2) [OF doc es i] by blast
    let ?w2 = "put (r_ptr ?r) (slot_start i) (le32 SLOT_FREE) w1"
    have cas: "cas_status ?r i SLOT_DONE SLOT_FREE w1 = Some (Inr SLOT_DONE, ?w2)"
      using status_ops(3) [OF liveD(1) [OF end_soundD(1) [OF e1]] i] True m1 by simp
    let ?w3 = "drop_opt X (bus_overflow b i) ?w2"
    have e3: "end_sound V pl (bus_config b) ?r ((bus_overflow b)(i := None)) ?w3"
      by (rule end_sound_drop [OF doc end_sound_status [OF doc e1 i]])
    obtain req_id where id: "read_req_id ?r i w = Some req_id" using read_req_id_eq [OF cr i] by blast
    obtain b' w' where rs: "watch_resolve X i req_id res (b, ?w2) = (b', w')" by fastforce
    then have "w' = ?w3" "bus_region b' = ?r" "bus_config b' = bus_config b" "bus_overflow b' = (bus_overflow b)(i := None)"
      by (auto simp: watch_resolve_def watch_send_def bus_forget_def split: sum.splits prod.splits option.splits)
    moreover have "watch_slot pl X i (b, w) = Some (b', w')"
      using True status_ops(1) [OF cr i] rd id cas rs by (simp add: watch_slot_def watch_release_def Let_def)
    ultimately show ?thesis using e3 by (simp add: watchable_def)
  qed
qed

interpretation watcher: slot_service "watch_sound V pl X E" "\<lambda>s. bus_running (fst s)" "\<lambda>s. slot_indices (bus_region (fst s))"
    "watch_slot pl X" "watch_scan pl X" "watch_turn pl X E" "\<lambda>others k. watch_loop others k pl X E"
  for V :: "'os shm_view" and pl :: platform and X :: "'os externals" and E :: "'os event_os"
proof
  fix s :: "bus \<times> 'os world" and i :: usize and "is" :: "usize list"
  show "watch_scan pl X [] s = Some s" and "watch_scan pl X (i # is) s = Option.bind (watch_slot pl X i s) (watch_scan pl X is)"
    by simp_all
  show "\<exists>s'. watch_slot pl X i s = Some s' \<and> watch_sound V pl X E s' \<and> slot_indices (bus_region (fst s')) = slot_indices (bus_region (fst s))"
    if "watch_sound V pl X E s" "i \<in> set (slot_indices (bus_region (fst s)))"
    using that watch_slot_total [of X V pl "fst s" "snd s" i] by (force simp: watch_sound_def slot_indices_set)
  show "\<exists>s1. watch_sound V pl X E s1 \<and> watch_turn pl X E s = watch_scan pl X (slot_indices (bus_region (fst s1))) s1"
    if ok: "watch_sound V pl X E s"
  proof -
    obtain x w1 where "event_wait_timeout pl E (bus_rsp_event (fst s)) (cfg_wait_timeout_ms (bus_config (fst s))) (snd s) = Some (x, w1)"
      "watchable V pl (fst s, w1)"
      using ok end_sound_wait unfolding watch_sound_def watchable_def by fastforce
    then show ?thesis using ok
      by (intro exI [of _ "(fst s, w1)"]) (auto simp: watch_sound_def watch_turn_def split: prod.splits)
  qed
  show "watch_loop others k pl X E s = (if \<not> bus_running (fst (others k s)) then Some (others k s)
      else Option.bind (watch_turn pl X E (others k s)) (\<lambda>s. watch_loop others (Suc k) pl X E s))" for others k
    by (subst watch_loop.simps) (simp add: Let_def)
qed

section \<open>The receive loop\<close>

definition receivable :: "'os shm_view \<Rightarrow> platform \<Rightarrow> worker \<times> 'os world \<Rightarrow> bool" where
  "receivable V pl s = end_sound V pl (wk_config (fst s)) (wk_region (fst s)) (wk_overflow (fst s)) (snd s)"

text \<open>A handler that returns and leaves the worker's end usable.\<close>

definition handler_returns :: "(worker \<times> 'os world \<Rightarrow> bool) \<Rightarrow> 'os handler \<Rightarrow> bool" where
  "handler_returns ok handler \<longleftrightarrow>
     (\<forall>i rq s. ok s \<longrightarrow> (\<exists>s'. handler i rq s = Some s' \<and> ok s' \<and> wk_region (fst s') = wk_region (fst s)))"

definition receive_sound ::
  "'os shm_view \<Rightarrow> platform \<Rightarrow> 'os externals \<Rightarrow> 'os event_os \<Rightarrow> 'os handler \<Rightarrow> worker \<times> 'os world \<Rightarrow> bool" where
  "receive_sound V pl X E handler s \<longleftrightarrow>
     shmem_documented X V \<and> events_separate E V \<and> (pl = MacOS \<longrightarrow> clock_documented E)
     \<and> handler_returns (receivable V pl) handler \<and> receivable V pl s"

lemma receive_slot_total:
  assumes doc: "shmem_documented X V" and h: "handler_returns (receivable V pl) handler"
    and ok: "receivable V pl (k, w)" and i: "unat i < unat (r_num_slots (wk_region k))"
  shows "\<exists>k' w'. receive_slot pl X handler i (k, w) = Some (k', w') \<and> receivable V pl (k', w') \<and> wk_region k' = wk_region k"
proof -
  let ?r = "wk_region k"
  have es: "end_sound V pl (wk_config k) ?r (wk_overflow k) w" using ok by (simp add: receivable_def)
  note cr = liveD(1) [OF end_soundD(1) [OF es]]
  show ?thesis
  proof (cases "status_at ?r i w = SLOT_READY")
    case False
    then show ?thesis using ok status_ops(3) [OF cr i] by (simp add: receive_slot_def Let_def)
  next
    case True
    let ?w1 = "put (r_ptr ?r) (slot_start i) (le32 SLOT_CLAIMED) w"
    have cas: "cas_status ?r i SLOT_READY SLOT_CLAIMED w = Some (Inr SLOT_READY, ?w1)"
      using status_ops(3) [OF cr i] True by simp
    note e1 = end_sound_status [OF doc es i, of SLOT_CLAIMED]
    obtain res w2 where rd: "read_request pl X ?r i (wk_config k) ?w1 = Some (res, w2)"
      and e2: "end_sound V pl (wk_config k) ?r (wk_overflow k) w2"
      using end_sound_readers(1) [OF doc e1 i] by blast
    show ?thesis
    proof (cases res)
      case (Inl e)
      let ?w3 = "put (r_ptr ?r) (slot_start i) (le32 SLOT_FREE) w2"
      have "receive_slot pl X handler i (k, w) = Some (k, ?w3)"
        using cas rd Inl status_ops(2) [OF liveD(1) [OF end_soundD(1) [OF e2]] i] by (simp add: receive_slot_def Let_def)
      then show ?thesis using end_sound_status [OF doc e2 i] by (simp add: receivable_def)
    next
      case (Inr m)
      obtain req_id u meta body where m: "m = (req_id, u, meta, body)" by (cases m)
      have "receivable V pl (k, w2)" using e2 by (simp add: receivable_def)
      then obtain k' w' where "handler i (decode_request req_id u meta body) (k, w2) = Some (k', w')"
        "receivable V pl (k', w')" "wk_region k' = ?r"
        using h unfolding handler_returns_def by (metis fst_conv surj_pair)
      then show ?thesis using cas rd Inr m by (simp add: receive_slot_def Let_def)
    qed
  qed
qed

interpretation receiver: slot_service "receive_sound V pl X E handler" "\<lambda>s. wk_running (fst s)"
    "\<lambda>s. slot_indices (wk_region (fst s))" "receive_slot pl X handler" "receive_scan pl X handler"
    "receive_turn pl X E handler" "\<lambda>others k. receive_loop others k pl X E handler"
  for V :: "'os shm_view" and pl :: platform and X :: "'os externals" and E :: "'os event_os" and handler :: "'os handler"
proof
  fix s :: "worker \<times> 'os world" and i :: usize and "is" :: "usize list"
  show "receive_scan pl X handler [] s = Some s"
    and "receive_scan pl X handler (i # is) s = Option.bind (receive_slot pl X handler i s) (receive_scan pl X handler is)"
    by simp_all
  show "\<exists>s'. receive_slot pl X handler i s = Some s' \<and> receive_sound V pl X E handler s'
      \<and> slot_indices (wk_region (fst s')) = slot_indices (wk_region (fst s))"
    if "receive_sound V pl X E handler s" "i \<in> set (slot_indices (wk_region (fst s)))"
    using that receive_slot_total [of X V pl handler "fst s" "snd s" i] by (force simp: receive_sound_def slot_indices_set)
  show "\<exists>s1. receive_sound V pl X E handler s1
      \<and> receive_turn pl X E handler s = receive_scan pl X handler (slot_indices (wk_region (fst s1))) s1"
    if ok: "receive_sound V pl X E handler s"
  proof -
    obtain x w1 where "event_wait_timeout pl E (wk_req_event (fst s)) (cfg_wait_timeout_ms (wk_config (fst s))) (snd s) = Some (x, w1)"
      "receivable V pl (fst s, w1)"
      using ok end_sound_wait unfolding receive_sound_def receivable_def by fastforce
    then show ?thesis using ok
      by (intro exI [of _ "(fst s, w1)"]) (auto simp: receive_sound_def receive_turn_def split: prod.splits)
  qed
  show "receive_loop others k pl X E handler s = (if \<not> wk_running (fst (others k s)) then Some (others k s)
      else Option.bind (receive_turn pl X E handler (others k s)) (\<lambda>s. receive_loop others (Suc k) pl X E handler s))" for others k
    by (subst receive_loop.simps) (simp add: Let_def)
qed

section \<open>Ends of a simulated system\<close>

lemma simulated_ends:
  assumes "simulates V pl X S \<sigma>"
  shows "watchable V pl (sy_bus \<sigma>, sy_world \<sigma>)" and "receivable V pl (sy_worker \<sigma>, sy_world \<sigma>)"
proof -
  note sD = simulatesD [OF assms] note L = linked_live [OF sD(2,1)]
  have "names_ok pl (bus_config (sy_bus \<sigma>))" "names_ok pl (wk_config (sy_worker \<sigma>))"
    using sD(2) by (simp_all add: linked_def names_ok_def)
  then show "watchable V pl (sy_bus \<sigma>, sy_world \<sigma>)" and "receivable V pl (sy_worker \<sigma>, sy_world \<sigma>)"
    using sD(1) L(1,2) regions_apartD(1,3) [OF sD(3), of Req _ None] regions_apartD(1,3) [OF sD(3), of Resp _ None]
    by (auto simp: watchable_def receivable_def end_sound_def)
qed

lemma stop_keeps:
  assumes "events_separate E V"
  shows "watchable V pl s \<Longrightarrow> watchable V pl (bus_stop E s)" and "receivable V pl t \<Longrightarrow> receivable V pl (worker_stop E t)"
proof -
  have sound: "end_sound V pl c r H (event_signal E ev w)" if "end_sound V pl c r H w" for c r H ev w
    using end_sound_affects [OF that signal_affects [OF assms liveD(3) [OF end_soundD(1) [OF that]]]] by blast
  then show "watchable V pl s \<Longrightarrow> watchable V pl (bus_stop E s)" and "receivable V pl t \<Longrightarrow> receivable V pl (worker_stop E t)"
    by (auto simp: watchable_def receivable_def bus_stop_def worker_stop_def split: prod.splits)
qed

section \<open>Properties\<close>

text \<open>
  C23: the response watcher is robust and ends. Whatever a worker has written into the shared memory, every
  turn of the watcher returns without leaving the mapping; and if other threads keep its region mapped,
  the loop ends at the latest at the turn before which \<open>stop\<close> is called.
\<close>

theorem watcher_stops:
  assumes "shmem_documented X V" and "events_separate E V" and "pl = MacOS \<longrightarrow> clock_documented E"
    and "stopped_by (watchable V pl) (\<lambda>s. bus_running (fst s)) K others" and "watchable V pl s"
  shows "(\<exists>s'. watch_turn pl X E s = Some s' \<and> watchable V pl s')
    \<and> (\<exists>s'. watch_loop others 0 pl X E s = Some s' \<and> \<not> bus_running (fst s'))"
proof -
  let ?ok = "watch_sound V pl X E"
  have ok: "?ok s" using assms by (simp add: watch_sound_def)
  have "stopped_by ?ok (\<lambda>s. bus_running (fst s)) K others"
    using assms(1-4) by (simp add: watch_sound_def stopped_by_def)
  from watcher.loop_ends [OF this _ ok, of 0] watcher.turn_total [OF ok] show ?thesis
    by (auto simp: watch_sound_def)
qed

theorem watcher_stops_witness:
  "\<exists>s s'. watch_loop (\<lambda>k s. if k = 3 then bus_stop quiet_events s else s) 0 Linux ref_externals quiet_events s = Some s'
    \<and> bus_running (fst s) \<and> \<not> bus_running (fst s')"
proof -
  obtain \<sigma> where S: "started Linux ref_externals quiet_events demo_config ref_world \<sigma>"
    "simulates ref_view Linux ref_externals initial \<sigma>" by (rule demo_system)
  have "bus_running (sy_bus \<sigma>)" using S(1) bus_create_Inr by (auto simp: started_def start_system_def)
  moreover have "stopped_by (watchable ref_view Linux) (\<lambda>s. bus_running (fst s)) 3
      (\<lambda>k s. if k = 3 then bus_stop quiet_events s else s)"
    using stop_keeps(1) [OF quiet_separate] by (auto simp: stopped_by_def bus_stop_def split: prod.splits)
  ultimately show ?thesis
    using watcher_stops [OF ref_shmem_documented quiet_separate _ _ simulated_ends(1) [OF S(2)]] by fastforce
qed

text \<open>
  C24: the receive loop is robust and ends. Whatever the hub's side has written, every turn returns without
  leaving the mapping, for any handler that returns and keeps the worker's region mapped; the loop ends at
  the latest at the turn before which \<open>stop\<close> is called.
\<close>

theorem receiver_stops:
  assumes "shmem_documented X V" and "events_separate E V" and "pl = MacOS \<longrightarrow> clock_documented E"
    and "handler_returns (receivable V pl) handler"
    and "stopped_by (receivable V pl) (\<lambda>s. wk_running (fst s)) K others" and "receivable V pl s"
  shows "(\<exists>s'. receive_turn pl X E handler s = Some s' \<and> receivable V pl s')
    \<and> (\<exists>s'. receive_loop others 0 pl X E handler s = Some s' \<and> \<not> wk_running (fst s'))"
proof -
  let ?ok = "receive_sound V pl X E handler"
  have ok: "?ok s" using assms by (simp add: receive_sound_def)
  have "stopped_by ?ok (\<lambda>s. wk_running (fst s)) K others"
    using assms(1-5) by (simp add: receive_sound_def stopped_by_def)
  from receiver.loop_ends [OF this _ ok, of 0] receiver.turn_total [OF ok] show ?thesis
    by (auto simp: receive_sound_def)
qed


theorem receiver_stops_witness:
  "\<exists>s s'. receive_loop (\<lambda>k s. if k = 3 then worker_stop quiet_events s else s) 0 Linux ref_externals quiet_events
      (\<lambda>i rq s. Some s) s = Some s'
    \<and> wk_running (fst s) \<and> \<not> wk_running (fst s')"
proof -
  obtain \<sigma> where S: "started Linux ref_externals quiet_events demo_config ref_world \<sigma>"
    "simulates ref_view Linux ref_externals initial \<sigma>" by (rule demo_system)
  have "wk_running (sy_worker \<sigma>)" using S(1) worker_open_Inr by (auto simp: started_def start_system_def)
  moreover have "stopped_by (receivable ref_view Linux) (\<lambda>s. wk_running (fst s)) 3
      (\<lambda>k s. if k = 3 then worker_stop quiet_events s else s)"
    using stop_keeps(2) [OF quiet_separate] by (auto simp: stopped_by_def worker_stop_def split: prod.splits)
  moreover have "handler_returns (receivable ref_view Linux) (\<lambda>i rq s. Some s)" by (simp add: handler_returns_def)
  ultimately show ?thesis
    using receiver_stops [OF ref_shmem_documented quiet_separate _ _ _ simulated_ends(2) [OF S(2)]] by fastforce
qed

end
