(* ===== verification/Reference.thy ===== *)
theory Reference
  imports Demo
begin

text \<open>
  Routines of the code against reference definitions: the scans over the slots against one list of
  statuses, and \<open>inline_body_capacity\<close> against what the writers accept.
\<close>

section \<open>The scans\<close>

definition statuses :: "shm_region \<Rightarrow> 'os world \<Rightarrow> (usize \<times> u32) list" where
  "statuses r w = map (\<lambda>i. (i, status_at r i w)) (slot_indices r)"

lemma diagnose_eq:
  assumes "control_region r w" and "\<And>i. i \<in> set is \<Longrightarrow> unat i < unat (r_num_slots r)"
  shows "diagnose r is w = Some (map (\<lambda>i. (i, status_at r i w)) is)"
  using assms(2) by (induction "is") (simp_all add: status_ops(1) [OF assms(1)])

lemma find_statuses:
  "map_option fst (find (\<lambda>(i, st). st = SLOT_FREE) (map (\<lambda>i. (i, f i)) is)) = find (\<lambda>i. f i = SLOT_FREE) is"
  by (induction "is") simp_all

text \<open>
  C27: the scans of the slots agree. On a well-formed region \<open>slot_diagnostics\<close> returns every slot with its
  status, in order; \<open>has_inflight_slots\<close> tells whether one of these is not free; \<open>find_free_slot\<close> and
  \<open>claim_free_slot\<close> both give the first free entry of that list, or none.
\<close>

theorem scans_agree:
  assumes "control_region (bus_region b) w"
  shows "slot_diagnostics b w = Some (statuses (bus_region b) w)
    \<and> has_inflight_slots (bus_region b) w = Some (\<exists>(i, st) \<in> set (statuses (bus_region b) w). st \<noteq> SLOT_FREE)
    \<and> find_free_slot (bus_region b) w
        = Some (map_option fst (find (\<lambda>(i, st). st = SLOT_FREE) (statuses (bus_region b) w)))
    \<and> map_option fst (claim_free_slot (bus_region b) w) = find_free_slot (bus_region b) w"
proof -
  have idx: "\<And>i. i \<in> set (slot_indices (bus_region b)) \<Longrightarrow> unat i < unat (r_num_slots (bus_region b))"
    by (simp add: slot_indices_set)
  have find: "find_free_slot (bus_region b) w = Some (find (\<lambda>i. status_at (bus_region b) i w = SLOT_FREE) (slot_indices (bus_region b)))"
    using find_first_free_eq [OF assms idx] by (simp add: find_free_slot_def)
  show ?thesis
    using diagnose_eq [OF assms idx] any_inflight_eq [OF assms idx] claim_first_eq [OF assms idx] find
    by (auto simp: slot_diagnostics_def statuses_def has_inflight_slots_def claim_free_slot_def find_statuses split: option.splits)
qed

theorem scans_agree_witness:
  "\<exists>(\<sigma> :: ref_os system). slot_diagnostics (sy_bus \<sigma>) (sy_world \<sigma>) = Some [(0, SLOT_FREE)]
    \<and> find_free_slot (bus_region (sy_bus \<sigma>)) (sy_world \<sigma>) = Some (Some 0)"
proof -
  obtain \<sigma> where S: "simulates ref_view Linux ref_externals initial \<sigma>" "slots_of \<sigma> = 1"
    "slot_indices (bus_region (sy_bus \<sigma>)) = [0]" by (rule demo_system)
  have "unat (0 :: usize) < slots_of \<sigma>" using S(2) by simp
  from slot_matches_phase(1) [OF sim_slot [OF S(1) this]]
  have "status_at (bus_region (sy_bus \<sigma>)) 0 (sy_world \<sigma>) = SLOT_FREE" by (simp add: initial_def)
  then have "statuses (bus_region (sy_bus \<sigma>)) (sy_world \<sigma>) = [(0, SLOT_FREE)]" using S(3) by (simp add: statuses_def)
  then show ?thesis using scans_agree [OF liveD(1) [OF simulatesD(1) [OF S(1)]]] by auto
qed

section \<open>The inline capacity\<close>

lemma arena_sizes: "snd (arena r s i) = snd (arena r s 0)"
  by (cases s) (simp_all add: arena_def region_slot_arenas_def slot_arenas_def Let_def)

lemma capacity_min:
  "inline_body_capacity r n = saturating_sub (min (snd (arena r Req 0)) (snd (arena r Resp 0))) (align8 n)"
  by (simp add: inline_body_capacity_def arena_def split: prod.splits)

lemma capacity_inline:
  assumes "slice_len_ok meta" and "body \<noteq> []"
  shows "length body \<le> unat (inline_body_capacity r (usize_of (length meta))) \<longleftrightarrow>
    (\<forall>s. inline_fits r s i meta body)"
proof -
  let ?a = "snd (arena r Req 0)" and ?b = "snd (arena r Resp 0)" and ?n = "(length meta + 7) div 8 * 8"
  have al: "unat (align8 (usize_of (length meta))) = ?n"
    using assms(1) by (simp add: unat_align8 slice_len_ok_def)
  have "(\<forall>s. inline_fits r s i meta body) \<longleftrightarrow> inline_fits r Req i meta body \<and> inline_fits r Resp i meta body"
    by (metis side.exhaust)
  then have "(\<forall>s. inline_fits r s i meta body) \<longleftrightarrow> ?n + length body \<le> min (unat ?a) (unat ?b)"
    using assms(2) unfolding inline_fits_def arena_sizes [of r Req i] arena_sizes [of r Resp i] by simp
  moreover have "min (unat ?a) (unat ?b) = unat (min ?a ?b)"
    by (simp add: min_def word_le_nat_alt)
  moreover have "unat (saturating_sub x y) = unat x - unat y" for x y :: usize
    by (simp add: saturating_sub_def word_less_nat_alt unat_sub_if_size)
  ultimately show ?thesis
    using assms(2) by (cases body) (auto simp: capacity_min al)
qed


text \<open>
  \<open>inline_body_capacity\<close> is exact. A non-empty body is within the capacity reported for its metadata
  exactly when it fits inline beside that metadata in both arenas of every slot; then both writers accept
  it and create no overflow region.
\<close>

theorem inline_capacity_exact:
  assumes "shmem_documented X V" and "live V r w" and "unat i < unat (r_num_slots r)"
    and "slice_len_ok meta" and "slice_len_ok body" and "names_ok pl c" and "body \<noteq> []"
  shows "(length body \<le> unat (inline_body_capacity r (usize_of (length meta))) \<longleftrightarrow> (\<forall>s. inline_fits r s i meta body))
    \<and> (length body \<le> unat (inline_body_capacity r (usize_of (length meta))) \<longrightarrow>
        (\<exists>w'. write_request pl X r i req_id m meta body c w = Some (Inr None, w'))
      \<and> (\<exists>w'. write_response pl X r i status meta body c w = Some (Inr None, w')))"
proof -
  note cap = capacity_inline [OF assms(4,7), of r i]
  have names: "names_total (request_overflow_name_gen pl c i)" "names_total (response_overflow_name_gen pl c i)"
    using assms(6) by (simp_all add: names_ok_def)
  have "payload_fits r s i meta body" if "\<forall>s. inline_fits r s i meta body" for s
  proof -
    have "(length meta + 7) div 8 * 8 + length body \<le> unat (snd (arena r s i))"
      using that assms(7) unfolding inline_fits_def by blast
    then have "length meta \<le> unat (snd (arena r s i))" by linarith
    then show ?thesis using that by (simp add: payload_fits_def)
  qed
  then show ?thesis
    using cap write_request_result [OF assms(1-5) names(1), of req_id m]
      write_response_result [OF assms(1-5) names(2), of status] by metis
qed

theorem inline_capacity_exact_witness:
  "inline_body_capacity demo_region 2 = 24
   \<and> (\<exists>w'. write_request Linux ref_externals demo_region 0 ''a'' 1 (as_bytes ''/x'') (replicate 24 7) demo_config demo_world
        = Some (Inr None, w'))
   \<and> \<not> inline_fits demo_region Req 0 (as_bytes ''/x'') (replicate 25 7)"
proof -
  have c: "inline_body_capacity demo_region 2 = 24"
    using demo_arena by (simp add: capacity_min saturating_sub_def align8_def)
  have "usize_of (length (as_bytes ''/x'')) = 2" by (simp add: usize_of_def)
  then show ?thesis
    using inline_capacity_exact [OF ref_shmem_documented demo_live, of 0 "as_bytes ''/x''" "replicate 24 7" Linux demo_config
        "''a''" 1 200] c demo_names
    by (auto simp: slice_len_ok_def names_ok_def inline_fits_def demo_arena)
qed

end
