(* ===== verification/Hazards.thy ===== *)
theory Hazards
  imports System Loops
begin

text \<open>
  Where the code breaks its own promises, each shown on the code's model: a slot index out of range, a
  request published before it is registered, metadata that cannot be serialised, a slot released before its
  region is dropped, request ids longer than the field, and names that collide.
\<close>

section \<open>A slot index out of range\<close>

text \<open>
  C36: \<open>send_response\<close> is a safe public function that takes the slot index from its caller. For the first
  index past the last slot it reports \<open>InvalidRegion\<close>, but its error path then stores \<open>SLOT_FREE\<close> at the
  place of that slot's status word: the first four bytes of the heap, that is of the first request's
  metadata, become zero, and without a heap the store leaves the mapping.
\<close>

theorem out_of_range_response_writes_heap:
  assumes "control_region (wk_region k) w" and "wk_overflow k (r_num_slots (wk_region k)) = None"
    and "response_to_vec X \<lparr>content_type = ctype, resp_headers = headers\<rparr> = Inr mb"
  shows "\<exists>msg. send_response pl X E (r_num_slots (wk_region k)) status body ctype headers (k, w) =
    (if 4 \<le> unat (r_len (wk_region k)) - unat (r_heap_offset (wk_region k))
     then Some (Inl (InvalidRegion msg), k, put (r_ptr (wk_region k)) (unat (r_heap_offset (wk_region k))) (le32 0) w)
     else None)"
proof -
  let ?r = "wk_region k"
  note D = control_regionD [OF assms(1)]
  have base: "slot_base (r_num_slots ?r) = unat (r_heap_offset ?r)"
    using D(2,4) by (simp add: slot_base_def protocol_consts unat_word_ariths unsigned_less)
  have "unat (r_heap_offset ?r) mod 4 = 0" using D(2) by (simp add: mod_simps)
  then have "store_status ?r (r_num_slots ?r) SLOT_FREE w =
      (if 4 \<le> unat (r_len ?r) - unat (r_heap_offset ?r)
       then Some (put (r_ptr ?r) (unat (r_heap_offset ?r)) (le32 0) w) else None)"
    using D(1) base by (auto simp: store_status_def mem_simps protocol_consts atomic_store_def write_u32_def mem_write_def put_def)
  then show ?thesis
    using assms(2,3)
    by (auto simp: send_response_def write_response_def worker_forget_def drop_opt_def fun_upd_idem)
qed

definition demo_worker :: worker where
  "demo_worker = \<lparr>wk_config = demo_config, wk_region = demo_region, wk_req_event = WindowsEvent 1,
     wk_rsp_event = WindowsEvent 1, wk_overflow = (\<lambda>_. None), wk_running = True\<rparr>"

theorem out_of_range_response_writes_heap_witness:
  "\<exists>msg. send_response Linux ref_externals quiet_events 1 200 [] ''t'' [] (demo_worker, demo_world)
    = Some (Inl (InvalidRegion msg), demo_worker, put 0 192 (le32 0) demo_world)"
proof -
  have f: "wk_region demo_worker = demo_region" "wk_overflow demo_worker = (\<lambda>_. None)" by (simp_all add: demo_worker_def)
  have "response_to_vec ref_externals \<lparr>content_type = ''t'', resp_headers = []\<rparr> = Inr (as_bytes ''t'')"
    using demo_response_vec by (simp add: demo_response_def)
  from out_of_range_response_writes_heap [of demo_worker demo_world, OF _ _ this] f show ?thesis by simp
qed

section \<open>Ids longer than the field\<close>

text \<open>
  A request id of more than 36 bytes is accepted and cut. The reader of the slot, the watcher
  included, sees its first 36 bytes, which is not the id the caller is registered under, so no response
  ever resolves the caller's channel.
\<close>

theorem long_request_id_is_cut:
  assumes "shmem_documented X V" and "live V r w" and "unat i < unat (r_num_slots r)"
    and "names_total (request_overflow_name_gen pl c i)" and "length meta < 2 ^ 16" and "length body < 2 ^ 32"
    and "write_request pl X r i req_id m meta body c w = Some (Inr ovf, w')"
    and "36 < length req_id" and "0 \<notin> set (as_bytes req_id)" and "valid_utf8 (take 36 (as_bytes req_id))"
  shows "read_req_id r i w' = Some (take 36 req_id) \<and> take 36 req_id \<noteq> req_id"
proof -
  have lens: "slice_len_ok meta" "slice_len_ok body" using assms(5,6) by (simp_all add: slice_len_ok_def)
  have t: "touches V (r_ptr r) (request_area r i \<union> status_area i) w w'"
    and st: "request_stored V pl c r i req_id m meta body ovf w'"
    using write_request_result [OF assms(1-3) lens assms(4), of req_id m] assms(5-7) by auto
  have "read_req_id r i w' = Some (decode_req_id (req_id_field req_id))"
    using read_req_id_eq [OF liveD(1) [OF live_touches [OF assms(2) t]] assms(3)] st by (simp add: request_stored_def)
  moreover have "take 36 req_id \<noteq> req_id" using assms(8) by (metis length_take min.absorb2 nat_less_le)
  ultimately show ?thesis using decode_req_id_field_cut [OF assms(10,9)] by simp
qed


theorem long_request_id_is_cut_witness:
  "\<exists>w'. write_request Linux ref_externals demo_region 0 (replicate 40 CHR ''a'') 1 (as_bytes ''/x'') [1, 2, 3] demo_config demo_world
      = Some (Inr None, w') \<and> read_req_id demo_region 0 w' = Some (replicate 36 CHR ''a'')"
proof -
  let ?id = "replicate 40 CHR ''a''"
  obtain w' where w': "write_request Linux ref_externals demo_region 0 ?id 1 (as_bytes ''/x'') [1, 2, 3] demo_config demo_world
      = Some (Inr None, w')"
    using write_request_result [OF ref_shmem_documented demo_live, of 0 "as_bytes ''/x''" "[1, 2, 3]"
        Linux demo_config ?id 1] demo_fits
    by (auto simp: slice_len_ok_def)
  have b: "as_bytes ?id = replicate 40 97" by (simp add: as_bytes_def)
  have "valid_utf8 (take 36 (as_bytes ?id))" unfolding b by (rule valid_utf8_ascii) (auto simp: in_set_replicate)
  moreover have "0 \<notin> set (as_bytes ?id)" unfolding b by (simp add: in_set_replicate)
  ultimately show ?thesis
    using long_request_id_is_cut [OF ref_shmem_documented demo_live _ demo_names(1) _ _ w'] w' by simp
qed

section \<open>Metadata that cannot be serialised\<close>

text \<open>A slot that is being filled by nobody.\<close>

definition abandoned :: "spec \<Rightarrow> 'os system \<Rightarrow> usize \<Rightarrow> bool" where
  "abandoned S \<sigma> i \<longleftrightarrow> sp_phase S i = Writing \<and> (\<forall>t a. sy_threads \<sigma> t = Some a \<longrightarrow> slot_of a \<noteq> Some i)"

lemma abandoned_step:
  assumes doc: "shmem_documented X V" "postcard_documented X" "events_separate E V"
    and sim: "simulates V pl X S \<sigma>" and ab: "abandoned S \<sigma> i" and step: "sys_step pl X E \<sigma> e \<sigma>'"
  shows "\<exists>S'. simulates V pl X S' \<sigma>' \<and> abandoned S' \<sigma>' i"
proof -
  obtain S' where sp: "spec_step S e S'" and sim': "simulates V pl X S' \<sigma>'"
    using system_step_simulated [OF doc sim step] by blast
  have ph: "sp_phase S i = Writing" and nobody: "\<And>t a. sy_threads \<sigma> t = Some a \<Longrightarrow> slot_of a \<noteq> Some i"
    using ab by (auto simp: abandoned_def)
  have no: "sy_threads \<sigma> t \<noteq> Some (Filling i c)" "sy_threads \<sigma> t \<noteq> Some (Cleared i c)" "sy_threads \<sigma> t \<noteq> Some (Reading i)"
    "sy_threads \<sigma> t \<noteq> Some (Handling i rq)" for t c rq
    using nobody [of t "Filling i c"] nobody [of t "Cleared i c"] nobody [of t "Reading i"] nobody [of t "Handling i rq"] by auto
  have e: "phase_change e \<noteq> Some i"
  proof
    assume p: "phase_change e = Some i"
    then have "(\<exists>c. e = Publish i c) \<or> e = Abort i"
      by (rule_tac spec_step.cases [OF sp]) (use ph in auto)
    then show False using step no by (auto elim!: sys_step.cases simp: dropped_def replaced_def split: if_splits)
  qed
  have "sp_phase S' i = Writing" using spec_step_other [OF sp e] ph by simp
  moreover have "slot_of a \<noteq> Some i" if "sy_threads \<sigma>' t = Some a" for t a
    by (rule sys_step.cases [OF step]) (use that nobody no e in \<open>auto split: if_splits\<close>)
  ultimately show ?thesis using sim' by (auto simp: abandoned_def)
qed

lemma abandoned_run:
  assumes "sys_run pl X E \<sigma> es \<sigma>'" and doc: "shmem_documented X V" "postcard_documented X" "events_separate E V"
    and "simulates V pl X S \<sigma>" and "abandoned S \<sigma> i"
  shows "\<exists>S'. simulates V pl X S' \<sigma>' \<and> abandoned S' \<sigma>' i"
  using assms(1,5,6)
proof (induction rule: sys_run.induct)
  case (sys_more \<sigma> es \<tau> e \<upsilon>)
  then obtain T where "simulates V pl X T \<tau>" "abandoned T \<tau> i" by blast
  from abandoned_step [OF doc this sys_more.hyps(2)] show ?case .
qed blast

text \<open>
  C37: a call whose metadata cannot be serialised costs a slot. \<open>dispatch\<close> reserves the slot before it
  serialises; on the error it returns without releasing it, and no later step of hub or worker, in any
  interleaving, ever frees the slot again: its status stays \<open>Writing\<close> for the life of the region.
\<close>

theorem unserialisable_call_leaks_slot:
  assumes "shmem_documented X V" and "postcard_documented X" and "events_separate E V"
    and "simulates V pl X S \<sigma>" and "sy_threads \<sigma> t = None" and "call_ok X c"
    and "request_to_vec X (cl_meta c) = Inl err"
    and "find (\<lambda>i. sp_phase S i = Free) (slot_indices (bus_region (sy_bus \<sigma>))) = Some i"
  shows "\<exists>w. bus_dispatch pl X E (cl_id c) (cl_method c) (cl_meta c) (cl_body c) (sy_bus \<sigma>, sy_world \<sigma>)
      = Some (Inl (Serialization err), sy_bus \<sigma>, w)
    \<and> (\<forall>es \<sigma>'. sys_run pl X E (\<sigma>\<lparr>sy_world := w\<rparr>) es \<sigma>' \<longrightarrow>
         slot_status (bus_region (sy_bus \<sigma>')) i (sy_world \<sigma>') = Some SLOT_WRITING)"
proof -
  let ?S1 = "set_phase i Writing S"
  note sD = simulatesD [OF assms(4)]
  obtain w where run: "bus_dispatch pl X E (cl_id c) (cl_method c) (cl_meta c) (cl_body c) (sy_bus \<sigma>, sy_world \<sigma>)
      = Some (Inl (Serialization err), sy_bus \<sigma>, w)"
    and fi: "unat i < slots_of \<sigma>" "sp_phase S i = Free" and sim2: "simulates V pl X ?S1 (\<sigma>\<lparr>sy_world := w\<rparr>)"
    using dispatch_unserialisable [OF assms(1,4-8)] by blast
  have "slot_of a \<noteq> Some i" if "sy_threads \<sigma> u = Some a" for u a
    using unowned_phase(1) [OF sD(6) _ _ that] fi(2) by simp
  then have ab: "abandoned ?S1 (\<sigma>\<lparr>sy_world := w\<rparr>) i" by (simp add: abandoned_def set_phase_def)
  have "slot_status (bus_region (sy_bus \<sigma>')) i (sy_world \<sigma>') = Some SLOT_WRITING"
    if later: "sys_run pl X E (\<sigma>\<lparr>sy_world := w\<rparr>) es \<sigma>'" for es \<sigma>'
  proof -
    obtain S' where S': "simulates V pl X S' \<sigma>'" "abandoned S' \<sigma>' i"
      using abandoned_run [OF later assms(1-3) sim2 ab] by blast
    have "slots_of \<sigma>' = slots_of \<sigma>" using run_slots [OF later] by (simp add: slots_of_def)
    then have "unat i < slots_of \<sigma>'" using fi by simp
    from simulated_status [OF S'(1) this] S'(2) show ?thesis by (simp add: abandoned_def status_code_def)
  qed
  then show ?thesis using run by blast
qed

theorem unserialisable_call_leaks_slot_witness:
  "\<exists>(\<sigma> :: ref_os system) err w. bus_dispatch Linux ref_externals quiet_events ''a'' ''POST'' (demo_request\<lparr>route_pattern := ''/x''\<rparr>)
      [1, 2, 3] (sy_bus \<sigma>, sy_world \<sigma>) = Some (Inl (Serialization err), sy_bus \<sigma>, w)
    \<and> (\<forall>es \<sigma>'. sys_run Linux ref_externals quiet_events (\<sigma>\<lparr>sy_world := w\<rparr>) es \<sigma>' \<longrightarrow>
         slot_status (bus_region (sy_bus \<sigma>')) 0 (sy_world \<sigma>') = Some SLOT_WRITING)"
proof -
  obtain \<sigma> where S: "simulates ref_view Linux ref_externals initial \<sigma>" "sy_threads \<sigma> = (\<lambda>_. None)"
    "slot_indices (bus_region (sy_bus \<sigma>)) = [0]" by (rule demo_system)
  let ?c = "demo_call\<lparr>cl_meta := demo_request\<lparr>route_pattern := ''/x''\<rparr>\<rparr>"
  have vec: "request_to_vec ref_externals (cl_meta ?c) = Inl ''unsupported''"
    by (simp add: ref_externals_def ref_request_to_vec_def demo_request_def)
  then have ok: "call_ok ref_externals ?c" using demo_call_ok(1) by (simp add: call_ok_def)
  have idle: "sy_threads \<sigma> 0 = None" using S(2) by simp
  have free: "find (\<lambda>i. sp_phase initial i = Free) (slot_indices (bus_region (sy_bus \<sigma>))) = Some 0"
    using S(3) by (simp add: initial_def)
  from unserialisable_call_leaks_slot [OF ref_shmem_documented ref_postcard_documented quiet_separate S(1) idle ok vec free]
  show ?thesis by (auto simp: demo_call_def)
qed

section \<open>A reply before the registration\<close>

text \<open>
  C38: \<open>dispatch\<close> publishes a request before it registers the caller's channel. When the worker answers
  and the watcher collects in between, the reply is thrown away: nobody is resolved, the slot is free
  again, and the channel registered afterwards waits although its only reply is gone.
\<close>

theorem early_reply_is_lost:
  assumes "shmem_documented X V" and "postcard_documented X" and "events_separate E V"
    and "simulates V pl X S \<sigma>" and "sy_threads \<sigma> t = Some (Registering c)" and "unat i < slots_of \<sigma>"
    and "sp_taken S = None" and "sp_phase S i = Done c p" and "\<not> sp_lost S i" and "sp_pending S (cl_id c) = None"
  shows "\<exists>o1 ch \<sigma>' S'. sys_run pl X E \<sigma> [Release i, dropped Req i o1, Resolve [], Register (cl_id c) ch] \<sigma>'
    \<and> simulates V pl X S' \<sigma>'
    \<and> sp_phase S' = (sp_phase S)(i := Free) \<and> sp_pending S' = (sp_pending S)(cl_id c \<mapsto> ch)"
proof -
  let ?S1 = "(set_phase i Free S)\<lparr>sp_pending := (sp_pending S)(cl_id c := None)\<rparr>"
  let ?T = "\<lambda>b w. \<sigma>\<lparr>sy_bus := b, sy_world := w\<rparr>"
  have "resolution (sp_pending S (cl_id c)) p = []" using assms(10) by (simp add: resolution_def)
  then obtain o1 b w where r1: "sys_run pl X E \<sigma> [Release i, dropped Req i o1, Resolve []] (?T b w)"
    and sim1: "simulates V pl X ?S1 (?T b w)"
    using collect_steps [where E = E, OF assms(1,2,4,6-9)] by auto
  have th: "sy_threads (?T b w) t = Some (Registering c)" using assms(5) by simp
  obtain ch \<sigma>' where s2: "sys_step pl X E (?T b w) (Register (cl_id c) ch) \<sigma>'"
    and sim2: "simulates V pl X (?S1\<lparr>sp_pending := (sp_pending ?S1)(cl_id c \<mapsto> ch)\<rparr>) \<sigma>'"
    using register_enabled [OF assms(3) sim1 th] by blast
  have "sys_run pl X E \<sigma> [Release i, dropped Req i o1, Resolve [], Register (cl_id c) ch] \<sigma>'"
    using sys_more [OF r1 s2] by simp
  then show ?thesis using sim2 by (intro exI conjI) (assumption, assumption, simp_all add: set_phase_def)
qed

lemma demo_unregistered:
  obtains S and \<sigma> :: "ref_os system" where "simulates ref_view Linux ref_externals S \<sigma>"
    and "sy_threads \<sigma> 0 = Some (Registering demo_call)" and "slots_of \<sigma> = 1"
    and "sp_phase S 0 = Done demo_call (demo_answer (request_of demo_call))" and "sp_pending S (cl_id demo_call) = None"
    and "sp_taken S = None" and "\<not> sp_lost S 0"
proof -
  note doc = ref_shmem_documented ref_postcard_documented quiet_separate
  let ?p = "demo_answer (request_of demo_call)" and ?X = ref_externals and ?E = "quiet_events :: ref_os event_os"
  obtain \<sigma> where S: "simulates ref_view Linux ?X initial \<sigma>" "sy_threads \<sigma> = (\<lambda>_. None)" "slots_of \<sigma> = 1"
    "payload_fits (bus_region (sy_bus \<sigma>)) Req 0 (as_bytes ''/x'') [1, 2, 3]"
    "payload_fits (wk_region (sy_worker \<sigma>)) Resp 0 (as_bytes ''t'') [1, 2, 3]" by (rule demo_system)
  let ?T = "\<lambda>b w. \<sigma>\<lparr>sy_bus := b, sy_world := w, sy_threads := (sy_threads \<sigma>)(0 \<mapsto> Registering demo_call)\<rparr>"
    and ?S1 = "put_message 0 (Ready demo_call) initial"
  have f: "sy_threads \<sigma> 0 = None" "unat (0 :: usize) < slots_of \<sigma>" "sp_phase initial 0 = Free"
    "payload_fits (bus_region (sy_bus \<sigma>)) Req 0 (as_bytes ''/x'') (cl_body demo_call)"
    using S(2-4) by (simp_all add: initial_def demo_call_def)
  obtain b w where b: "bus_region b = bus_region (sy_bus \<sigma>)" and m1: "simulates ref_view Linux ?X ?S1 (?T b w)"
    using publish_steps [where E = ?E, OF doc(1) S(1) f(1-3) demo_call_ok f(4)] by blast
  have g: "sy_threads (?T b w) 1 = None" "unat (0 :: usize) < slots_of (?T b w)" "sp_phase ?S1 0 = Ready demo_call"
    "\<not> sp_lost ?S1 0"
    using S(2,3) b by (simp_all add: slots_of_def put_message_def set_phase_def)
  have fits: "payload_fits (wk_region (sy_worker (?T b w))) Resp 0 (as_bytes ''t'') (rp_body ?p)"
    using S(5) by (simp add: demo_answer_ok(1))
  obtain k w' where m2: "simulates ref_view Linux ?X (put_message 0 (Done demo_call ?p) ?S1) (with_worker (?T b w) (k, w'))"
    using answer_steps [where E = ?E, OF doc m1 g demo_answer_ok(2,3) fits] by blast
  show ?thesis
    by (rule that [OF m2]) (use S(3) b in \<open>simp_all add: slots_of_def put_message_def set_phase_def initial_def\<close>)
qed

theorem early_reply_is_lost_witness:
  "\<exists>(\<sigma> :: ref_os system) o1 ch \<sigma>' S'.
      sys_run Linux ref_externals quiet_events \<sigma> [Release 0, dropped Req 0 o1, Resolve [], Register ''a'' ch] \<sigma>'
    \<and> simulates ref_view Linux ref_externals S' \<sigma>' \<and> sp_phase S' 0 = Free \<and> sp_pending S' ''a'' = Some ch"
proof -
  obtain S and \<sigma> :: "ref_os system" where D: "simulates ref_view Linux ref_externals S \<sigma>"
    "sy_threads \<sigma> 0 = Some (Registering demo_call)" "slots_of \<sigma> = 1"
    "sp_phase S 0 = Done demo_call (demo_answer (request_of demo_call))" "sp_pending S (cl_id demo_call) = None"
    "sp_taken S = None" "\<not> sp_lost S 0"
    by (rule demo_unregistered)
  have "unat (0 :: usize) < slots_of \<sigma>" using D(3) by simp
  from early_reply_is_lost [OF ref_shmem_documented ref_postcard_documented quiet_separate D(1,2) this D(6,4,7,5)]
  obtain o1 ch \<sigma>' S' where "sys_run Linux ref_externals quiet_events \<sigma> [Release 0, dropped Req 0 o1, Resolve [], Register ''a'' ch] \<sigma>'"
    "simulates ref_view Linux ref_externals S' \<sigma>'" "sp_phase S' 0 = Free" "sp_pending S' ''a'' = Some ch"
    by (auto simp: demo_call_def)
  then show ?thesis by blast
qed

section \<open>A slot released before its region is dropped\<close>

text \<open>
  The watcher frees a slot before it removes the slot's entry from the map of overflow regions. If a
  dispatch takes the slot in between and publishes a request with an overflow body, the watcher's
  \<open>remove\<close> drops that new region: the request is still \<open>Ready\<close>, but the hub no longer holds the segment
  its body is in.
\<close>

theorem late_remove_drops_new_region:
  assumes "shmem_documented X V" and "live V (bus_region b) w" and "unat i < unat (r_num_slots (bus_region b))"
    and "slot_status (bus_region b) i w = Some SLOT_READY"
    and "bus_overflow b i = Some o1" and "r_ptr o1 \<noteq> r_ptr (bus_region b)" and "shm_seg (r_shmem o1) = r_ptr o1"
    and "watch_resolve X i req_id res (b, w) = (b', w')"
  shows "slot_status (bus_region b') i w' = Some SLOT_READY \<and> bus_overflow b' i = None
    \<and> handles V w' (r_ptr o1) = handles V w (r_ptr o1) - 1"
proof -
  let ?r = "bus_region b"
  have b': "w' = region_drop X o1 w" "bus_region b' = ?r" "bus_overflow b' i = None"
    using assms(5,8)
    by (auto simp: watch_resolve_def watch_send_def bus_forget_def drop_opt_def split: sum.splits prod.splits option.splits)
  note k = kept_drop [OF assms(1), of "r_shmem o1" w]
  have "mem w' (r_ptr ?r) = mem w (r_ptr ?r)"
    using keptD(1) [OF k _ liveD(3) [OF assms(2)]] assms(6,7) b'(1) by (simp add: region_drop_def)
  moreover have "control_region ?r w'" using control_region_bytes [OF _ liveD(1) [OF assms(2)]] calculation by metis
  ultimately have "slot_status ?r i w' = Some SLOT_READY"
    using assms(3,4) liveD(1) [OF assms(2)] by (simp add: status_ops(1))
  moreover have "handles V w' (r_ptr o1) = handles V w (r_ptr o1) - 1"
    using drop_handles [OF assms(1), of "r_shmem o1" w] assms(7) b'(1) by (simp add: region_drop_def)
  ultimately show ?thesis using b' by simp
qed

theorem late_remove_drops_new_region_witness:
  "\<exists>b w b' w' i. watch_resolve ref_externals i ''a'' (Inl (InvalidRegion [])) (b, w) = (b', w')
    \<and> bus_overflow b i \<noteq> None \<and> slot_status (bus_region b') i w' = Some SLOT_READY \<and> bus_overflow b' i = None"
proof -
  let ?o = "region_of_shmem ''slotbus-demo-req-0'' \<lparr>shm_seg = 5, shm_addr = 0, shm_len = 64, shm_owner = True\<rparr>"
  let ?b = "\<lparr>bus_config = demo_config, bus_region = demo_region, bus_req_event = WindowsEvent 1, bus_rsp_event = WindowsEvent 1,
    bus_pending = (\<lambda>_. None), bus_overflow = (\<lambda>_. Some ?o), bus_running = True, bus_calls = [], bus_next_channel = 0\<rparr>"
  let ?w = "put (r_ptr demo_region) (slot_start 0) (le32 SLOT_READY) demo_world"
  have i: "unat (0 :: usize) < unat (r_num_slots demo_region)" by simp
  note T = set_status_touches [OF ref_shmem_documented demo_live i, of SLOT_READY]
  have lv: "live ref_view demo_region ?w" by (rule live_touches [OF demo_live T(1)])
  have st: "slot_status demo_region 0 ?w = Some SLOT_READY" using status_ops(1) [OF liveD(1) [OF lv] i] T(2) by simp
  obtain b' w' where run: "watch_resolve ref_externals 0 ''a'' (Inl (InvalidRegion [])) (?b, ?w) = (b', w')" by fastforce
  have "slot_status (bus_region b') 0 w' = Some SLOT_READY \<and> bus_overflow b' 0 = None"
    using late_remove_drops_new_region [OF ref_shmem_documented, of ?b ?w 0 ?o] lv st run by simp
  then show ?thesis using run by (intro exI [of _ ?b] exI [of _ ?w] exI [of _ b'] exI [of _ w'] exI [of _ 0]) simp
qed

section \<open>Names that collide\<close>

text \<open>
  A configuration's overflow names are not kept apart from other configurations' region names. The
  region of a bus named \<open>n-req-s\<close> has the name of the generation-0 request overflow region of slot \<open>s\<close> of
  the bus \<open>n\<close> with the same prefix; \<open>create\<close> on it adopts that region, whoever holds it, and initialises
  it as its own.
\<close>

theorem region_adopts_foreign_overflow:
  assumes "shmem_documented X V" and "pl \<noteq> Windows" and "cfg_prefix d = cfg_prefix c"
    and "cfg_name d = cfg_name c @ ''-req-'' @ show_u s" and "region_name pl d = Some name"
    and "bound V w name = Some seg" and "length (mem w seg) < usize_limit"
  shows "request_overflow_name pl c s = Some name
    \<and> (\<exists>r w'. create_or_open pl X name (cfg_region_size d) w = (Inr r, w') \<and> r_ptr r = seg)"
proof -
  have "request_overflow_name pl c s = Some name"
    using assms(3-5) by (simp add: request_overflow_name_def request_overflow_name_gen_def overflow_name_def region_name_def)
  moreover obtain h w' where "shmem_open X name w = (Inr h, w')" "shm_seg h = seg"
    using open_bound [OF assms(1,6,7)] by blast
  ultimately show ?thesis
    using create_exclusive_bound [OF assms(1,2), of w name] assms(6) by (simp add: create_or_open_def region_open_def)
qed

theorem region_adopts_foreign_overflow_witness:
  "\<exists>w r w'. bound ref_view w ''slotbus-demo-req-0'' = Some 1
    \<and> request_overflow_name Linux demo_config 0 = Some ''slotbus-demo-req-0''
    \<and> create_or_open Linux ref_externals ''slotbus-demo-req-0'' 256 w = (Inr r, w') \<and> r_ptr r = 1"
proof -
  let ?d = "demo_config\<lparr>cfg_name := ''demo-req-0''\<rparr>"
  let ?w = "snd (shmem_create ref_externals ''slotbus-demo-req-0'' 64 ref_world)"
  have u: "show_u (0 :: usize) = ''0''" by (simp add: show_u_def show_nat.simps digit_char_def char_of_def drop_bit_eq_div bit_iff_odd)
  have n: "cfg_name ?d = cfg_name demo_config @ ''-req-'' @ show_u (0 :: usize)" "cfg_region_size ?d = 256"
    by (simp_all add: demo_config_def u)
  have r: "region_name Linux ?d = Some ''slotbus-demo-req-0''"
    by (simp add: region_name_def demo_config_def default_config_def sanitize_os_name_def)
  have b: "bound ref_view ?w ''slotbus-demo-req-0'' = Some 1" "length (mem ?w 1) < usize_limit"
    by (simp_all add: ref_defs ref_world_def Let_def)
  from region_adopts_foreign_overflow [OF ref_shmem_documented _ _ n(1) r b] n(2) b(1) show ?thesis by auto
qed

end
