(* ===== verification/Atomicity.thy ===== *)
theory Atomicity
  imports Hazards
begin

text \<open>
  The watcher's three steps on a slot, the release, the removal of the slot's overflow region and the call on
  the caller's channel, act as one as long as the slot has no overflow region: the last two can be moved
  before every step that other threads take in between. (With an overflow region they cannot: see
  \<open>late_remove_drops_new_region\<close> in \<open>Hazards\<close>.)
\<close>

section \<open>The call on the channel\<close>

definition sent_pending ::
  "string \<Rightarrow> (u16 \<times> response_meta \<times> bytes) result \<Rightarrow> (string \<Rightarrow> pending_entry option) \<Rightarrow> string \<Rightarrow> pending_entry option" where
  "sent_pending req_id res p = (case res of Inl e \<Rightarrow> p | Inr m \<Rightarrow> p(req_id := None))"

definition sent_calls ::
  "string \<Rightarrow> (u16 \<times> response_meta \<times> bytes) result \<Rightarrow> (string \<Rightarrow> pending_entry option) \<Rightarrow> channel_call list" where
  "sent_calls req_id res p =
     (case res of
        Inl e \<Rightarrow> []
      | Inr (status, meta, body) \<Rightarrow>
          (case p req_id of
             None \<Rightarrow> []
           | Some (t0, label, tx) \<Rightarrow>
               [SendResponse tx \<lparr>rs_status = status, rs_body = body, rs_content_type = content_type meta,
                  rs_headers = resp_headers meta\<rparr>]))"

lemma watch_send_eq:
  "watch_send req_id res b = b\<lparr>bus_pending := sent_pending req_id res (bus_pending b),
     bus_calls := bus_calls b @ sent_calls req_id res (bus_pending b)\<rparr>"
proof (cases res)
  case (Inr m)
  then show ?thesis
    by (cases m; cases "bus_pending b req_id")
      (auto simp: watch_send_def sent_pending_def sent_calls_def fun_upd_idem)
qed (simp add: watch_send_def sent_pending_def sent_calls_def)

lemma watch_send_simps [simp]:
  "bus_region (watch_send req_id res b) = bus_region b" "bus_config (watch_send req_id res b) = bus_config b"
  "bus_overflow (watch_send req_id res b) = bus_overflow b"
  by (simp_all add: watch_send_eq)

section \<open>Commuting with the other threads\<close>

text \<open>The system with the watcher's work on the slot finished.\<close>

definition finished :: "string \<Rightarrow> (u16 \<times> response_meta \<times> bytes) result \<Rightarrow> 'os system \<Rightarrow> 'os system" where
  "finished req_id res \<sigma> = \<sigma>\<lparr>sy_bus := watch_send req_id res (sy_bus \<sigma>), sy_watcher := Scanning\<rparr>"

lemma finished_simps [simp]:
  "sy_bus (finished req_id res \<sigma>) = watch_send req_id res (sy_bus \<sigma>)" "sy_worker (finished req_id res \<sigma>) = sy_worker \<sigma>"
  "sy_world (finished req_id res \<sigma>) = sy_world \<sigma>" "sy_threads (finished req_id res \<sigma>) = sy_threads \<sigma>"
  "slots_of (finished req_id res \<sigma>) = slots_of \<sigma>"
  by (simp_all add: finished_def slots_of_def)

text \<open>The maps of overflow regions and the callers' bookkeeping are independent.\<close>

lemma forget_sent:
  "bus_forget X i (b, w) = (b', w') \<Longrightarrow> bus_forget X i (watch_send req_id res b, w) = (watch_send req_id res b', w')"
  by (auto simp: bus_forget_def watch_send_eq)

lemma keep_sent:
  "bus_keep X i ovf (b, w) = (b', w') \<Longrightarrow> bus_keep X i ovf (watch_send req_id res b, w) = (watch_send req_id res b', w')"
  by (auto simp: bus_keep_def watch_send_eq split: option.splits)

lemma register_sent:
  assumes "dispatch_register E req_id' m meta (b, w) = (r, b', w')" and "req_id' \<noteq> req_id" and "bus_calls b' = bus_calls b"
  shows "dispatch_register E req_id' m meta (watch_send req_id res b, w) = (r, watch_send req_id res b', w')"
proof -
  have none: "bus_pending b req_id' = None"
    using assms(1,3) by (auto simp: dispatch_register_def Let_def split: option.splits prod.splits)
  have p: "sent_pending req_id res (bus_pending b) req_id' = None"
    "sent_pending req_id res ((bus_pending b)(req_id' \<mapsto> e)) = (sent_pending req_id res (bus_pending b))(req_id' \<mapsto> e)"
    "sent_calls req_id res ((bus_pending b)(req_id' \<mapsto> e)) = sent_calls req_id res (bus_pending b)" for e
    using none assms(2) by (auto simp: sent_pending_def sent_calls_def fun_upd_twist split: sum.splits)
  show ?thesis using assms(1) none p by (auto simp: dispatch_register_def Let_def watch_send_eq)
qed

text \<open>Every step other than the watcher's and the registration of the same id.\<close>

fun apart :: "string \<Rightarrow> event \<Rightarrow> bool" where
  "apart req_id (Release i) = False"
| "apart req_id (Resolve calls) = False"
| "apart req_id (Register req_id' ch) = (req_id' \<noteq> req_id)"
| "apart req_id e = True"

lemma apart_dropped [simp]: "apart req_id (dropped s i ovf)" "apart req_id (replaced new s i ovf)"
  by (simp_all add: dropped_def replaced_def)

lemma step_bookkeeping:
  assumes "sys_step pl X E \<sigma> e \<sigma>'"
  shows "\<exists>cs. bus_calls (sy_bus \<sigma>') = bus_calls (sy_bus \<sigma>) @ cs"
    and "apart req_id e \<Longrightarrow> bus_pending (sy_bus \<sigma>') req_id = bus_pending (sy_bus \<sigma>) req_id"
  using assms
  by (cases rule: sys_step.cases; auto simp: bus_forget_def bus_keep_def dispatch_register_def Let_def watch_send_eq
      split: option.splits)+

text \<open>While the watcher is inside a slot its only own step here is the removal.\<close>

lemma step_watcher:
  assumes "sys_step pl X E \<sigma> e \<sigma>'" and "apart req_id e"
  shows "sy_watcher \<sigma>' = sy_watcher \<sigma> \<or> (\<exists>i r s. sy_watcher \<sigma> = Released i r s \<and> sy_watcher \<sigma>' = Resolving r s)"
  using assms by (cases rule: sys_step.cases) auto

lemma step_finished:
  assumes "sys_step pl X E \<sigma> e \<sigma>'" and "apart req_id e" and "bus_calls (sy_bus \<sigma>') = bus_calls (sy_bus \<sigma>)"
    and "sy_watcher \<sigma>' = sy_watcher \<sigma>" and "sy_watcher \<sigma> \<noteq> Scanning"
  shows "sys_step pl X E (finished req_id res \<sigma>) e (finished req_id res \<sigma>')"
  using assms(1)
proof cases
  case (claim t i c old w)
  have eq: "finished req_id res \<sigma>' = (finished req_id res \<sigma>)\<lparr>sy_world := w, sy_threads := (sy_threads (finished req_id res \<sigma>))(t \<mapsto> Filling i c)\<rparr>"
    using claim by (simp add: finished_def)
  show ?thesis unfolding eq claim(1) by (rule sys_step.claim) (use claim in \<open>simp_all\<close>)
next
  case (unserialisable t i c pe)
  have eq: "finished req_id res \<sigma>' = (finished req_id res \<sigma>)\<lparr>sy_threads := (sy_threads (finished req_id res \<sigma>))(t := None)\<rparr>"
    using unserialisable by (simp add: finished_def)
  show ?thesis unfolding eq unserialisable(1) by (rule sys_step.unserialisable) (use unserialisable in \<open>simp_all\<close>)
next
  case (clear t i c mb bus w)
  have eq: "finished req_id res \<sigma>' = (finished req_id res \<sigma>)\<lparr>sy_bus := watch_send req_id res bus, sy_world := w, sy_threads := (sy_threads (finished req_id res \<sigma>))(t \<mapsto> Cleared i c)\<rparr>"
    using clear by (simp add: finished_def)
  have f: "bus_forget X i (watch_send req_id res (sy_bus \<sigma>), sy_world \<sigma>) = (watch_send req_id res bus, w)"
    by (rule forget_sent) (use clear in simp)
  show ?thesis using sys_step.clear [of "finished req_id res \<sigma>" t i c X mb _ w pl E] clear f unfolding eq by simp
next
  case (publish t i c mb ovf w)
  have eq: "finished req_id res \<sigma>' = (finished req_id res \<sigma>)\<lparr>sy_world := w, sy_threads := (sy_threads (finished req_id res \<sigma>))(t \<mapsto> Keeping i c ovf)\<rparr>"
    using publish by (simp add: finished_def)
  show ?thesis unfolding eq publish(1) by (rule sys_step.publish) (use publish in \<open>simp_all\<close>)
next
  case (abort t i c mb e w)
  have eq: "finished req_id res \<sigma>' = (finished req_id res \<sigma>)\<lparr>sy_world := w, sy_threads := (sy_threads (finished req_id res \<sigma>))(t := None)\<rparr>"
    using abort by (simp add: finished_def)
  show ?thesis unfolding eq abort(1) by (rule sys_step.abort) (use abort in \<open>simp_all\<close>)
next
  case (keep t i c ovf bus w)
  have eq: "finished req_id res \<sigma>' = (finished req_id res \<sigma>)\<lparr>sy_bus := watch_send req_id res bus, sy_world := w, sy_threads := (sy_threads (finished req_id res \<sigma>))(t \<mapsto> Registering c)\<rparr>"
    using keep by (simp add: finished_def)
  have f: "bus_keep X i ovf (watch_send req_id res (sy_bus \<sigma>), sy_world \<sigma>) = (watch_send req_id res bus, w)"
    by (rule keep_sent) (use keep in simp)
  show ?thesis using sys_step.keep [of "finished req_id res \<sigma>" t i c ovf X _ w pl E] keep f unfolding eq by simp
next
  case (register t c ch bus w)
  have eq: "finished req_id res \<sigma>' = (finished req_id res \<sigma>)\<lparr>sy_bus := watch_send req_id res bus, sy_world := w, sy_threads := (sy_threads (finished req_id res \<sigma>))(t := None)\<rparr>"
    using register by (simp add: finished_def)
  have f: "dispatch_register E (cl_id c) (cl_method c) (cl_meta c) (watch_send req_id res (sy_bus \<sigma>), sy_world \<sigma>)
      = (Inr ch, watch_send req_id res bus, w)"
    by (rule register_sent) (use register assms(2,3) in simp_all)
  show ?thesis unfolding eq register(1) by (rule sys_step.register) (use register f in \<open>simp_all\<close>)
next
  case (take t i old w)
  have eq: "finished req_id res \<sigma>' = (finished req_id res \<sigma>)\<lparr>sy_world := w, sy_threads := (sy_threads (finished req_id res \<sigma>))(t \<mapsto> Reading i)\<rparr>"
    using take by (simp add: finished_def)
  show ?thesis unfolding eq take(1) by (rule sys_step.take) (use take in \<open>simp_all\<close>)
next
  case (deliver t i rid m meta body w)
  have eq: "finished req_id res \<sigma>' = (finished req_id res \<sigma>)\<lparr>sy_world := w, sy_threads := (sy_threads (finished req_id res \<sigma>))(t \<mapsto> Handling i (decode_request rid m meta body))\<rparr>"
    using deliver by (simp add: finished_def)
  show ?thesis unfolding eq deliver(1) by (rule sys_step.deliver) (use deliver in \<open>simp_all\<close>)
next
  case (unreadable t i e w1 w)
  have eq: "finished req_id res \<sigma>' = (finished req_id res \<sigma>)\<lparr>sy_world := w, sy_threads := (sy_threads (finished req_id res \<sigma>))(t := None)\<rparr>"
    using unreadable by (simp add: finished_def)
  show ?thesis unfolding eq unreadable(1) by (rule sys_step.unreadable) (use unreadable in \<open>simp_all\<close>)
next
  case (unanswerable t i rq p pe)
  have eq: "finished req_id res \<sigma>' = (finished req_id res \<sigma>)\<lparr>sy_threads := (sy_threads (finished req_id res \<sigma>))(t := None)\<rparr>"
    using unanswerable by (simp add: finished_def)
  show ?thesis unfolding eq unanswerable(1) by (rule sys_step.unanswerable) (use unanswerable in \<open>simp_all\<close>)
next
  case (empty t i rq p mb wk w)
  have eq: "finished req_id res \<sigma>' = (finished req_id res \<sigma>)\<lparr>sy_worker := wk, sy_world := w, sy_threads := (sy_threads (finished req_id res \<sigma>))(t \<mapsto> Answering i p)\<rparr>"
    using empty by (simp add: finished_def)
  show ?thesis using sys_step.empty [of "finished req_id res \<sigma>" t i rq X p mb wk w pl E] empty unfolding eq by simp
next
  case (reply t i p mb ovf w)
  have eq: "finished req_id res \<sigma>' = (finished req_id res \<sigma>)\<lparr>sy_world := w, sy_threads := (sy_threads (finished req_id res \<sigma>))(t \<mapsto> Replying i ovf)\<rparr>"
    using reply by (simp add: finished_def)
  show ?thesis unfolding eq reply(1) by (rule sys_step.reply) (use reply in \<open>simp_all\<close>)
next
  case (refuse t i p mb e w1 w)
  have eq: "finished req_id res \<sigma>' = (finished req_id res \<sigma>)\<lparr>sy_world := w, sy_threads := (sy_threads (finished req_id res \<sigma>))(t := None)\<rparr>"
    using refuse by (simp add: finished_def)
  show ?thesis unfolding eq refuse(1) by (rule sys_step.refuse) (use refuse in \<open>simp_all\<close>)
next
  case (store t i ovf wk w)
  have eq: "finished req_id res \<sigma>' = (finished req_id res \<sigma>)\<lparr>sy_worker := wk, sy_world := event_signal E (wk_rsp_event wk) w, sy_threads := (sy_threads (finished req_id res \<sigma>))(t := None)\<rparr>"
    using store by (simp add: finished_def)
  show ?thesis using sys_step.store [of "finished req_id res \<sigma>" t i ovf X wk w pl E] store unfolding eq by simp
next
  case (wait evt ms woken w)
  have eq: "finished req_id res \<sigma>' = (finished req_id res \<sigma>)\<lparr>sy_world := w\<rparr>"
    using wait by (simp add: finished_def)
  show ?thesis unfolding eq wait(1) by (rule sys_step.wait) (use wait in \<open>simp_all\<close>)
qed (use assms(2,4,5) in simp_all)

lemma sent_calls_cong: "p req_id = q req_id \<Longrightarrow> sent_calls req_id res p = sent_calls req_id res q"
  by (simp add: sent_calls_def split: sum.split)

section \<open>Property\<close>

lemma run_bookkeeping:
  assumes "sys_run pl X E \<sigma> es \<sigma>'"
  shows "\<exists>cs. bus_calls (sy_bus \<sigma>') = bus_calls (sy_bus \<sigma>) @ cs"
    and "\<forall>e \<in> set es. apart req_id e \<Longrightarrow> bus_pending (sy_bus \<sigma>') req_id = bus_pending (sy_bus \<sigma>) req_id"
  using assms
proof (induction rule: sys_run.induct)
  case (sys_more \<sigma> es \<tau> e \<upsilon>)
  { case 1 then show ?case using sys_more.IH(1) step_bookkeeping(1) [OF sys_more.hyps(2)] by force }
  { case 2 then show ?case using sys_more.IH(2) step_bookkeeping(2) [OF sys_more.hyps(2)] by simp }
qed simp_all

lemma run_finished:
  assumes "sys_run pl X E \<sigma> es \<tau>" and "\<forall>e \<in> set es. apart req_id e" and "bus_calls (sy_bus \<tau>) = bus_calls (sy_bus \<sigma>)"
    and "sy_watcher \<sigma> = Resolving r s \<or> (sy_watcher \<sigma> = Released i r s \<and> sy_watcher \<tau> = Released i r s)"
  shows "sys_run pl X E (finished req_id res \<sigma>) es (finished req_id res \<tau>) \<and> sy_watcher \<tau> = sy_watcher \<sigma>"
  using assms
proof (induction rule: sys_run.induct)
  case (sys_start \<sigma>)
  then show ?case by (simp add: sys_run.sys_start)
next
  case (sys_more \<sigma> es \<tau> e \<upsilon>)
  have apart: "apart req_id e" "\<forall>e \<in> set es. apart req_id e" using sys_more.prems(1) by simp_all
  obtain cs ds where "bus_calls (sy_bus \<tau>) = bus_calls (sy_bus \<sigma>) @ cs" "bus_calls (sy_bus \<upsilon>) = bus_calls (sy_bus \<tau>) @ ds"
    using run_bookkeeping(1) [OF sys_more.hyps(1)] step_bookkeeping(1) [OF sys_more.hyps(2)] by blast
  then have calls: "bus_calls (sy_bus \<tau>) = bus_calls (sy_bus \<sigma>)" "bus_calls (sy_bus \<upsilon>) = bus_calls (sy_bus \<tau>)"
    using sys_more.prems(2) by simp_all
  note watcher = step_watcher [OF sys_more.hyps(2) apart(1)]
  have "sy_watcher \<sigma> = Resolving r s \<or> (sy_watcher \<sigma> = Released i r s \<and> sy_watcher \<tau> = Released i r s)"
    using sys_more.prems(3) watcher by auto
  then have IH: "sys_run pl X E (finished req_id res \<sigma>) es (finished req_id res \<tau>)" "sy_watcher \<tau> = sy_watcher \<sigma>"
    using sys_more.IH [OF apart(2) calls(1)] by simp_all
  then have same: "sy_watcher \<upsilon> = sy_watcher \<tau>" "sy_watcher \<tau> \<noteq> Scanning" using sys_more.prems(3) watcher by auto
  show ?case
    using sys_run.sys_more [OF IH(1) step_finished [OF sys_more.hyps(2) apart(1) calls(2) same]] IH(2) same(1) by simp
qed

lemma resolve_finishes:
  assumes "sy_watcher \<sigma> = Resolving req_id res"
  shows "sys_step pl X E \<sigma> (Resolve (sent_calls req_id res (bus_pending (sy_bus \<sigma>)))) (finished req_id res \<sigma>)"
  using sys_step.resolve [OF assms, of "sent_calls req_id res (bus_pending (sy_bus \<sigma>))" pl X E]
  by (simp add: finished_def watch_send_eq)

text \<open>
  The watcher's treatment of a slot is atomic when no overflow region is involved. The watcher has released
  the slot; other threads take any steps, this very slot's reservation and refilling included, before and
  after the watcher finds no overflow region kept for the slot, and then it calls the caller's channel. Unless
  these steps register the same id or replace a registered channel, the watcher's two steps can be taken
  immediately after the release: the same calls are made and the same state is reached.
\<close>

theorem split_watcher_is_atomic:
  assumes "sy_watcher \<sigma> = Released i req_id res" and "bus_overflow (sy_bus \<sigma>) i = None"
    and "sys_run pl X E \<sigma> es \<tau>" and "sy_watcher \<tau> = Released i req_id res" and "bus_overflow (sy_bus \<tau>) i = None"
    and "sys_run pl X E (\<tau>\<lparr>sy_watcher := Resolving req_id res\<rparr>) fs \<upsilon>" and "sys_step pl X E \<upsilon> (Resolve calls) \<phi>"
    and "\<forall>e \<in> set (es @ fs). apart req_id e" and "bus_calls (sy_bus \<upsilon>) = bus_calls (sy_bus \<sigma>)"
  shows "sys_run pl X E \<sigma> ([Idle, Resolve calls] @ es @ fs) \<phi>"
proof -
  let ?\<tau> = "\<tau>\<lparr>sy_watcher := Resolving req_id res\<rparr>" and ?\<sigma> = "\<sigma>\<lparr>sy_watcher := Resolving req_id res\<rparr>"
  have apart: "\<forall>e \<in> set es. apart req_id e" "\<forall>e \<in> set fs. apart req_id e" using assms(8) by simp_all
  obtain cs ds where "bus_calls (sy_bus \<tau>) = bus_calls (sy_bus \<sigma>) @ cs" "bus_calls (sy_bus \<upsilon>) = bus_calls (sy_bus \<tau>) @ ds"
    using run_bookkeeping(1) [OF assms(3)] run_bookkeeping(1) [OF assms(6)] by auto
  then have calls: "bus_calls (sy_bus \<tau>) = bus_calls (sy_bus \<sigma>)" "bus_calls (sy_bus \<upsilon>) = bus_calls (sy_bus ?\<tau>)"
    using assms(9) by simp_all
  have "sy_watcher ?\<tau> = Resolving req_id res" by simp
  with run_finished [OF assms(6) apart(2) calls(2)]
  have r2: "sys_run pl X E (finished req_id res ?\<tau>) fs (finished req_id res \<upsilon>)" and at: "sy_watcher \<upsilon> = Resolving req_id res"
    by auto
  have r1: "sys_run pl X E (finished req_id res \<sigma>) es (finished req_id res \<tau>)"
    using run_finished [OF assms(3) apart(1) calls(1)] assms(1,4) by blast
  have same: "finished req_id res ?\<tau> = finished req_id res \<tau>" "finished req_id res ?\<sigma> = finished req_id res \<sigma>"
    by (simp_all add: finished_def)
  have "bus_forget X i (sy_bus \<sigma>, sy_world \<sigma>) = (sy_bus \<sigma>, sy_world \<sigma>)"
    using assms(2) by (cases "sy_bus \<sigma>") (auto simp: bus_forget_def drop_opt_def fun_upd_idem)
  then have s1: "sys_step pl X E \<sigma> Idle ?\<sigma>"
    using sys_step.forget [where pl = pl and E = E, OF assms(1)] assms(2) by (fastforce simp: dropped_def)
  have pend: "bus_pending (sy_bus \<upsilon>) req_id = bus_pending (sy_bus \<sigma>) req_id"
    using run_bookkeeping(2) [OF assms(3) apart(1)] run_bookkeeping(2) [OF assms(6) apart(2)] by simp
  have fin: "calls = sent_calls req_id res (bus_pending (sy_bus \<upsilon>)) \<and> \<phi> = finished req_id res \<upsilon>"
    using assms(7) at by cases (auto simp: watch_send_eq finished_def dropped_def replaced_def split: if_splits)
  then have "sent_calls req_id res (bus_pending (sy_bus ?\<sigma>)) = calls" using sent_calls_cong [where p = "bus_pending (sy_bus \<upsilon>)" and q = "bus_pending (sy_bus \<sigma>)", OF pend, of res] by simp
  then have s2: "sys_step pl X E ?\<sigma> (Resolve calls) (finished req_id res \<sigma>)"
    using resolve_finishes [of ?\<sigma> req_id res pl X E] same(2) by simp
  show ?thesis
    using sys_run_trans [OF sys_run_trans [OF r2 [unfolded same(1)] r1] sys_more [OF sys_run_one [OF s1] s2]] fin by simp
qed

definition demo_bus :: bus where
  "demo_bus = \<lparr>bus_config = demo_config, bus_region = demo_region, bus_req_event = WindowsEvent 1,
     bus_rsp_event = WindowsEvent 1, bus_pending = [''a'' \<mapsto> (0, ''POST /x'', 7)], bus_overflow = (\<lambda>_. None), bus_running = True,
     bus_calls = [], bus_next_channel = 8\<rparr>"

theorem split_watcher_is_atomic_witness:
  "\<exists>(\<sigma> :: ref_os system) \<phi> rs. sy_watcher \<sigma> = Released 0 ''a'' (Inr (200, demo_response, [1, 2, 3]))
    \<and> sys_run Linux ref_externals quiet_events \<sigma> [Idle, Resolve [SendResponse 7 rs], Claim 0] \<phi>"
proof -
  let ?r = demo_region and ?w0 = "put 0 64 (le32 SLOT_FREE) demo_world" and ?res = "Inr (200, demo_response, [1, 2, 3])"
  have n: "unat (0 :: usize) < unat (r_num_slots ?r)" "slot_start 0 = 64" by (simp_all add: slot_start_def)
  have lv: "live ref_view ?r ?w0" and st: "status_at ?r 0 ?w0 = SLOT_FREE"
    using set_status_touches [OF ref_shmem_documented demo_live n(1), of SLOT_FREE] live_touches [OF demo_live] n(2) by auto
  let ?w1 = "put 0 64 (le32 SLOT_WRITING) ?w0"
  have cas: "cas_status ?r 0 SLOT_FREE SLOT_WRITING ?w0 = Some (Inr SLOT_FREE, ?w1)"
    using status_ops(3) [OF liveD(1) [OF lv] n(1), of SLOT_FREE SLOT_WRITING] st n(2) by simp
  let ?\<sigma> = "\<lparr>sy_bus = demo_bus, sy_worker = demo_worker, sy_world = ?w0, sy_threads = (\<lambda>_. None),
    sy_watcher = Released 0 ''a'' ?res\<rparr>"
  let ?\<tau> = "?\<sigma>\<lparr>sy_world := ?w1, sy_threads := (sy_threads ?\<sigma>)(0 \<mapsto> Filling 0 demo_call)\<rparr>"
  have "sys_step Linux ref_externals quiet_events ?\<sigma> (Claim 0) ?\<tau>"
    by (rule sys_step.claim) (use cas demo_call_ok(1) in \<open>simp_all add: demo_bus_def slots_of_def\<close>)
  note run = sys_run_one [OF this]
  let ?\<upsilon> = "?\<tau>\<lparr>sy_watcher := Resolving ''a'' ?res\<rparr>"
  have at: "sy_watcher ?\<upsilon> = Resolving ''a'' ?res" by simp
  obtain rs where rs: "sent_calls ''a'' ?res (bus_pending (sy_bus ?\<upsilon>)) = [SendResponse 7 rs]"
    by (simp add: sent_calls_def demo_bus_def)
  note last = resolve_finishes [OF at, of Linux ref_externals quiet_events, unfolded rs]
  have "sys_run Linux ref_externals quiet_events ?\<sigma> ([Idle, Resolve [SendResponse 7 rs]] @ [Claim 0] @ []) (finished ''a'' ?res ?\<upsilon>)"
    by (rule split_watcher_is_atomic [OF _ _ run _ _ sys_run.sys_start last]) (simp_all add: demo_bus_def)
  then show ?thesis by (intro exI [of _ ?\<sigma>] exI conjI) simp_all
qed

end
