(* ===== verification/Sessions.thy ===== *)
theory Sessions
  imports Demo
begin

text \<open>
  A caller that awaits each of its calls, as the programs in \<^verbatim>\<open>slotbus/examples\<close> do: \<open>dispatch\<close>, then a turn of
  the receive loop and a turn of the watcher while the caller waits, then the response its channel received.
\<close>

section \<open>Awaiting a call\<close>

text \<open>What \<^verbatim>\<open>rx.await\<close> gives of the calls made on the channels: a dropped sender is an error.\<close>

fun received :: "nat \<Rightarrow> channel_call list \<Rightarrow> response option" where
  "received ch [] = None"
| "received ch (SendResponse tx r # calls) = (if tx = ch then Some r else received ch calls)"
| "received ch (DropSender tx # calls) = (if tx = ch then None else received ch calls)"

text \<open>An error of \<open>dispatch\<close> and a channel without response end the caller (\<^verbatim>\<open>expect\<close>).\<close>

definition await_call ::
  "platform \<Rightarrow> 'os externals \<Rightarrow> 'os event_os \<Rightarrow> 'os handler \<Rightarrow> call \<Rightarrow> bus \<times> worker \<times> 'os world \<Rightarrow>
   (response \<times> bus \<times> worker \<times> 'os world) option" where
  "await_call pl X E handler c s =
     (case s of (b, k, w) \<Rightarrow> do {
        (res, b, w) \<leftarrow> bus_dispatch pl X E (cl_id c) (cl_method c) (cl_meta c) (cl_body c) (b, w);
        case res of
          Inl e \<Rightarrow> None
        | Inr ch \<Rightarrow> do {
            (k, w) \<leftarrow> receive_turn pl X E handler (k, w);
            let sent = length (bus_calls b);
            (b, w) \<leftarrow> watch_turn pl X E (b, w);
            r \<leftarrow> received ch (drop sent (bus_calls b));
            Some (r, b, k, w) } })"

fun session ::
  "platform \<Rightarrow> 'os externals \<Rightarrow> 'os event_os \<Rightarrow> 'os handler \<Rightarrow> call list \<Rightarrow> bus \<times> worker \<times> 'os world \<Rightarrow>
   (response list \<times> bus \<times> worker \<times> 'os world) option" where
  "session pl X E handler [] s = Some ([], s)"
| "session pl X E handler (c # cs) s = do {
     (r, s) \<leftarrow> await_call pl X E handler c s;
     (rs, s) \<leftarrow> session pl X E handler cs s;
     Some (r # rs, s) }"

section \<open>On the protocol\<close>

lemma take_replies_free: "sp_phase S = (\<lambda>_. Free) \<Longrightarrow> take_replies is S = (S, [])"
  by (induction "is") (simp_all add: take_reply_def)

lemma take_replies_one:
  assumes "i \<in> set is"
  shows "take_replies is (initial\<lparr>sp_phase := (\<lambda>_. Free)(i := Done c p), sp_pending := [cl_id c \<mapsto> ch]\<rparr>)
    = (initial, [SendResponse ch (response_of p)])"
  using assms
proof (induction "is")
  case (Cons j "is")
  show ?case
  proof (cases "j = i")
    case True
    have "take_reply i (initial\<lparr>sp_phase := (\<lambda>_. Free)(i := Done c p), sp_pending := [cl_id c \<mapsto> ch]\<rparr>)
        = (initial, [SendResponse ch (response_of p)])"
      by (simp add: take_reply_def set_phase_def resolution_def initial_def fun_eq_iff)
    then show ?thesis using take_replies_free [of initial "is"] True by (simp add: initial_def del: fun_upd_apply)
  next
    case False
    then show ?thesis using Cons by (simp add: take_reply_def)
  qed
qed simp

lemma after_call_initial:
  assumes "i \<in> set is"
  shows "after_call g is i c ch initial = (initial, [SendResponse ch (response_of (g (request_of c)))])"
proof -
  have "answer_slots g is (register_call i c ch initial)
      = initial\<lparr>sp_phase := (\<lambda>_. Free)(i := Done c (g (request_of c))), sp_pending := [cl_id c \<mapsto> ch]\<rparr>"
    using assms by (auto simp: answer_slots_def register_call_def set_phase_def put_message_def initial_def answer_def fun_eq_iff)
  then show ?thesis using take_replies_one [OF assms] by (simp add: after_call_def)
qed

section \<open>On the system\<close>

text \<open>The call is within the protocol's limits, and it and its reply fit the arenas of slot 0.\<close>

definition call_fits :: "'os externals \<Rightarrow> shm_region \<Rightarrow> (request \<Rightarrow> reply) \<Rightarrow> call \<Rightarrow> bool" where
  "call_fits X r g c \<longleftrightarrow>
     call_ok X c \<and> (\<exists>mb. request_to_vec X (cl_meta c) = Inr mb \<and> payload_fits r Req 0 mb (cl_body c))
     \<and> reply_ok X (g (request_of c)) \<and> (\<exists>mb. response_to_vec X (rp_meta (g (request_of c))) = Inr mb
         \<and> payload_fits r Resp 0 mb (rp_body (g (request_of c))))"

lemma await_simulated:
  assumes doc: "shmem_documented X V" "postcard_documented X" "events_separate E V" "pl = MacOS \<longrightarrow> clock_documented E"
    and sim: "simulates V pl X initial \<sigma>" and idle: "sy_threads \<sigma> t = None" and slots: "0 < slots_of \<sigma>"
    and fit: "call_fits X (bus_region (sy_bus \<sigma>)) g c"
  shows "\<exists>b k w. await_call pl X E (replying pl X E g) c (sy_bus \<sigma>, sy_worker \<sigma>, sy_world \<sigma>)
      = Some (response_of (g (request_of c)), b, k, w)
    \<and> bus_region b = bus_region (sy_bus \<sigma>)
    \<and> simulates V pl X initial (\<sigma>\<lparr>sy_worker := k, sy_bus := b, sy_world := w\<rparr>)"
proof -
  let ?r = "bus_region (sy_bus \<sigma>)"
  obtain mb sb where c: "call_ok X c" "request_to_vec X (cl_meta c) = Inr mb" "payload_fits ?r Req 0 mb (cl_body c)"
    and p: "reply_ok X (g (request_of c))" "response_to_vec X (rp_meta (g (request_of c))) = Inr sb"
      "payload_fits ?r Resp 0 sb (rp_body (g (request_of c)))"
    using fit unfolding call_fits_def by blast
  have n: "0 < unat (r_num_slots ?r)" using slots by (simp add: slots_of_def)
  then have idx: "slot_indices ?r = 0 # map usize_of [1 ..< unat (r_num_slots ?r)]"
    by (simp add: slot_indices_def upt_conv_Cons usize_of_def)
  then have z: "find (\<lambda>i. sp_phase initial i = Free) (slot_indices ?r) = Some 0" "0 \<in> set (slot_indices ?r)"
    by (simp_all add: initial_def)
  have q: "same_layout (wk_region (sy_worker \<sigma>)) ?r" using simulatesD(2) [OF sim] by (simp add: linked_def)
  have "payload_fits (wk_region (sy_worker \<sigma>)) Resp 0 sb (rp_body (g (request_of c)))"
    using p(3) same_layout_arena(1) [OF q] by (simp add: payload_fits_def inline_fits_def)
  then have "replies_fit X (wk_region (sy_worker \<sigma>)) g ((sp_phase initial)(0 := Ready c))"
    using p(1,2) by (auto simp: replies_fit_def initial_def)
  from call_turns_simulated [where g = g, OF doc sim calm_simps(4) idle c(1,2) z(1) c(3) this]
  obtain ch b1 w1 k2 w2 b3 w3
    where d: "bus_dispatch pl X E (cl_id c) (cl_method c) (cl_meta c) (cl_body c) (sy_bus \<sigma>, sy_world \<sigma>) = Some (Inr ch, b1, w1)"
      and r: "receive_turn pl X E (replying pl X E g) (sy_worker \<sigma>, w1) = Some (k2, w2)"
      and w: "watch_turn pl X E (b1, w2) = Some (b3, w3)"
      and calls: "bus_calls b3 = bus_calls b1 @ snd (after_call g (slot_indices ?r) 0 c ch initial)"
      and sim3: "simulates V pl X (fst (after_call g (slot_indices ?r) 0 c ch initial))
        (\<sigma>\<lparr>sy_worker := k2, sy_bus := b3, sy_world := w3\<rparr>)"
    by blast
  note after = after_call_initial [OF z(2), of g c ch]
  have "bus_region b3 = ?r" using dispatch_keeps [OF d] watch_turn_keeps [OF w] by simp
  then show ?thesis using d r w calls sim3 by (auto simp: await_call_def after Let_def)
qed

lemma session_simulated:
  assumes doc: "shmem_documented X V" "postcard_documented X" "events_separate E V" "pl = MacOS \<longrightarrow> clock_documented E"
  shows "simulates V pl X initial \<sigma> \<Longrightarrow> sy_threads \<sigma> t = None \<Longrightarrow> 0 < slots_of \<sigma> \<Longrightarrow>
    (\<And>c. c \<in> set cs \<Longrightarrow> call_fits X (bus_region (sy_bus \<sigma>)) g c) \<Longrightarrow>
    \<exists>b k w. session pl X E (replying pl X E g) cs (sy_bus \<sigma>, sy_worker \<sigma>, sy_world \<sigma>)
        = Some (map (\<lambda>c. response_of (g (request_of c))) cs, b, k, w)
      \<and> simulates V pl X initial (\<sigma>\<lparr>sy_worker := k, sy_bus := b, sy_world := w\<rparr>)"
proof (induction cs arbitrary: \<sigma>)
  case Nil
  then show ?case by (intro exI [of _ "sy_bus \<sigma>"] exI [of _ "sy_worker \<sigma>"] exI [of _ "sy_world \<sigma>"]) simp
next
  case (Cons c cs)
  have "call_fits X (bus_region (sy_bus \<sigma>)) g c" using Cons.prems(4) by simp
  from await_simulated [OF doc Cons.prems(1-3) this]
  obtain b k w where one: "await_call pl X E (replying pl X E g) c (sy_bus \<sigma>, sy_worker \<sigma>, sy_world \<sigma>)
      = Some (response_of (g (request_of c)), b, k, w)" "bus_region b = bus_region (sy_bus \<sigma>)"
    and sim: "simulates V pl X initial (\<sigma>\<lparr>sy_worker := k, sy_bus := b, sy_world := w\<rparr>)" by blast
  let ?\<sigma> = "\<sigma>\<lparr>sy_worker := k, sy_bus := b, sy_world := w\<rparr>"
  have "\<exists>b k w. session pl X E (replying pl X E g) cs (sy_bus ?\<sigma>, sy_worker ?\<sigma>, sy_world ?\<sigma>)
        = Some (map (\<lambda>c. response_of (g (request_of c))) cs, b, k, w)
      \<and> simulates V pl X initial (?\<sigma>\<lparr>sy_worker := k, sy_bus := b, sy_world := w\<rparr>)"
    by (rule Cons.IH [OF sim]) (use Cons.prems(2-4) one(2) in \<open>simp_all add: slots_of_def\<close>)
  then obtain b' k' w' where "session pl X E (replying pl X E g) cs (b, k, w)
        = Some (map (\<lambda>c. response_of (g (request_of c))) cs, b', k', w')"
    "simulates V pl X initial (\<sigma>\<lparr>sy_worker := k', sy_bus := b', sy_world := w'\<rparr>)"
    by auto
  then show ?case using one(1) by simp
qed

text \<open>
  C15: calls that are awaited one after the other are all answered, in order, each with the reply to its own request,
  whatever ids they have, on a bus as after its start, when every call and the handler's reply to it can be serialised
  and fit the arena of the first slot without an overflow region (\<open>call_fits\<close>). The bus is then as after its start again:
  every slot free and no call pending. No operation on the way leaves the mapping, reports an error or runs forever.
\<close>

theorem session_answered:
  assumes "shmem_documented X V" and "postcard_documented X" and "events_separate E V" and "pl = MacOS \<longrightarrow> clock_documented E"
    and "simulates V pl X initial \<sigma>" and "sy_threads \<sigma> t = None" and "0 < slots_of \<sigma>"
    and "\<And>c. c \<in> set cs \<Longrightarrow> call_fits X (bus_region (sy_bus \<sigma>)) g c"
  shows "\<exists>b k w. session pl X E (replying pl X E g) cs (sy_bus \<sigma>, sy_worker \<sigma>, sy_world \<sigma>)
      = Some (map (\<lambda>c. response_of (g (request_of c))) cs, b, k, w)
    \<and> simulates V pl X initial (\<sigma>\<lparr>sy_worker := k, sy_bus := b, sy_world := w\<rparr>)"
  by (rule session_simulated [OF assms])

theorem session_answered_witness:
  "\<exists>(\<sigma> :: ref_os system) b k w. session Linux ref_externals quiet_events (replying Linux ref_externals quiet_events demo_answer)
      [demo_call, demo_call] (sy_bus \<sigma>, sy_worker \<sigma>, sy_world \<sigma>)
    = Some (replicate 2 \<lparr>rs_status = 200, rs_body = [1, 2, 3], rs_content_type = ''t'', rs_headers = []\<rparr>, b, k, w)"
proof -
  obtain \<sigma> where S: "simulates ref_view Linux ref_externals initial \<sigma>" "sy_threads \<sigma> = (\<lambda>_. None)" "slots_of \<sigma> = 1"
    "payload_fits (bus_region (sy_bus \<sigma>)) Req 0 (as_bytes ''/x'') [1, 2, 3]"
    "payload_fits (wk_region (sy_worker \<sigma>)) Resp 0 (as_bytes ''t'') [1, 2, 3]"
    by (rule demo_system)
  have q: "same_layout (wk_region (sy_worker \<sigma>)) (bus_region (sy_bus \<sigma>))"
    using simulatesD(2) [OF S(1)] by (simp add: linked_def)
  have "payload_fits (bus_region (sy_bus \<sigma>)) Resp 0 (as_bytes ''t'') [1, 2, 3]"
    using S(5) same_layout_arena(1) [OF q] by (simp add: payload_fits_def inline_fits_def)
  then have fit: "call_fits ref_externals (bus_region (sy_bus \<sigma>)) demo_answer demo_call"
    using S(4) demo_call_ok demo_answer_ok unfolding call_fits_def by (simp add: demo_call_def)
  have r: "response_of (demo_answer (request_of demo_call))
      = \<lparr>rs_status = 200, rs_body = [1, 2, 3], rs_content_type = ''t'', rs_headers = []\<rparr>"
    by (simp add: response_of_def demo_answer_ok(1) demo_response_def)
  show ?thesis
    using session_answered [OF ref_shmem_documented ref_postcard_documented quiet_separate _ S(1), of 0 "[demo_call, demo_call]" demo_answer]
      S(2,3) fit r by (auto simp: numeral_2_eq_2)
qed

end
