(* ===== verification/Examples.thy ===== *)
theory Examples
  imports Sessions
begin

text \<open>
  The example programs (\<^verbatim>\<open>slotbus/examples\<close>): the configurations, handlers and requests of
  \<^verbatim>\<open>echo_worker.rs\<close> and \<^verbatim>\<open>embedded.rs\<close>, and what a caller of their workers receives. Tracing, printing and
  timing have no effect on the bus and are left out; \<^verbatim>\<open>expect\<close> on an error is a panic, \<open>None\<close>.
\<close>

section \<open>The echo worker\<close>

definition echo_config :: "config option" where
  "echo_config = builder_build (builder_name ''echo'' config_builder)"

definition echo_handler :: "platform \<Rightarrow> 'os externals \<Rightarrow> 'os event_os \<Rightarrow> 'os handler" where
  "echo_handler pl X E slot req s =
     (let status = 200; body = rq_body req; ctype = ''application/octet-stream'' in
      case send_response pl X E slot status body ctype [] s of
        Some (Inr _, s) \<Rightarrow> Some s
      | _ \<Rightarrow> None)"

definition echo_main ::
  "(nat \<Rightarrow> worker \<times> 'os world \<Rightarrow> worker \<times> 'os world) \<Rightarrow> platform \<Rightarrow> 'os externals \<Rightarrow> 'os event_os \<Rightarrow> 'os world \<Rightarrow>
   (worker \<times> 'os world) option" where
  "echo_main others pl X E w = do {
     c \<leftarrow> echo_config;
     (res, w) \<leftarrow> worker_open pl X E c w;
     case res of
       Inl e \<Rightarrow> None
     | Inr wk \<Rightarrow> receive_loop others 0 pl X E (echo_handler pl X E) (wk, w) }"

section \<open>The embedded hub and worker\<close>

definition embedded_config :: "u32 \<Rightarrow> config option" where
  "embedded_config pid =
     builder_build (builder_num_slots 8 (builder_name (''embedded-demo-'' @ show_u pid) config_builder))"

definition embedded_body :: "request \<Rightarrow> string" where
  "embedded_body req =
     ''Hello from embedded worker! You sent '' @ show_nat (length (rq_body req)) @ '' bytes to '' @ rq_method req
       @ '' '' @ rq_path req"

definition embedded_handler :: "platform \<Rightarrow> 'os externals \<Rightarrow> 'os event_os \<Rightarrow> 'os handler" where
  "embedded_handler pl X E slot req s =
     (case send_response pl X E slot 200 (as_bytes (embedded_body req)) ''text/plain''
             [(''x-worker'', ''embedded'')] s of
        Some (Inr _, s) \<Rightarrow> Some s
      | _ \<Rightarrow> None)"

text \<open>The hub and the worker, before the two loops start.\<close>

definition embedded_start ::
  "platform \<Rightarrow> 'os externals \<Rightarrow> 'os event_os \<Rightarrow> u32 \<Rightarrow> 'os world \<Rightarrow> (bus \<times> worker \<times> 'os world) option" where
  "embedded_start pl X E pid w = do {
     c \<leftarrow> embedded_config pid;
     (res, w) \<leftarrow> bus_create pl X E c w;
     case res of
       Inl e \<Rightarrow> None
     | Inr bus \<Rightarrow> do {
         c \<leftarrow> embedded_config pid;
         (res, w) \<leftarrow> worker_open pl X E c w;
         case res of
           Inl e \<Rightarrow> None
         | Inr wk \<Rightarrow> Some (bus, wk, w) } }"

text \<open>Request \<open>i\<close> of the five.\<close>

definition embedded_meta :: "nat \<Rightarrow> request_meta" where
  "embedded_meta i =
     \<lparr>path = ''/test/'' @ show_nat i, route_pattern = ''/test/:id'', path_params = [(''id'', show_nat i)],
      query = None, req_headers = [(''content-type'', ''text/plain'')]\<rparr>"

definition embedded_call :: "nat \<Rightarrow> call" where
  "embedded_call i =
     \<lparr>cl_id = ''req-'' @ show_nat i, cl_method = ''POST'', cl_meta = embedded_meta i,
      cl_body = as_bytes (''request body #'' @ show_nat i)\<rparr>"

definition embedded_main ::
  "platform \<Rightarrow> 'os externals \<Rightarrow> 'os event_os \<Rightarrow> u32 \<Rightarrow> 'os world \<Rightarrow> (response list \<times> bus \<times> worker \<times> 'os world) option" where
  "embedded_main pl X E pid w = do {
     s \<leftarrow> embedded_start pl X E pid w;
     session pl X E (embedded_handler pl X E) (map embedded_call [0 ..< 5]) s }"

section \<open>The handlers as functions of the request\<close>

definition echo_reply :: "request \<Rightarrow> reply" where
  "echo_reply req = \<lparr>rp_status = 200, rp_meta = \<lparr>content_type = ''application/octet-stream'', resp_headers = []\<rparr>,
     rp_body = rq_body req\<rparr>"

definition embedded_reply :: "request \<Rightarrow> reply" where
  "embedded_reply req = \<lparr>rp_status = 200,
     rp_meta = \<lparr>content_type = ''text/plain'', resp_headers = [(''x-worker'', ''embedded'')]\<rparr>,
     rp_body = as_bytes (embedded_body req)\<rparr>"

lemma handlers_reply:
  "echo_handler pl X E = replying pl X E echo_reply" "embedded_handler pl X E = replying pl X E embedded_reply"
  by (auto simp: fun_eq_iff echo_handler_def embedded_handler_def replying_def echo_reply_def embedded_reply_def Let_def)

lemma embedded_reply_body:
  "rp_body (embedded_reply (request_of (embedded_call i))) =
     as_bytes (''Hello from embedded worker! You sent '' @ show_nat (14 + length (show_nat i)) @ '' bytes to POST /test/'' @ show_nat i)"
proof -
  have "u8_to_method (method_to_u8 ''POST'') = ''POST''" by (simp add: method_to_u8_def u8_to_method_def protocol_consts)
  moreover have "length (as_bytes s) = length s" for s by (simp add: as_bytes_def)
  ultimately show ?thesis
    by (simp add: embedded_reply_def embedded_body_def request_of_def decode_request_def embedded_call_def embedded_meta_def)
qed

text \<open>Both examples' configurations pass the builder and leave every slot inside the region.\<close>

lemma example_configs:
  "\<exists>c. echo_config = Some c \<and> slots_fit c \<and> unat (cfg_num_slots c) = 32"
  "\<exists>c. embedded_config pid = Some c \<and> slots_fit c \<and> unat (cfg_num_slots c) = 8"
  by (simp_all add: echo_config_def embedded_config_def builder_defs slots_fit_def)

lemma embedded_starts_free:
  assumes "shmem_documented X V" and "events_separate E V" and "embedded_config pid = Some c" and "names_ok pl c"
    and "embedded_start pl X E pid w = Some (b, k, w')" and "unat (r_len (bus_region b)) < 2 ^ 32"
  shows "simulates V pl X initial (start_system b k w')"
proof -
  from assms(3,5) obtain w1 where "bus_create pl X E c w = Some (Inr b, w1)" "worker_open pl X E c w1 = Some (Inr k, w')"
    by (auto simp: embedded_start_def split: Option.bind_splits sum.splits)
  from startup_simulates [OF assms(1,2) _ assms(4) this(1) assms(6) this(2)] example_configs(2) [of pid] assms(3)
  show ?thesis by auto
qed

section \<open>What their callers receive\<close>

lemma embedded_main_answers:
  assumes "shmem_documented X V" and "postcard_documented X" and "events_separate E V" and "pl = MacOS \<longrightarrow> clock_documented E"
    and "embedded_config pid = Some c" and "names_ok pl c"
    and st: "embedded_start pl X E pid w = Some (b, k, w1)" and "unat (r_len (bus_region b)) < 2 ^ 32"
    and slots: "r_num_slots (bus_region b) \<noteq> 0"
    and fit: "\<And>i. i < 5 \<Longrightarrow> call_fits X (bus_region b) embedded_reply (embedded_call i)"
  shows "\<exists>rs s. embedded_main pl X E pid w = Some (rs, s) \<and> map rs_body rs =
    map (\<lambda>i. as_bytes (''Hello from embedded worker! You sent '' @ show_nat (14 + length (show_nat i)) @ '' bytes to POST /test/''
      @ show_nat i)) [0 ..< 5]"
proof -
  let ?\<sigma> = "start_system b k w1"
  have sim: "simulates V pl X initial ?\<sigma>" by (rule embedded_starts_free [OF assms(1,3,5,6) st assms(8)])
  have "0 < unat (r_num_slots (bus_region b))" using slots by (simp add: unat_gt_0)
  then have thread: "sy_threads ?\<sigma> 0 = None" "0 < slots_of ?\<sigma>" by (simp_all add: start_system_def slots_of_def)
  have all: "call_fits X (bus_region (sy_bus ?\<sigma>)) embedded_reply c'" if "c' \<in> set (map embedded_call [0 ..< 5])" for c'
    using that fit by (auto simp: start_system_def)
  have "\<exists>b' k' w'. session pl X E (replying pl X E embedded_reply) (map embedded_call [0 ..< 5])
        (sy_bus ?\<sigma>, sy_worker ?\<sigma>, sy_world ?\<sigma>)
      = Some (map (\<lambda>c. response_of (embedded_reply (request_of c))) (map embedded_call [0 ..< 5]), b', k', w')
    \<and> simulates V pl X initial (?\<sigma>\<lparr>sy_worker := k', sy_bus := b', sy_world := w'\<rparr>)"
    by (rule session_simulated [OF assms(1-4) sim thread all])
  then obtain b' k' w' where "session pl X E (replying pl X E embedded_reply) (map embedded_call [0 ..< 5]) (b, k, w1)
      = Some (map (\<lambda>c. response_of (embedded_reply (request_of c))) (map embedded_call [0 ..< 5]), b', k', w')"
    by (auto simp: start_system_def)
  then show ?thesis using st by (simp add: embedded_main_def handlers_reply embedded_reply_body response_of_def)
qed

text \<open>
  C35: the echo worker gives every caller its own bytes back, for bodies that fit. Calls awaited one after the other on a bus
  as after its start, whose worker runs the handler of \<^verbatim>\<open>echo_worker.rs\<close>, are all answered, in order, with status 200,
  content type \<^verbatim>\<open>application/octet-stream\<close> and exactly the body that was sent, when each request and its echo can be
  serialised and fit the arena of the first slot without an overflow region (\<open>call_fits\<close>).
\<close>

theorem echo_worker_echoes:
  assumes "shmem_documented X V" and "postcard_documented X" and "events_separate E V" and "pl = MacOS \<longrightarrow> clock_documented E"
    and "simulates V pl X initial \<sigma>" and "sy_threads \<sigma> t = None" and "0 < slots_of \<sigma>"
    and "\<And>c. c \<in> set cs \<Longrightarrow> call_fits X (bus_region (sy_bus \<sigma>)) echo_reply c"
  shows "\<exists>s. session pl X E (echo_handler pl X E) cs (sy_bus \<sigma>, sy_worker \<sigma>, sy_world \<sigma>)
    = Some (map (\<lambda>c. \<lparr>rs_status = 200, rs_body = cl_body c, rs_content_type = ''application/octet-stream'',
        rs_headers = []\<rparr>) cs, s)"
proof -
  have "response_of (echo_reply (request_of c)) = \<lparr>rs_status = 200, rs_body = cl_body c,
      rs_content_type = ''application/octet-stream'', rs_headers = []\<rparr>" for c
    by (simp add: response_of_def echo_reply_def request_of_def decode_request_def)
  moreover have "\<exists>b k w. session pl X E (replying pl X E echo_reply) cs (sy_bus \<sigma>, sy_worker \<sigma>, sy_world \<sigma>)
      = Some (map (\<lambda>c. response_of (echo_reply (request_of c))) cs, b, k, w)
    \<and> simulates V pl X initial (\<sigma>\<lparr>sy_worker := k, sy_bus := b, sy_world := w\<rparr>)"
    by (rule session_simulated [OF assms])
  ultimately show ?thesis by (auto simp: handlers_reply)
qed

theorem echo_worker_echoes_witness:
  "\<exists>(\<sigma> :: ref_os system) s rs. session Linux ref_externals quiet_events (echo_handler Linux ref_externals quiet_events)
      [demo_call, demo_call\<lparr>cl_body := [7]\<rparr>] (sy_bus \<sigma>, sy_worker \<sigma>, sy_world \<sigma>) = Some (rs, s)
    \<and> map rs_body rs = [[1, 2, 3], [7]]"
proof -
  obtain \<sigma> where S: "simulates ref_view Linux ref_externals initial \<sigma>" "sy_threads \<sigma> = (\<lambda>_. None)" "slots_of \<sigma> = 1"
    "payload_fits (bus_region (sy_bus \<sigma>)) Req 0 (as_bytes ''/x'') [1, 2, 3]"
    and room: "arena (wk_region (sy_worker \<sigma>)) Resp 0 = (32, 32)"
    by (rule demo_system)
  let ?r = "bus_region (sy_bus \<sigma>)"
  have "same_layout (wk_region (sy_worker \<sigma>)) ?r" using simulatesD(2) [OF S(1)] by (simp add: linked_def)
  then have room: "arena ?r Resp 0 = (32, 32)" using room same_layout_arena(1) by metis
  have vec: "response_to_vec ref_externals \<lparr>content_type = ''application/octet-stream'', resp_headers = []\<rparr>
      = Inr (as_bytes ''application/octet-stream'')"
    by (simp add: ref_externals_def ref_response_to_vec_def)
  have fits: "payload_fits ?r Resp 0 (as_bytes ''application/octet-stream'') body" if "length body \<le> 3" for body
    using that by (simp add: payload_fits_def inline_fits_def room as_bytes_def)
  have one: "call_fits ref_externals ?r echo_reply c"
    if "cl_id c = ''a''" "cl_meta c = demo_request" "length (cl_body c) \<le> 3" for c
  proof -
    have "call_ok ref_externals c" using demo_call_ok(1) that by (simp add: call_ok_def demo_call_def)
    moreover have "payload_fits ?r Req 0 (as_bytes ''/x'') (cl_body c)"
      using S(4) that(3) by (auto simp: payload_fits_def inline_fits_def)
    ultimately show ?thesis using that demo_request_vec vec fits [of "cl_body c"]
      by (auto simp: call_fits_def reply_ok_def echo_reply_def request_of_def decode_request_def as_bytes_def)
  qed
  have "call_fits ref_externals ?r echo_reply c" if "c \<in> set [demo_call, demo_call\<lparr>cl_body := [7]\<rparr>]" for c
    using that by (intro one) (auto simp: demo_call_def)
  from echo_worker_echoes [OF ref_shmem_documented ref_postcard_documented quiet_separate _ S(1) _ _ this, of 0] S(2,3)
  show ?thesis by (fastforce simp: demo_call_def)
qed

end
