(* ===== verification/Spec2Isabelle.thy ===== *)
theory Spec2Isabelle
  imports System Operations Races Typing Losses Waitfree Channels Loops Reference Hazards Atomicity Examples
begin

text \<open>
  slotbus is a request/response bus between one hub process and one worker process over shared memory
  (\<^verbatim>\<open>src/slotbus\<close>, Rust). The hub creates a control region: a 64-byte header, a table of 128-byte slots
  and a heap cut into one arena per slot, half for the request and half for the response. A call
  reserves a free slot, writes its request there and sets the slot \<open>Ready\<close>; the worker claims it,
  reads it, runs a handler and writes a response (\<open>Done\<close>); the hub's watcher thread reads the response,
  frees the slot and resolves the caller's oneshot channel. Bodies too large for the arena travel in an
  overflow region of their own. Named events wake the two threads.

  \<^bold>\<open>From the code to the theories.\<close>
  \<^item> \<open>Prelude\<close>, \<open>Utf8\<close>, \<open>World\<close>: byte lists, slices, decimal numbers, UTF-8 validity, and the world: the
    bytes of every segment and an opaque state of the operating system. Raw pointer accesses are
    \<open>mem_read\<close> and \<open>mem_write\<close>; an access outside the mapping is \<open>None\<close> (locale \<open>byte_store\<close>).
  \<^item> \<open>Types\<close> (\<^verbatim>\<open>types.rs\<close>): constants, methods, overflow markers, layout and arena arithmetic at 64 bits
    (locale \<open>arena_geometry\<close>), the \<^verbatim>\<open>repr(C)\<close> structs. \<open>Errors\<close> (\<^verbatim>\<open>error.rs\<close>). \<open>Config\<close> (\<^verbatim>\<open>config.rs\<close>):
    the builder and every name, per platform; overflow names stay apart on macOS too, where they are cut and hashed.
  \<^item> \<open>Externals\<close>: the third-party crates as a record of functions (\<open>externals\<close>, \<open>event_os\<close> in \<open>Events\<close>)
    with their documented behaviour as the predicates \<open>shmem_documented\<close>, \<open>postcard_documented\<close>,
    \<open>clock_documented\<close> (and, where a theorem needs more of the system, \<open>memory_available\<close>, a mapping under a free name is
    created, \<open>names_deleted\<close>, the owner's drop unlinks the name, and \<open>deletes_only\<close>, deleting a file makes no name).
    An idealisation: opening a bound name never runs out of memory or descriptors. One implementation
    \<open>ref_externals\<close> satisfies them and serves the witnesses.
  \<^item> \<open>Region\<close>, \<open>Control\<close> (\<^verbatim>\<open>region.rs\<close>): handle, header, slot states with their compare-exchange, checked heap
    accesses, \<open>init_control\<close>, \<open>validate_control\<close>, \<open>claim_free_slot\<close>, the retired allocator.
    \<open>Overflow\<close>: exclusive creation, the Windows reclaim path, the generation walk. \<open>Slots\<close>: \<open>write_request\<close>,
    \<open>read_request\<close>, \<open>write_response\<close>, \<open>read_response\<close>; \<open>Messages\<close> and \<open>Exchange\<close> hold their lemmas.
  \<^item> \<open>Events\<close> (\<^verbatim>\<open>events.rs\<close>): create, open, signal, wait and drop on Windows, Linux and macOS.
  \<^item> \<open>Transport\<close> (\<^verbatim>\<open>transport.rs\<close>): \<open>SlotBus\<close> (\<open>bus_create\<close>, \<open>bus_dispatch\<close> in its stages, \<open>watch_slot\<close>,
    \<open>watch_turn\<close>, \<open>watch_loop\<close>, \<open>bus_stop\<close>) and \<open>SlotWorker\<close> (\<open>worker_open\<close>, \<open>send_response\<close>, \<open>receive_slot\<close>,
    \<open>receive_turn\<close>, \<open>receive_loop\<close>). Calls on oneshot channels are recorded in \<open>bus_calls\<close> in their order.
  \<^item> \<open>Examples\<close>: the programs \<^verbatim>\<open>examples/echo_worker.rs\<close> and \<^verbatim>\<open>embedded.rs\<close>. While a caller awaits a call, one
    turn of each thread runs.

  \<^bold>\<open>The system and its specification.\<close> \<open>Protocol\<close> states what a bus promises: a phase per slot and a map of
  pending calls, changed by \<open>spec_step\<close>; and it composes the two ends into \<open>system\<close>, whose step relation
  \<open>sys_step\<close> runs the code's own operations for any number of hub and worker threads. A step is what one thread
  does between two points at which others can interfere: a compare-exchange on a status word, an access to
  one of the shared maps (overflow regions, pending calls), or reading or writing a slot the thread owns up
  to the status change that gives it up. So \<open>dispatch\<close> takes five steps, the receive loop and \<open>send_response\<close>
  five, the watcher three per slot; \<open>activity\<close> and \<open>watching\<close> say where each thread is. An overflow region can be
  removed from a map after a new message has been published, and the protocol has a flag for the message that
  lost it (\<open>sp_lost\<close>, event \<open>Drop\<close>). \<open>Simulation\<close> gives the relation \<open>simulates\<close> and how each kind of memory effect
  keeps it, \<open>Refinement\<close> one lemma per step, \<open>Startup\<close> the initial state, \<open>Traces\<close> runs and their histories, \<open>Turns\<close>
  whole operations (\<open>dispatch\<close>, a turn of either thread, a call), \<open>Progress\<close> that every step can be taken,
  \<open>Sessions\<close> callers that await their calls, \<open>Demo\<close> one started bus for the witnesses.

  \<^bold>\<open>What is proved.\<close>
  \<^item> \<open>System\<close>: every trace of a started bus is one of the protocol; requests and responses arrive at the right
    party, intact unless their overflow region was dropped; slots and overflow regions have one owner;
    \<open>dispatch\<close> on every branch; a call that fits its arena is accepted and answered; starting, below 4 GiB. \<open>Sessions\<close>:
    any sequence of awaited calls that fit is answered, in order, and leaves the bus as it was. \<open>Channels\<close>: a oneshot channel is used at most once, in any order of
    the stages of the hub's threads (\<open>hub_step\<close>) and for any contents of the memory.
  \<^item> \<open>Exchange\<close>: round trips of requests and responses, outcomes of a write, isolation of messages, readers
    on arbitrary bytes. \<open>Control\<close>, \<open>Overflow\<close>, \<open>Types\<close>, \<open>Config\<close>, \<open>Events\<close>: the operations below, on every branch.
  \<^item> \<open>Loops\<close>: both threads return from every turn for any contents of the shared memory, and end after
    \<open>stop\<close> (locale \<open>slot_service\<close>, interpreted for the watcher and for the receive loop).
  \<^item> \<open>Operations\<close>: \<open>dispatch\<close> and the turns of both threads, run without interruption, are runs of \<open>sys_step\<close>.
    \<open>Waitfree\<close>: a thread inside an operation can always finish it in at most four steps, and nobody sets it back.
    \<open>Races\<close>: the bytes that threads work on are disjoint and a step writes only its own. \<open>Typing\<close>: the header always
    validates and status words move along the edges of the slot's state machine. \<open>Inline\<close>: when every message
    fits its arena nothing is ever lost (\<open>messages_intact\<close>). \<open>Large\<close>: messages of any size are written, on every platform,
    and accepted calls are settled, also when the reply is refused, in states where no body is lost and the watcher is not
    in the middle of a slot. \<open>Orderly\<close>: nothing is lost, whatever the size of the messages, in
    the runs (\<open>orderly_run\<close>) that claim a slot only after the removals and insertions of its last call. The code
    does not enforce this: \<open>Losses\<close> runs the other case to its end, a call whose region is dropped by the watcher of
    the call before it, that no handler sees and nobody answers.
  \<^item> \<open>Atomicity\<close>: the watcher's three steps on a slot act as one, whatever other threads do in between, when no
    overflow region is involved.
  \<^item> \<open>Reference\<close>: the ways to scan the slots agree; the published inline capacity is exact.
  \<^item> \<open>Hazards\<close>: behaviours outside the protocol's assumptions, each exhibited on the code's own definitions:
    an out-of-range slot index writes to the heap, long request ids are cut, an unserialisable call costs a
    slot, an early reply is lost, the watcher's late removal, colliding names.

  \<^bold>\<open>Bounds and loops.\<close> Words have their Rust width and wrap; sizes are read through \<open>unat\<close>. The loops of the
  code that may not end (\<open>alloc_heap\<close>, \<open>poll_wait\<close>, \<open>watch_loop\<close>, \<open>receive_loop\<close>) are \<open>partial_function (option)\<close>,
  with interference given by a function of the turn; that they return is proved under the condition that
  makes them return. There is no fuel. The protocol's guarantees are for request ids of at most 36 bytes
  without NUL, bodies below 4 GiB and serialised metadata below 64 KiB (\<open>call_ok\<close>, \<open>reply_ok\<close>).

  \<^bold>\<open>Not modelled.\<close> Memory is sequentially consistent: the Acquire and Release orderings are not weakened. A thread
  reads or writes all fields of a slot it owns in one step; \<open>Races\<close> shows that no step of another thread touches
  these bytes. The watcher reads a finished slot and releases it in one step, because nobody else changes such
  a slot. Signalling an event is part of the step before it. There is one watcher
  thread, as the comment on \<^verbatim>\<open>start_response_watcher\<close> asks (\<^verbatim>\<open>Call this once\<close>). Other
  processes than the hub and the worker do not write to the region, except in the theorems on arbitrary
  contents. Logging, \<^verbatim>\<open>Debug\<close> output, latency measurement, thread creation and the crate root
  (\<^verbatim>\<open>lib.rs\<close>, re-exports only) have no effect on this state. The one-line accessors are the record fields. \<^verbatim>\<open>shared_memory\<close>,
  \<^verbatim>\<open>postcard\<close>, \<^verbatim>\<open>tokio\<close> and the system calls are parameters.
\<close>

end
